(* ===== verification/Prelude.thy ===== *)
theory Prelude
  imports Main "HOL-Library.Word" "HOL-Library.AList" "HOL-Library.Sublist"
begin

text \<open>
  Shared vocabulary of the development: the fixed-width integers of the Rust
  code, its results, its clock readings, the parts of the standard library on
  strings and integers that the components call (\<open>trim\<close>,
  \<open>eq_ignore_ascii_case\<close>, \<open>to_ascii_uppercase\<close>, decimal formatting and
  parsing, saturating arithmetic), and the generic lemmas on lists, maps and
  words that the component proofs share.

  A Rust \<open>String\<close> is a list of 8-bit characters here, i.e. its UTF-8 bytes.
  \<open>trim\<close> removes ASCII white space only; the standard library also removes
  the non-ASCII white space code points.
\<close>

named_theorems slot_defs \<open>operations of the slot pools\<close>
named_theorems txn_defs \<open>setters of the transaction\<close>
named_theorems health_defs \<open>operations of the health side table\<close>
named_theorems cache_defs \<open>operations of the answer cache\<close>

section \<open>Integers, results and time\<close>

type_synonym u8 = "8 word"
type_synonym u16 = "16 word"
type_synonym u32 = "32 word"
type_synonym u64 = "64 word"
type_synonym bytes = "8 word list"

type_synonym instant = nat
type_synonym duration = nat

type_synonym ('e, 'a) result = "'e + 'a"

abbreviation Err :: "'e \<Rightarrow> ('e, 'a) result"
  where "Err \<equiv> Inl"

abbreviation Ok :: "'a \<Rightarrow> ('e, 'a) result"
  where "Ok \<equiv> Inr"

definition sat_sub :: "'w::len word \<Rightarrow> 'w word \<Rightarrow> 'w word"
  where "sat_sub a b = (if b \<le> a then a - b else 0)"

definition sat_add :: "'w::len word \<Rightarrow> 'w word \<Rightarrow> 'w word"
  where "sat_add a b = (if unat a + unat b < 2 ^ LENGTH('w) then a + b else - 1)"

definition checked_add :: "'w::len word \<Rightarrow> 'w word \<Rightarrow> 'w word option"
  where "checked_add a b = (if unat a + unat b < 2 ^ LENGTH('w) then Some (a + b) else None)"

definition checked_mul :: "'w::len word \<Rightarrow> 'w word \<Rightarrow> 'w word option"
  where "checked_mul a b = (if unat a * unat b < 2 ^ LENGTH('w) then Some (a * b) else None)"

text \<open>\<open>Instant::elapsed\<close> and \<open>saturating_duration_since\<close>: truncated at zero.\<close>

definition elapsed :: "instant \<Rightarrow> instant \<Rightarrow> duration"
  where "elapsed now started = now - started"

definition as_millis :: "duration \<Rightarrow> nat"
  where "as_millis d = d div 1000000"

definition from_millis :: "nat \<Rightarrow> duration"
  where "from_millis ms = ms * 1000000"

definition from_secs :: "nat \<Rightarrow> duration"
  where "from_secs s = s * 1000000000"

section \<open>Strings\<close>

definition is_ascii_space :: "char \<Rightarrow> bool"
  where "is_ascii_space c =
    (let n = (of_char c :: nat) in n = 32 \<or> (9 \<le> n \<and> n \<le> 13))"

definition trim_start :: "string \<Rightarrow> string"
  where "trim_start s = dropWhile is_ascii_space s"

definition trim_end :: "string \<Rightarrow> string"
  where "trim_end s = rev (dropWhile is_ascii_space (rev s))"

definition trim :: "string \<Rightarrow> string"
  where "trim s = trim_end (trim_start s)"

text \<open>ASCII case conversion clears or sets bit 5 of a letter.\<close>

definition to_upper :: "char \<Rightarrow> char"
  where "to_upper c =
    (let n = (of_char c :: nat) in
     if 97 \<le> n \<and> n \<le> 122
     then (case c of Char b0 b1 b2 b3 b4 b5 b6 b7 \<Rightarrow> Char b0 b1 b2 b3 b4 False b6 b7) else c)"

definition to_lower :: "char \<Rightarrow> char"
  where "to_lower c =
    (let n = (of_char c :: nat) in
     if 65 \<le> n \<and> n \<le> 90
     then (case c of Char b0 b1 b2 b3 b4 b5 b6 b7 \<Rightarrow> Char b0 b1 b2 b3 b4 True b6 b7) else c)"

definition to_ascii_uppercase :: "string \<Rightarrow> string"
  where "to_ascii_uppercase s = map to_upper s"

definition to_ascii_lowercase :: "string \<Rightarrow> string"
  where "to_ascii_lowercase s = map to_lower s"

definition eq_ignore_ascii_case :: "string \<Rightarrow> string \<Rightarrow> bool"
  where "eq_ignore_ascii_case s t = (map to_lower s = map to_lower t)"

definition strip_prefix :: "string \<Rightarrow> string \<Rightarrow> string option"
  where "strip_prefix p s = (if prefix p s then Some (drop (length p) s) else None)"

definition strip_suffix :: "string \<Rightarrow> string \<Rightarrow> string option"
  where "strip_suffix p s = (if suffix p s then Some (take (length s - length p) s) else None)"

definition is_digit :: "char \<Rightarrow> bool"
  where "is_digit c = (let n = (of_char c :: nat) in 48 \<le> n \<and> n \<le> 57)"

definition digit_val :: "char \<Rightarrow> nat"
  where "digit_val c = (of_char c :: nat) - 48"

definition digit_char :: "nat \<Rightarrow> char"
  where "digit_char d = ''0123456789'' ! d"

fun show_nat :: "nat \<Rightarrow> string"
  where "show_nat n =
    (if n < 10 then [digit_char n] else show_nat (n div 10) @ [digit_char (n mod 10)])"

declare show_nat.simps [simp del]

definition digits_val :: "string \<Rightarrow> nat"
  where "digits_val s = foldl (\<lambda>acc c. 10 * acc + digit_val c) 0 s"

text \<open>\<open>str::parse::<uN>\<close>: an optional plus sign, then at least one digit, the
  value at most the largest of the type.\<close>

definition parse_uint :: "nat \<Rightarrow> string \<Rightarrow> nat option"
  where "parse_uint maxv s =
    (let ds = (case s of c # cs \<Rightarrow> if c = CHR ''+'' then cs else s | [] \<Rightarrow> s) in
     if ds \<noteq> [] \<and> list_all is_digit ds \<and> digits_val ds \<le> maxv
     then Some (digits_val ds) else None)"

definition parse_u8 :: "string \<Rightarrow> u8 option"
  where "parse_u8 s = map_option of_nat (parse_uint 255 s)"

definition parse_u16 :: "string \<Rightarrow> u16 option"
  where "parse_u16 s = map_option of_nat (parse_uint 65535 s)"

definition parse_u32 :: "string \<Rightarrow> u32 option"
  where "parse_u32 s = map_option of_nat (parse_uint 4294967295 s)"

definition parse_u64 :: "string \<Rightarrow> u64 option"
  where "parse_u64 s = map_option of_nat (parse_uint 18446744073709551615 s)"

definition squote :: "string \<Rightarrow> string"
  where "squote s = [CHR 0x27] @ s @ [CHR 0x27]"

text \<open>Results: mapping the error, and a loop that stops at the first error.\<close>

definition map_err :: "('e \<Rightarrow> 'f) \<Rightarrow> ('e, 'a) result \<Rightarrow> ('f, 'a) result"
  where "map_err f r = (case r of Inl e \<Rightarrow> Err (f e) | Inr a \<Rightarrow> Ok a)"

definition ok_or :: "'e \<Rightarrow> 'a option \<Rightarrow> ('e, 'a) result"
  where "ok_or e x = (case x of Some a \<Rightarrow> Ok a | None \<Rightarrow> Err e)"

definition rbind :: "('e, 'a) result \<Rightarrow> ('a \<Rightarrow> ('e, 'b) result) \<Rightarrow> ('e, 'b) result"
  where "rbind r f = (case r of Inl e \<Rightarrow> Err e | Inr a \<Rightarrow> f a)"

fun traverse :: "('a \<Rightarrow> ('e, 'b) result) \<Rightarrow> 'a list \<Rightarrow> ('e, 'b list) result"
  where
    "traverse f [] = Ok []"
  | "traverse f (x # xs) =
      (case f x of Inl e \<Rightarrow> Err e
       | Inr y \<Rightarrow> (case traverse f xs of Inl e \<Rightarrow> Err e | Inr ys \<Rightarrow> Ok (y # ys)))"

definition err_list :: "('e, 'a) result \<Rightarrow> 'e list"
  where "err_list r = (case r of Inl e \<Rightarrow> [e] | Inr _ \<Rightarrow> [])"

section \<open>Lemmas on results\<close>

lemma traverse_Ok_iff: "(\<exists>ys. traverse f xs = Ok ys) \<longleftrightarrow> (\<forall>x \<in> set xs. \<exists>y. f x = Ok y)"
  by (induction xs) (auto split: sum.splits)

lemma traverse_OkD: "traverse f xs = Ok ys \<Longrightarrow> list_all2 (\<lambda>x y. f x = Ok y) xs ys"
  by (induction xs arbitrary: ys) (auto split: sum.splits)

lemma traverse_Ok_mem: "traverse f xs = Ok ys \<Longrightarrow> y \<in> set ys \<Longrightarrow> \<exists>x \<in> set xs. f x = Ok y"
  by (induction xs arbitrary: ys) (auto split: sum.splits)

lemma rbind_simps [simp]: "rbind (Ok a) f = f a" "rbind (Err e) f = Err e"
  by (simp_all add: rbind_def)

lemma rbind_Ok_iff: "rbind r f = Ok b \<longleftrightarrow> (\<exists>a. r = Ok a \<and> f a = Ok b)"
  by (auto simp: rbind_def split: sum.splits)

lemma map_err_simps [simp]: "map_err f (Ok a) = Ok a" "map_err f (Err e) = Err (f e)"
  by (simp_all add: map_err_def)

lemma map_err_Ok_iff [simp]: "map_err f r = Ok a \<longleftrightarrow> r = Ok a"
  by (auto simp: map_err_def split: sum.splits)

lemma ok_or_Ok_iff [simp]: "ok_or e x = Ok a \<longleftrightarrow> x = Some a"
  by (auto simp: ok_or_def split: option.splits)

lemma err_list_Nil [simp]: "err_list r = [] \<longleftrightarrow> (\<exists>a. r = Ok a)"
  by (auto simp: err_list_def split: sum.splits)

section \<open>Lemmas on words\<close>

lemma sat_sub_unat: "unat (sat_sub a b) = unat a - unat b"
  by (auto simp: sat_sub_def unat_sub_if' word_le_nat_alt)

lemma sat_add_le: "a \<le> sat_add a b"
  using word_n1_ge [of a] by (auto simp: sat_add_def word_le_nat_alt unat_word_ariths)

lemma checked_add_unat: "checked_add a b = Some c \<Longrightarrow> unat c = unat a + unat b"
  by (auto simp: checked_add_def unat_word_ariths split: if_splits)

lemma unat_bound: "unat (a :: 'w::len word) < 2 ^ LENGTH('w)"
  by (rule unsigned_less)

lemma unat_inj: "unat a = unat b \<Longrightarrow> a = b"
  by (simp add: word_unat_eq_iff)

lemma unat_of_nat_small: "n < 2 ^ LENGTH('w::len) \<Longrightarrow> unat (of_nat n :: 'w word) = n"
  by (simp add: unat_of_nat take_bit_nat_eq_self)

lemma unat_u16_le: "unat (a :: u16) \<le> 65535"
  using unat_bound [of a] by simp

lemma unat_u32_less: "unat (a :: u32) < 4294967296"
  using unat_bound [of a] by simp

lemma unat_u64_less: "unat (a :: u64) < 18446744073709551616"
  using unat_bound [of a] by simp

lemma unat_ucast_u64 [simp]: "unat (ucast (a :: u32) :: u64) = unat a"
proof -
  have "unat a < 2 ^ 64"
    using unat_u32_less [of a] by simp
  then show ?thesis
    by (simp add: unsigned_ucast_eq take_bit_nat_eq_self)
qed

lemma one_le_word_iff: "1 \<le> (a :: 'w::len word) \<longleftrightarrow> a \<noteq> 0"
  by (metis One_nat_def Suc_le_eq neq0_conv unat_1 unat_eq_zero word_le_nat_alt unsigned_0
      word_le_0_iff)

lemma unat_plus_1: "unat (a :: 'w::len word) + 1 < 2 ^ LENGTH('w) \<Longrightarrow> unat (a + 1) = unat a + 1"
  by (simp add: unat_word_ariths)

section \<open>Lemmas on strings and decimal notation\<close>

lemma less_10_cases:
  "d < (10::nat) \<Longrightarrow> d = 0 \<or> d = 1 \<or> d = 2 \<or> d = 3 \<or> d = 4 \<or> d = 5 \<or> d = 6 \<or> d = 7 \<or> d = 8 \<or> d = 9"
  by arith

lemma digit_char_digit: "d < 10 \<Longrightarrow> is_digit (digit_char d)"
  by (drule less_10_cases) (auto simp: is_digit_def digit_char_def)

lemma digit_val_char: "d < 10 \<Longrightarrow> digit_val (digit_char d) = d"
  by (drule less_10_cases) (auto simp: digit_val_def digit_char_def)

lemma show_nat_nonempty [simp]: "show_nat n \<noteq> []"
  by (subst show_nat.simps) simp

lemma show_nat_digits: "list_all is_digit (show_nat n)"
proof (induction n rule: show_nat.induct)
  case (1 n)
  then show ?case
    by (subst show_nat.simps) (auto simp: digit_char_digit)
qed

lemma digits_val_append: "digits_val (s @ [c]) = 10 * digits_val s + digit_val c"
  by (simp add: digits_val_def)

lemma digits_val_show_nat [simp]: "digits_val (show_nat n) = n"
proof (induction n rule: show_nat.induct)
  case (1 n)
  show ?case
  proof (cases "n < 10")
    case True
    then show ?thesis
      by (subst show_nat.simps) (simp add: digits_val_def digit_val_char)
  next
    case False
    then show ?thesis
      using 1 by (subst show_nat.simps) (simp add: digits_val_append digit_val_char)
  qed
qed

lemma show_nat_inj: "show_nat m = show_nat n \<Longrightarrow> m = n"
  by (metis digits_val_show_nat)

lemma show_nat_hd_not_plus: "hd (show_nat n) \<noteq> CHR ''+''"
proof -
  have "is_digit (hd (show_nat n))"
    using show_nat_digits [of n] by (cases "show_nat n") auto
  then show ?thesis
    by (auto simp: is_digit_def)
qed

lemma parse_uint_show_nat: "n \<le> m \<Longrightarrow> parse_uint m (show_nat n) = Some n"
  using show_nat_hd_not_plus [of n] show_nat_digits [of n]
  by (cases "show_nat n") (auto simp: parse_uint_def Let_def dest!: arg_cong [of _ _ digits_val])

lemma parse_uint_bound: "parse_uint m s = Some n \<Longrightarrow> n \<le> m"
  by (auto simp: parse_uint_def Let_def split: if_splits)

lemma is_digit_not_space: "is_digit c \<Longrightarrow> \<not> is_ascii_space c"
  by (auto simp: is_digit_def is_ascii_space_def Let_def)

lemma is_digit_upper: "is_digit c \<Longrightarrow> to_upper c = c"
  by (auto simp: is_digit_def to_upper_def Let_def)

lemma is_digit_lower: "is_digit c \<Longrightarrow> to_lower c = c"
  by (auto simp: is_digit_def to_lower_def Let_def)

lemma map_digits_id:
  assumes "list_all is_digit s"
  shows "map to_upper s = s" "map to_lower s = s"
  using assms by (induction s) (auto simp: is_digit_upper is_digit_lower)

lemma dropWhile_id: "s = [] \<or> \<not> P (hd s) \<Longrightarrow> dropWhile P s = s"
  by (cases s) auto

lemma trim_id:
  assumes "s \<noteq> []" "\<not> is_ascii_space (hd s)" "\<not> is_ascii_space (last s)"
  shows "trim s = s"
  using assms by (simp add: trim_def trim_start_def trim_end_def dropWhile_id hd_rev)

lemma eq_ignore_ascii_case_refl [simp]: "eq_ignore_ascii_case s s"
  by (simp add: eq_ignore_ascii_case_def)

lemma eq_ignore_ascii_case_sym: "eq_ignore_ascii_case s t \<Longrightarrow> eq_ignore_ascii_case t s"
  by (simp add: eq_ignore_ascii_case_def)

lemma eq_ignore_ascii_case_trans:
  "eq_ignore_ascii_case s t \<Longrightarrow> eq_ignore_ascii_case t u \<Longrightarrow> eq_ignore_ascii_case s u"
  by (simp add: eq_ignore_ascii_case_def)

section \<open>Lemmas on lists and maps\<close>

lemma nth_update_word:
  "unat k < length xs \<Longrightarrow> xs[unat i := x] ! unat k = (if k = i then x else xs ! unat k)"
  by (metis nth_list_update_eq nth_list_update_neq unat_inj)

lemma concat_map_Nil: "concat (map f xs) = [] \<longleftrightarrow> (\<forall>x \<in> set xs. f x = [])"
  by auto

lemma map_filter_mem: "y \<in> set (List.map_filter f xs) \<longleftrightarrow> (\<exists>x \<in> set xs. f x = Some y)"
  by (induction xs) (auto simp: map_filter_simps split: option.splits)

lemma find_Some_mem: "find P xs = Some x \<Longrightarrow> x \<in> set xs \<and> P x"
  by (auto simp: find_Some_iff in_set_conv_nth)

lemma distinct_butlast_last:
  "distinct xs \<Longrightarrow> xs \<noteq> [] \<Longrightarrow> last xs \<notin> set (butlast xs)"
  by (metis append_butlast_last_id distinct.simps(2) distinct_append distinct_singleton
      not_distinct_conv_prefix)

lemma set_butlast_last: "xs \<noteq> [] \<Longrightarrow> set xs = insert (last xs) (set (butlast xs))"
  by (metis append_butlast_last_id empty_set list.simps(15) set_append Un_insert_right sup_bot_right)

section \<open>Association lists\<close>

lemma delete_filter: "AList.delete k al = filter (\<lambda>e. fst e \<noteq> k) al"
  by (induction al) auto

lemma fold_delete: "fold AList.delete ks al = filter (\<lambda>e. fst e \<notin> set ks) al"
  by (induction ks arbitrary: al) (auto simp: delete_filter intro: filter_cong)

lemma length_delete_distinct:
  "distinct (map fst al) \<Longrightarrow> map_of al k \<noteq> None \<Longrightarrow> length al = length (AList.delete k al) + 1"
proof (induction al)
  case (Cons e al)
  show ?case
  proof (cases "fst e = k")
    case True
    then have "AList.delete k al = al"
      using Cons.prems(1) by auto
    then show ?thesis
      using True by (cases e) simp
  next
    case False
    then show ?thesis
      using Cons by (cases e) auto
  qed
qed simp

lemma map_of_filter_distinct:
  "distinct (map fst al) \<Longrightarrow>
   map_of (filter P al) k = (case map_of al k of Some v \<Rightarrow> if P (k, v) then Some v else None | None \<Rightarrow> None)"
  by (induction al) (auto split: option.splits simp: map_of_eq_None_iff image_iff dest: map_of_SomeD)

lemma unat_minus_of_nat: "n \<le> unat (w :: u64) \<Longrightarrow> unat (w - of_nat n) = unat w - n"
  by (simp add: unat_sub_if' word_le_nat_alt le_unat_uoi)

lemma length_alist_update:
  "length (AList.update k v al) = length al + (if map_of al k = None then 1 else 0)"
  by (induction al) auto

end
