(* ===== verification/Dns_Wire.thy ===== *)
theory Dns_Wire
  imports Prelude
begin

text \<open>
  The DNS wire-number enums of \<open>crates/conduit-dns-wire\<close>: the tables of IANA
  names (\<open>iana.rs\<close>), the lookup of a canonical name by number and the parser
  of a configured name (\<open>lib.rs\<close>).  The five types the macro
  \<open>impl_wire_enum\<close> generates are values of the record \<open>wire_enum\<close>; the
  cast to the number type of the enum (\<open>u8\<close> for opcodes, \<open>u16\<close> otherwise)
  is its last field.  The main result is that parsing inverts naming.
\<close>

section \<open>The tables\<close>

datatype wire_enum_entry = WireEnumEntry (entry_number: u16) (entry_name: string)

definition KNOWN_RECORD_TYPES :: "wire_enum_entry list"
  where "KNOWN_RECORD_TYPES =
    [WireEnumEntry 0 ''ZERO'', WireEnumEntry 1 ''A'', WireEnumEntry 2 ''NS'',
     WireEnumEntry 3 ''MD'', WireEnumEntry 4 ''MF'', WireEnumEntry 5 ''CNAME'',
     WireEnumEntry 6 ''SOA'', WireEnumEntry 7 ''MB'', WireEnumEntry 8 ''MG'',
     WireEnumEntry 9 ''MR'', WireEnumEntry 10 ''NULL'', WireEnumEntry 11 ''WKS'',
     WireEnumEntry 12 ''PTR'', WireEnumEntry 13 ''HINFO'', WireEnumEntry 14 ''MINFO'',
     WireEnumEntry 15 ''MX'', WireEnumEntry 16 ''TXT'', WireEnumEntry 17 ''RP'',
     WireEnumEntry 18 ''AFSDB'', WireEnumEntry 19 ''X25'', WireEnumEntry 20 ''ISDN'',
     WireEnumEntry 21 ''RT'', WireEnumEntry 22 ''NSAP'', WireEnumEntry 23 ''NSAP_PTR'',
     WireEnumEntry 24 ''SIG'', WireEnumEntry 25 ''KEY'', WireEnumEntry 26 ''PX'',
     WireEnumEntry 27 ''GPOS'', WireEnumEntry 28 ''AAAA'', WireEnumEntry 29 ''LOC'',
     WireEnumEntry 30 ''NXT'', WireEnumEntry 31 ''EID'', WireEnumEntry 32 ''NIMLOC'',
     WireEnumEntry 33 ''SRV'', WireEnumEntry 34 ''ATMA'', WireEnumEntry 35 ''NAPTR'',
     WireEnumEntry 36 ''KX'', WireEnumEntry 37 ''CERT'', WireEnumEntry 38 ''A6'',
     WireEnumEntry 39 ''DNAME'', WireEnumEntry 40 ''SINK'', WireEnumEntry 41 ''OPT'',
     WireEnumEntry 42 ''APL'', WireEnumEntry 43 ''DS'', WireEnumEntry 44 ''SSHFP'',
     WireEnumEntry 45 ''IPSECKEY'', WireEnumEntry 46 ''RRSIG'', WireEnumEntry 47 ''NSEC'',
     WireEnumEntry 48 ''DNSKEY'', WireEnumEntry 49 ''DHCID'', WireEnumEntry 50 ''NSEC3'',
     WireEnumEntry 51 ''NSEC3PARAM'', WireEnumEntry 52 ''TLSA'', WireEnumEntry 53 ''SMIMEA'',
     WireEnumEntry 54 ''UNASSIGNED'', WireEnumEntry 55 ''HIP'', WireEnumEntry 56 ''NINFO'',
     WireEnumEntry 57 ''RKEY'', WireEnumEntry 58 ''TALINK'', WireEnumEntry 59 ''CDS'',
     WireEnumEntry 60 ''CDNSKEY'', WireEnumEntry 61 ''OPENPGPKEY'', WireEnumEntry 62 ''CSYNC'',
     WireEnumEntry 63 ''ZONEMD'', WireEnumEntry 64 ''SVCB'', WireEnumEntry 65 ''HTTPS'',
     WireEnumEntry 66 ''DSYNC'', WireEnumEntry 67 ''HHIT'', WireEnumEntry 68 ''BRID'',
     WireEnumEntry 99 ''SPF'', WireEnumEntry 100 ''UINFO'', WireEnumEntry 101 ''UID'',
     WireEnumEntry 102 ''GID'', WireEnumEntry 103 ''UNSPEC'', WireEnumEntry 104 ''NID'',
     WireEnumEntry 105 ''L32'', WireEnumEntry 106 ''L64'', WireEnumEntry 107 ''LP'',
     WireEnumEntry 108 ''EUI48'', WireEnumEntry 109 ''EUI64'', WireEnumEntry 128 ''NXNAME'',
     WireEnumEntry 249 ''TKEY'', WireEnumEntry 250 ''TSIG'', WireEnumEntry 251 ''IXFR'',
     WireEnumEntry 252 ''AXFR'', WireEnumEntry 253 ''MAILB'', WireEnumEntry 254 ''MAILA'',
     WireEnumEntry 256 ''URI'', WireEnumEntry 257 ''CAA'', WireEnumEntry 258 ''AVC'',
     WireEnumEntry 259 ''DOA'', WireEnumEntry 260 ''AMTRELAY'', WireEnumEntry 261 ''RESINFO'',
     WireEnumEntry 262 ''WALLET'', WireEnumEntry 263 ''CLA'', WireEnumEntry 264 ''IPN'',
     WireEnumEntry 32768 ''TA'', WireEnumEntry 32769 ''DLV'', WireEnumEntry 65305 ''ANAME'',
     WireEnumEntry 65535 ''RESERVED'']"

definition KNOWN_RCODES :: "wire_enum_entry list"
  where "KNOWN_RCODES =
    [WireEnumEntry 0 ''NOERROR'', WireEnumEntry 1 ''FORMERR'', WireEnumEntry 2 ''SERVFAIL'',
     WireEnumEntry 3 ''NXDOMAIN'', WireEnumEntry 4 ''NOTIMP'', WireEnumEntry 5 ''REFUSED'',
     WireEnumEntry 6 ''YXDOMAIN'', WireEnumEntry 7 ''YXRRSET'', WireEnumEntry 8 ''NXRRSET'',
     WireEnumEntry 9 ''NOTAUTH'', WireEnumEntry 10 ''NOTZONE'', WireEnumEntry 11 ''DSOTYPENI'',
     WireEnumEntry 16 ''BADVERS'', WireEnumEntry 17 ''BADKEY'', WireEnumEntry 18 ''BADTIME'',
     WireEnumEntry 19 ''BADMODE'', WireEnumEntry 20 ''BADNAME'', WireEnumEntry 21 ''BADALG'',
     WireEnumEntry 22 ''BADTRUNC'', WireEnumEntry 23 ''BADCOOKIE'',
     WireEnumEntry 65535 ''RESERVED_CAN_BE_ALLOCATED_BY_STANDARDS_ACTION'']"

definition KNOWN_QUERY_CLASSES :: "wire_enum_entry list"
  where "KNOWN_QUERY_CLASSES =
    [WireEnumEntry 0 ''RESERVED'', WireEnumEntry 1 ''IN'', WireEnumEntry 2 ''UNASSIGNED'',
     WireEnumEntry 3 ''CH'', WireEnumEntry 4 ''HS'', WireEnumEntry 254 ''NONE'',
     WireEnumEntry 255 ''ANY'', WireEnumEntry 65535 ''RESERVED65535'']"

definition KNOWN_DNS_OPCODES :: "wire_enum_entry list"
  where "KNOWN_DNS_OPCODES =
    [WireEnumEntry 0 ''QUERY'', WireEnumEntry 1 ''IQUERY'', WireEnumEntry 2 ''STATUS'',
     WireEnumEntry 3 ''UNASSIGNED'', WireEnumEntry 4 ''NOTIFY'', WireEnumEntry 5 ''UPDATE'',
     WireEnumEntry 6 ''DNS_STATEFUL_OPERATIONS'']"

definition KNOWN_EDNS_OPTION_CODES :: "wire_enum_entry list"
  where "KNOWN_EDNS_OPTION_CODES =
    [WireEnumEntry 0 ''ZERO'', WireEnumEntry 1 ''LLQ'', WireEnumEntry 2 ''UPDATE_LEASE'',
     WireEnumEntry 3 ''NSID'', WireEnumEntry 4 ''RESERVED4'', WireEnumEntry 5 ''DAU'',
     WireEnumEntry 6 ''DHU'', WireEnumEntry 7 ''N3U'', WireEnumEntry 8 ''EDNS_CLIENT_SUBNET'',
     WireEnumEntry 9 ''EDNS_EXPIRE'', WireEnumEntry 10 ''COOKIE'',
     WireEnumEntry 11 ''EDNS_TCP_KEEPALIVE'', WireEnumEntry 12 ''PADDING'',
     WireEnumEntry 13 ''CHAIN'', WireEnumEntry 14 ''EDNS_KEY_TAG'',
     WireEnumEntry 15 ''EXTENDED_DNS_ERROR'', WireEnumEntry 16 ''EDNS_CLIENT_TAG'',
     WireEnumEntry 17 ''EDNS_SERVER_TAG'', WireEnumEntry 18 ''REPORT_CHANNEL'',
     WireEnumEntry 19 ''ZONEVERSION'', WireEnumEntry 20 ''MQTYPE_QUERY'',
     WireEnumEntry 21 ''MQTYPE_RESPONSE'', WireEnumEntry 22 ''EDE_EXTRA_TEXT_LANGUAGE'',
     WireEnumEntry 23 ''FILTERING_CONTACT'', WireEnumEntry 24 ''FILTERING_ORGANIZATION'',
     WireEnumEntry 25 ''FILTERING_DB'', WireEnumEntry 20292 ''UMBRELLA_IDENT'',
     WireEnumEntry 26946 ''DEVICEID'', WireEnumEntry 65535 ''RESERVED_FOR_FUTURE_EXPANSION'']"

definition RECORD_TYPE_PARSE_ALIASES :: "(string \<times> u16) list"
  where "RECORD_TYPE_PARSE_ALIASES =
    []"

definition RCODE_PARSE_ALIASES :: "(string \<times> u16) list"
  where "RCODE_PARSE_ALIASES =
    [(''BADSIG'', 16)]"

definition QUERY_CLASS_PARSE_ALIASES :: "(string \<times> u16) list"
  where "QUERY_CLASS_PARSE_ALIASES =
    []"

definition DNS_OPCODE_PARSE_ALIASES :: "(string \<times> u16) list"
  where "DNS_OPCODE_PARSE_ALIASES =
    [(''DSO'', 6)]"

definition EDNS_OPTION_CODE_PARSE_ALIASES :: "(string \<times> u16) list"
  where "EDNS_OPTION_CODE_PARSE_ALIASES =
    [(''UL'', 2), (''CLIENT_SUBNET'', 8), (''EXPIRE'', 9), (''TCP_KEEPALIVE'', 11), (''KEY_TAG'', 14), (''EDE'', 15), (''UMBRELLA'', 20292)]"

section \<open>Names and numbers\<close>

fun canonical_from_entries :: "wire_enum_entry list \<Rightarrow> u16 \<Rightarrow> string \<Rightarrow> string"
  where
    "canonical_from_entries [] number unknown_prefix = unknown_prefix @ show_nat (unat number)"
  | "canonical_from_entries (entry # entries) number unknown_prefix =
      (if entry_number entry = number then entry_name entry
       else canonical_from_entries entries number unknown_prefix)"

fun scan_entries :: "wire_enum_entry list \<Rightarrow> string \<Rightarrow> string \<Rightarrow> u16 option"
  where
    "scan_entries [] trimmed unknown_prefix = None"
  | "scan_entries (entry # entries) trimmed unknown_prefix =
      (if eq_ignore_ascii_case (entry_name entry) trimmed then Some (entry_number entry)
       else if eq_ignore_ascii_case (unknown_prefix @ show_nat (unat (entry_number entry))) trimmed
       then Some (entry_number entry)
       else scan_entries entries trimmed unknown_prefix)"

definition parse_name_from_entries :: "wire_enum_entry list \<Rightarrow> string \<Rightarrow> string \<Rightarrow> u16 option"
  where "parse_name_from_entries entries name unknown_prefix =
    (let trimmed = trim name in
     case scan_entries entries trimmed unknown_prefix of
       Some n \<Rightarrow> Some n
     | None \<Rightarrow>
        (case strip_prefix (to_ascii_uppercase unknown_prefix) (to_ascii_uppercase trimmed) of
           Some rest \<Rightarrow> parse_u16 rest
         | None \<Rightarrow> None))"

definition parse_name_with_aliases ::
  "wire_enum_entry list \<Rightarrow> (string \<times> u16) list \<Rightarrow> string \<Rightarrow> string \<Rightarrow> u16 option"
  where "parse_name_with_aliases entries name_aliases name unknown_prefix =
    (case parse_name_from_entries entries name unknown_prefix of
       Some n \<Rightarrow> Some n
     | None \<Rightarrow>
        map_option snd (find (\<lambda>(alias, _). eq_ignore_ascii_case alias (trim name)) name_aliases))"

record wire_enum =
  we_struct :: string
  we_known :: "wire_enum_entry list"
  we_aliases :: "(string \<times> u16) list"
  we_prefix :: string
  we_cast :: "u16 \<Rightarrow> u16"

definition name_for :: "wire_enum \<Rightarrow> u16 \<Rightarrow> string"
  where "name_for W number = canonical_from_entries (we_known W) number (we_prefix W)"

definition parse_name :: "wire_enum \<Rightarrow> string \<Rightarrow> u16 option"
  where "parse_name W name =
    map_option (we_cast W)
      (parse_name_with_aliases (we_known W) (we_aliases W) name (we_prefix W))"

definition parse_name_or_err :: "wire_enum \<Rightarrow> string \<Rightarrow> (string, u16) result"
  where "parse_name_or_err W name =
    (case parse_name W name of
       Some n \<Rightarrow> Ok n
     | None \<Rightarrow> Err (''unknown '' @ we_struct W @ '' value '' @ [CHR 0x27] @ name @ [CHR 0x27]
         @ '' (use IANA name or '' @ we_prefix W @ ''N)''))"

definition record_type :: wire_enum
  where "record_type = \<lparr>we_struct = ''RecordType'', we_known = KNOWN_RECORD_TYPES,
    we_aliases = RECORD_TYPE_PARSE_ALIASES, we_prefix = ''TYPE'', we_cast = (\<lambda>n. n)\<rparr>"

definition rcode_enum :: wire_enum
  where "rcode_enum = \<lparr>we_struct = ''Rcode'', we_known = KNOWN_RCODES,
    we_aliases = RCODE_PARSE_ALIASES, we_prefix = ''RCODE'', we_cast = (\<lambda>n. n)\<rparr>"

definition query_class :: wire_enum
  where "query_class = \<lparr>we_struct = ''QueryClass'', we_known = KNOWN_QUERY_CLASSES,
    we_aliases = QUERY_CLASS_PARSE_ALIASES, we_prefix = ''CLASS'', we_cast = (\<lambda>n. n)\<rparr>"

definition dns_opcode :: wire_enum
  where "dns_opcode = \<lparr>we_struct = ''DnsOpcode'', we_known = KNOWN_DNS_OPCODES,
    we_aliases = DNS_OPCODE_PARSE_ALIASES, we_prefix = ''OPCODE'',
    we_cast = (\<lambda>n. ucast (ucast n :: u8))\<rparr>"

definition edns_option_code :: wire_enum
  where "edns_option_code = \<lparr>we_struct = ''EdnsOptionCode'', we_known = KNOWN_EDNS_OPTION_CODES,
    we_aliases = EDNS_OPTION_CODE_PARSE_ALIASES, we_prefix = ''CODE'', we_cast = (\<lambda>n. n)\<rparr>"

definition qtype_canonical_name :: "u16 \<Rightarrow> string"
  where "qtype_canonical_name number = name_for record_type number"

definition rcode_canonical_name :: "u16 \<Rightarrow> string"
  where "rcode_canonical_name number = name_for rcode_enum number"

definition qclass_canonical_name :: "u16 \<Rightarrow> string"
  where "qclass_canonical_name number = name_for query_class number"

definition parse_selector_wire_value :: "string \<Rightarrow> string \<Rightarrow> (string, u16) result"
  where "parse_selector_wire_value selector_type value =
    (if selector_type = ''qtype'' then parse_name_or_err record_type value
     else if selector_type = ''rcode'' then parse_name_or_err rcode_enum value
     else if selector_type = ''qclass'' then parse_name_or_err query_class value
     else if selector_type = ''opcode'' then parse_name_or_err dns_opcode value
     else if selector_type = ''edns_option'' then parse_name_or_err edns_option_code value
     else Err (''selector type '' @ [CHR 0x27] @ selector_type @ [CHR 0x27]
       @ '' is not a wire-enum selector''))"

section \<open>Parsing inverts naming\<close>

text \<open>What the generated tables have to satisfy: no two entries have names that
  differ in case only, no entry has a name that could be read as an unknown
  number, and no name carries surrounding white space.\<close>

definition table_ok :: "wire_enum_entry list \<Rightarrow> string \<Rightarrow> bool"
  where "table_ok entries p \<longleftrightarrow>
    distinct (map (\<lambda>e. map to_lower (entry_name e)) entries) \<and>
    list_all (\<lambda>e. \<not> prefix (map to_lower p) (map to_lower (entry_name e))) entries \<and>
    list_all (\<lambda>e. entry_name e \<noteq> [] \<and> \<not> is_ascii_space (hd (entry_name e))
      \<and> \<not> is_ascii_space (last (entry_name e))) entries"

definition prefix_ok :: "string \<Rightarrow> bool"
  where "prefix_ok p \<longleftrightarrow> p \<noteq> [] \<and> \<not> is_ascii_space (hd p) \<and> map to_upper p = p"

lemma alias_eq_iff:
  "eq_ignore_ascii_case (p @ show_nat m) (p @ show_nat n) \<longleftrightarrow> m = n"
  using show_nat_inj by (auto simp: eq_ignore_ascii_case_def map_digits_id show_nat_digits)

lemma scan_entries_unknown:
  assumes "table_ok entries p" "number \<notin> entry_number ` set entries"
  shows "scan_entries entries (p @ show_nat (unat number)) p = None"
  using assms
proof (induction entries)
  case (Cons e entries)
  have "\<not> eq_ignore_ascii_case (entry_name e) (p @ show_nat (unat number))"
    using Cons.prems(1) by (auto simp: table_ok_def eq_ignore_ascii_case_def)
  moreover have "\<not> eq_ignore_ascii_case (p @ show_nat (unat (entry_number e)))
      (p @ show_nat (unat number))"
    using Cons.prems(2) by (auto simp: alias_eq_iff word_unat_eq_iff)
  moreover have "table_ok entries p"
    using Cons.prems(1) by (simp add: table_ok_def)
  ultimately show ?case
    using Cons by simp
qed simp

lemma scan_entries_known:
  assumes "table_ok entries p" "e \<in> set entries"
  shows "scan_entries entries (entry_name e) p = Some (entry_number e)"
  using assms
proof (induction entries)
  case (Cons f entries)
  have ok: "table_ok entries p"
    using Cons.prems(1) by (simp add: table_ok_def)
  have e_in: "e \<in> set (f # entries)"
    by (rule Cons.prems(2))
  have "\<not> eq_ignore_ascii_case (p @ show_nat (unat (entry_number f))) (entry_name e)"
    using Cons.prems(1) e_in by (auto simp: table_ok_def eq_ignore_ascii_case_def list_all_iff
        prefix_def dest: sym)
  moreover have "e = f \<or> \<not> eq_ignore_ascii_case (entry_name f) (entry_name e) \<and> e \<in> set entries"
    using Cons.prems by (auto simp: table_ok_def eq_ignore_ascii_case_def image_iff)
  ultimately show ?case
    using Cons.IH ok by auto
qed simp

lemma canonical_cases:
  "(\<exists>e \<in> set entries. canonical_from_entries entries number p = entry_name e
      \<and> entry_number e = number)
   \<or> (number \<notin> entry_number ` set entries
      \<and> canonical_from_entries entries number p = p @ show_nat (unat number))"
  by (induction entries) auto

lemma parse_canonical:
  assumes "table_ok entries p" "prefix_ok p"
  shows "parse_name_from_entries entries (canonical_from_entries entries number p) p = Some number"
  using canonical_cases [of entries number p]
proof (elim disjE bexE conjE)
  fix e assume e: "e \<in> set entries" "canonical_from_entries entries number p = entry_name e"
    "entry_number e = number"
  have "trim (entry_name e) = entry_name e"
    using assms(1) e(1) by (intro trim_id) (auto simp: table_ok_def list_all_iff)
  then show ?thesis
    using e scan_entries_known [OF assms(1) e(1)] by (simp add: parse_name_from_entries_def)
next
  assume unknown: "number \<notin> entry_number ` set entries"
    and c: "canonical_from_entries entries number p = p @ show_nat (unat number)"
  have "is_digit (last (show_nat (unat number)))"
    using show_nat_digits [of "unat number"] by (simp add: list_all_iff)
  then have "trim (p @ show_nat (unat number)) = p @ show_nat (unat number)"
    using assms(2) by (intro trim_id) (auto simp: prefix_ok_def is_digit_not_space)
  moreover have "parse_u16 (show_nat (unat number)) = Some number"
    by (simp add: parse_u16_def parse_uint_show_nat unat_u16_le)
  ultimately show ?thesis
    using assms scan_entries_unknown [OF assms(1) unknown] c
    by (simp add: parse_name_from_entries_def to_ascii_uppercase_def strip_prefix_def
        prefix_ok_def map_digits_id show_nat_digits)
qed

lemmas table_eval = table_ok_def prefix_ok_def to_lower_def to_upper_def is_ascii_space_def Let_def

lemma table_ok_record_types: "table_ok KNOWN_RECORD_TYPES ''TYPE''"
  by (simp add: KNOWN_RECORD_TYPES_def table_eval)

lemma table_ok_rcodes: "table_ok KNOWN_RCODES ''RCODE''"
  by (simp add: KNOWN_RCODES_def table_eval)

lemma table_ok_query_classes: "table_ok KNOWN_QUERY_CLASSES ''CLASS''"
  by (simp add: KNOWN_QUERY_CLASSES_def table_eval)

lemma table_ok_opcodes: "table_ok KNOWN_DNS_OPCODES ''OPCODE''"
  by (simp add: KNOWN_DNS_OPCODES_def table_eval)

lemma table_ok_edns_options: "table_ok KNOWN_EDNS_OPTION_CODES ''CODE''"
  by (simp add: KNOWN_EDNS_OPTION_CODES_def table_eval)

lemma prefixes_ok:
  "prefix_ok ''TYPE''" "prefix_ok ''RCODE''" "prefix_ok ''CLASS''" "prefix_ok ''OPCODE''"
  "prefix_ok ''CODE''"
  by (simp_all add: table_eval)

lemma enum_round_trip:
  assumes "table_ok (we_known W) (we_prefix W)" "prefix_ok (we_prefix W)"
  shows "parse_name W (name_for W n) = Some (we_cast W n)"
  using parse_canonical [OF assms]
  by (simp add: parse_name_def name_for_def parse_name_with_aliases_def)

lemmas enum_defs = record_type_def rcode_enum_def query_class_def dns_opcode_def
  edns_option_code_def

lemmas tables_ok = table_ok_record_types table_ok_rcodes table_ok_query_classes table_ok_opcodes
  table_ok_edns_options prefixes_ok

lemma ucast_u8_u16 [simp]: "ucast (ucast (ucast (k :: u8) :: u16) :: u8) = (ucast k :: u16)"
  by transfer simp

text \<open>C40: every number of a wire enum is recovered from its canonical name: for
  record types, response codes, classes and EDNS option codes at all 65536
  values, for opcodes at the 256 values of the opcode type.\<close>

theorem wire_names_round_trip:
  "parse_name record_type (name_for record_type n) = Some n \<and>
   parse_name rcode_enum (name_for rcode_enum n) = Some n \<and>
   parse_name query_class (name_for query_class n) = Some n \<and>
   parse_name edns_option_code (name_for edns_option_code n) = Some n \<and>
   parse_name dns_opcode (name_for dns_opcode (ucast (k :: u8))) = Some (ucast k)"
  using enum_round_trip [of record_type n] enum_round_trip [of rcode_enum n]
    enum_round_trip [of query_class n] enum_round_trip [of edns_option_code n]
    enum_round_trip [of dns_opcode "ucast k"]
  by (simp add: tables_ok enum_defs)

text \<open>An opcode selector written as \<open>OPCODE300\<close> is accepted and matches opcode
  44: the number is parsed as 16 bits wide and then cut to the eight bits of the
  opcode type, although a DNS opcode has four bits and 300 names none.\<close>

theorem opcode_number_wraps:
  "parse_selector_wire_value ''opcode'' ''OPCODE300'' = Ok 44"
  by (simp add: parse_selector_wire_value_def parse_name_or_err_def parse_name_def dns_opcode_def
      parse_name_with_aliases_def parse_name_from_entries_def KNOWN_DNS_OPCODES_def trim_def
      trim_start_def trim_end_def is_ascii_space_def eq_ignore_ascii_case_def to_lower_def
      to_upper_def to_ascii_uppercase_def strip_prefix_def parse_u16_def parse_uint_def
      is_digit_def digits_val_def digit_val_def show_nat.simps digit_char_def Let_def)

end
