(* ===== verification/Std_Net.thy ===== *)
theory Std_Net
  imports Prelude
begin

text \<open>
  Addresses of the standard library as the code uses them: \<open>IpAddr\<close>,
  \<open>SocketAddr\<close> and their textual parsers (\<open>str::parse\<close>), which decide at
  run time which configured backends are usable.  The parser follows the
  recursive-descent grammar of the standard library: decimal octets without
  leading zeros, hexadecimal groups of at most four digits, one \<open>::\<close>, an
  embedded IPv4 tail, an optional scope and a port.
\<close>

datatype ip_addr = V4 u32 | V6 "128 word"

datatype socket_addr = SocketV4 u32 u16 | SocketV6 "128 word" u16 u32 u32

fun sock_ip :: "socket_addr \<Rightarrow> ip_addr"
  where
    "sock_ip (SocketV4 a p) = V4 a"
  | "sock_ip (SocketV6 a p f s) = V6 a"

fun sock_port :: "socket_addr \<Rightarrow> u16"
  where
    "sock_port (SocketV4 a p) = p"
  | "sock_port (SocketV6 a p f s) = p"

fun sock_is_ipv4 :: "socket_addr \<Rightarrow> bool"
  where
    "sock_is_ipv4 (SocketV4 a p) = True"
  | "sock_is_ipv4 (SocketV6 a p f s) = False"

definition hex_val :: "char \<Rightarrow> nat option"
  where "hex_val c =
    (let n = (of_char c :: nat) in
     if 48 \<le> n \<and> n \<le> 57 then Some (n - 48)
     else if 97 \<le> n \<and> n \<le> 102 then Some (n - 87)
     else if 65 \<le> n \<and> n \<le> 70 then Some (n - 55) else None)"

definition to_digit :: "nat \<Rightarrow> char \<Rightarrow> nat option"
  where "to_digit radix c =
    (case hex_val c of Some d \<Rightarrow> if d < radix then Some d else None | None \<Rightarrow> None)"

fun span_digits :: "nat \<Rightarrow> string \<Rightarrow> nat list \<times> string"
  where
    "span_digits radix [] = ([], [])"
  | "span_digits radix (c # cs) =
      (case to_digit radix c of
         Some d \<Rightarrow> (let (ds, rest) = span_digits radix cs in (d # ds, rest))
       | None \<Rightarrow> ([], c # cs))"

definition read_number ::
  "nat \<Rightarrow> nat option \<Rightarrow> bool \<Rightarrow> nat \<Rightarrow> string \<Rightarrow> (nat \<times> string) option"
  where "read_number radix max_digits allow_zero_prefix maxv s =
    (let (ds, rest) = span_digits radix s;
         v = foldl (\<lambda>acc d. radix * acc + d) 0 ds in
     if ds = [] \<or> (case max_digits of Some m \<Rightarrow> m < length ds | None \<Rightarrow> False) \<or> maxv < v
        \<or> (\<not> allow_zero_prefix \<and> hd ds = 0 \<and> 1 < length ds)
     then None else Some (v, rest))"

definition read_given_char :: "char \<Rightarrow> string \<Rightarrow> string option"
  where "read_given_char c s = (case s of d # ds \<Rightarrow> if d = c then Some ds else None | [] \<Rightarrow> None)"

definition read_separator ::
  "char \<Rightarrow> nat \<Rightarrow> (string \<Rightarrow> ('a \<times> string) option) \<Rightarrow> string \<Rightarrow> ('a \<times> string) option"
  where "read_separator sep index inner s =
    (if index = 0 then inner s
     else case read_given_char sep s of Some s' \<Rightarrow> inner s' | None \<Rightarrow> None)"

fun read_octets :: "nat \<Rightarrow> nat \<Rightarrow> u32 \<Rightarrow> string \<Rightarrow> (u32 \<times> string) option"
  where
    "read_octets 0 i acc s = Some (acc, s)"
  | "read_octets (Suc k) i acc s =
      (case read_separator (CHR ''.'') i (read_number 10 (Some 3) False 255) s of
         Some (v, rest) \<Rightarrow> read_octets k (Suc i) (256 * acc + of_nat v) rest
       | None \<Rightarrow> None)"

definition read_ipv4_addr :: "string \<Rightarrow> (u32 \<times> string) option"
  where "read_ipv4_addr s = read_octets 4 0 0 s"

text \<open>\<open>read_groups limit i\<close>: the groups read from index \<open>i\<close> on, whether an
  embedded IPv4 address ended them, and the remaining input.\<close>

fun read_groups :: "nat \<Rightarrow> nat \<Rightarrow> string \<Rightarrow> u16 list \<times> bool \<times> string"
  where
    "read_groups 0 i s = ([], False, s)"
  | "read_groups (Suc k) i s =
      (case (if 0 < k then read_separator (CHR '':'') i read_ipv4_addr s else None) of
         Some (a, rest) \<Rightarrow> ([ucast (drop_bit 16 a), ucast a], True, rest)
       | None \<Rightarrow>
          (case read_separator (CHR '':'') i (read_number 16 (Some 4) True 65535) s of
             Some (g, rest) \<Rightarrow>
               (let (gs, v4, rest') = read_groups k (Suc i) rest in (of_nat g # gs, v4, rest'))
           | None \<Rightarrow> ([], False, s)))"

definition groups_to_ipv6 :: "u16 list \<Rightarrow> 128 word"
  where "groups_to_ipv6 gs = foldl (\<lambda>acc g. 65536 * acc + ucast g) 0 gs"

definition read_ipv6_addr :: "string \<Rightarrow> (128 word \<times> string) option"
  where "read_ipv6_addr s =
    (let (head, head_ipv4, rest) = read_groups 8 0 s in
     if length head = 8 then Some (groups_to_ipv6 head, rest)
     else if head_ipv4 then None
     else case read_given_char (CHR '':'') rest of
       None \<Rightarrow> None
     | Some r1 \<Rightarrow>
        (case read_given_char (CHR '':'') r1 of
           None \<Rightarrow> None
         | Some r2 \<Rightarrow>
            (let (tail, _, r3) = read_groups (8 - (length head + 1)) 0 r2 in
             Some (groups_to_ipv6 (head @ replicate (8 - length head - length tail) 0 @ tail), r3))))"

definition read_port :: "string \<Rightarrow> (u16 \<times> string) option"
  where "read_port s =
    (case read_given_char (CHR '':'') s of
       Some r \<Rightarrow> map_option (\<lambda>(p, rest). (of_nat p, rest)) (read_number 10 None True 65535 r)
     | None \<Rightarrow> None)"

definition read_scope_id :: "string \<Rightarrow> u32 \<times> string"
  where "read_scope_id s =
    (case read_given_char (CHR ''%'') s of
       Some r \<Rightarrow> (case read_number 10 None True 4294967295 r of
          Some (v, rest) \<Rightarrow> (of_nat v, rest) | None \<Rightarrow> (0, s))
     | None \<Rightarrow> (0, s))"

definition read_socket_addr_v4 :: "string \<Rightarrow> (socket_addr \<times> string) option"
  where "read_socket_addr_v4 s =
    (case read_ipv4_addr s of
       Some (a, r) \<Rightarrow> map_option (\<lambda>(p, rest). (SocketV4 a p, rest)) (read_port r)
     | None \<Rightarrow> None)"

definition read_socket_addr_v6 :: "string \<Rightarrow> (socket_addr \<times> string) option"
  where "read_socket_addr_v6 s =
    (case read_given_char (CHR ''['') s of
       None \<Rightarrow> None
     | Some r \<Rightarrow>
        (case read_ipv6_addr r of
           None \<Rightarrow> None
         | Some (a, r1) \<Rightarrow>
            (let (scope, r2) = read_scope_id r1 in
             case read_given_char (CHR '']'') r2 of
               None \<Rightarrow> None
             | Some r3 \<Rightarrow> map_option (\<lambda>(p, rest). (SocketV6 a p 0 scope, rest)) (read_port r3))))"

definition parse_with :: "(string \<Rightarrow> ('a \<times> string) option) \<Rightarrow> string \<Rightarrow> 'a option"
  where "parse_with f s = (case f s of Some (a, []) \<Rightarrow> Some a | _ \<Rightarrow> None)"

definition parse_socket_addr :: "string \<Rightarrow> socket_addr option"
  where "parse_socket_addr s =
    parse_with (\<lambda>s. case read_socket_addr_v4 s of Some r \<Rightarrow> Some r | None \<Rightarrow> read_socket_addr_v6 s) s"

definition parse_ip_addr :: "string \<Rightarrow> ip_addr option"
  where "parse_ip_addr s =
    parse_with (\<lambda>s. case read_ipv4_addr s of
        Some (a, r) \<Rightarrow> Some (V4 a, r)
      | None \<Rightarrow> map_option (\<lambda>(a, r). (V6 a, r)) (read_ipv6_addr s)) s"

definition parse_ipv4_addr :: "string \<Rightarrow> u32 option"
  where "parse_ipv4_addr s = (if 15 < length s then None else parse_with read_ipv4_addr s)"

definition parse_ipv6_addr :: "string \<Rightarrow> (128 word) option"
  where "parse_ipv6_addr s = parse_with read_ipv6_addr s"

section \<open>Display\<close>

definition show_ipv4 :: "u32 \<Rightarrow> string"
  where "show_ipv4 a =
    show_nat (unat (drop_bit 24 a)) @ ''.'' @ show_nat (unat (drop_bit 16 a) mod 256) @ ''.''
    @ show_nat (unat (drop_bit 8 a) mod 256) @ ''.'' @ show_nat (unat a mod 256)"

fun show_hex :: "nat \<Rightarrow> string"
  where "show_hex n =
    (if n < 16 then [''0123456789abcdef'' ! n]
     else show_hex (n div 16) @ [''0123456789abcdef'' ! (n mod 16)])"

declare show_hex.simps [simp del]

definition ipv6_segments :: "128 word \<Rightarrow> nat list"
  where "ipv6_segments a = map (\<lambda>i. unat (drop_bit (112 - 16 * i) a) mod 65536) [0..<8]"

fun zero_run :: "nat list \<Rightarrow> nat"
  where
    "zero_run (0 # xs) = Suc (zero_run xs)"
  | "zero_run _ = 0"

text \<open>The first of the longest runs of zero segments, as (start, length).\<close>

definition longest_zero_run :: "nat list \<Rightarrow> nat \<times> nat"
  where "longest_zero_run segs =
    foldl (\<lambda>(st, ln) i. let r = zero_run (drop i segs) in if ln < r then (i, r) else (st, ln))
      (0, 0) [0..<length segs]"

fun show_segments :: "nat list \<Rightarrow> string"
  where
    "show_segments [] = []"
  | "show_segments [x] = show_hex x"
  | "show_segments (x # y # zs) = show_hex x @ '':'' @ show_segments (y # zs)"

definition show_ipv6 :: "128 word \<Rightarrow> string"
  where "show_ipv6 a =
    (let segs = ipv6_segments a in
     if take 6 segs = [0, 0, 0, 0, 0, 65535] then ''::ffff:'' @ show_ipv4 (ucast a)
     else let (st, ln) = longest_zero_run segs in
       if 1 < ln then show_segments (take st segs) @ ''::'' @ show_segments (drop (st + ln) segs)
       else show_segments segs)"

fun show_socket_addr :: "socket_addr \<Rightarrow> string"
  where
    "show_socket_addr (SocketV4 a p) = show_ipv4 a @ '':'' @ show_nat (unat p)"
  | "show_socket_addr (SocketV6 a p f s) =
      ''['' @ show_ipv6 a @ (if s = 0 then [] else ''%'' @ show_nat (unat s)) @ '']:''
      @ show_nat (unat p)"

lemma read_ipv4_addr_eval:
  "read_ipv4_addr s = read_octets (Suc (Suc (Suc (Suc 0)))) 0 0 s"
  by (simp add: read_ipv4_addr_def numeral_eq_Suc)

lemmas net_eval =
  parse_socket_addr_def parse_with_def read_socket_addr_v4_def read_ipv4_addr_eval read_port_def
  read_number_def read_separator_def read_given_char_def to_digit_def hex_val_def

end
