(* ===== verification/Transaction.thy ===== *)
theory Transaction
  imports Dns_Wire Std_Net
begin

text \<open>
  The per-query state of \<open>crates/conduit-core\<close>: the phases of the pipeline
  (\<open>phase.rs\<close>, \<open>pipeline.rs\<close>), the reasons of a rejected parse, the outcomes
  of a lookup, the tag set, and the transaction with the operations of
  \<open>transaction.rs\<close>.

  \<open>Instant\<close> and \<open>SystemTime\<close> values are natural numbers; every operation that
  reads the clock takes the reading as an argument.  The metrics pin is the
  generation number of the registries it holds on to.
\<close>

section \<open>Phases, outcomes and reasons\<close>

datatype phase = Receive | Parse | RequestRules | Lookup | ResponseRules | Send
  | Route | Forward | WaitResponse

datatype stage_outcome = Continue phase | Drop | Suspend phase

datatype parse_reject_reason = RejEmpty | RejWireError | RejNotQuery | RejNoQuestion
  | RejMultiQuestion

datatype lookup_outcome = Answered | Miss | Pending | Bypass | LookupFail

datatype answer_source = FromCache | FromForward

datatype client_protocol = Udp | Tcp

datatype lookup_forward_step = StepWait

section \<open>Tags\<close>

record tag_set =
  tag_flags :: "string \<rightharpoonup> bool"
  tag_strings :: "string \<rightharpoonup> string"

definition tag_set_default :: tag_set
  where "tag_set_default = \<lparr>tag_flags = Map.empty, tag_strings = Map.empty\<rparr>"

definition tag_set_bool :: "string \<Rightarrow> bool \<Rightarrow> tag_set \<Rightarrow> tag_set"
  where "tag_set_bool key value ts = ts\<lparr>tag_flags := (tag_flags ts)(key \<mapsto> value)\<rparr>"

definition tag_set_string :: "string \<Rightarrow> string \<Rightarrow> tag_set \<Rightarrow> tag_set"
  where "tag_set_string key value ts = ts\<lparr>tag_strings := (tag_strings ts)(key \<mapsto> value)\<rparr>"

definition tag_clear :: "string \<Rightarrow> tag_set \<Rightarrow> tag_set"
  where "tag_clear key ts =
    ts\<lparr>tag_flags := (tag_flags ts)(key := None), tag_strings := (tag_strings ts)(key := None)\<rparr>"

definition tag_has :: "string \<Rightarrow> tag_set \<Rightarrow> bool"
  where "tag_has key ts \<longleftrightarrow>
    (case tag_flags ts key of Some b \<Rightarrow> b | None \<Rightarrow> False) \<or> tag_strings ts key \<noteq> None"

section \<open>The transaction\<close>

record attempt_record =
  att_pool :: string
  att_backend :: socket_addr
  att_attempt :: u32

record response_wire_meta =
  meta_answer_count :: u16
  meta_authority_count :: u16
  meta_additional_count :: u16
  meta_truncated :: bool
  meta_authoritative :: bool

record trace_event =
  ev_phase :: string
  ev_elapsed_us :: u64
  ev_message :: "string option"
  ev_pool :: "string option"
  ev_backend :: "string option"
  ev_cache :: "string option"

record lookup_cache_ref =
  ref_cache_name :: string
  ref_key :: bytes

record transaction =
  txn_id :: u64
  global_query_index :: u64
  txn_tags :: tag_set
  current_phase :: phase
  query_wire :: bytes
  response_wire :: "bytes option"
  response_meta :: "response_wire_meta option"
  dns_id :: u16
  qname :: "string option"
  qtype :: "u16 option"
  qclass :: "u16 option"
  opcode :: "u8 option"
  edns_option_codes :: "u16 list"
  client_addr :: socket_addr
  parse_reject :: "parse_reject_reason option"
  listener_label :: "string option"
  protocol :: client_protocol
  client_udp_payload_size :: "u16 option"
  udp_response_truncated_on_send :: bool
  selected_pool :: "string option"
  selected_backend :: "socket_addr option"
  selected_backend_label :: "string option"
  attempts :: "attempt_record list"
  attempt_count :: u32
  retry_pool :: "string option"
  started_at :: instant
  received_at :: instant
  last_forward_ms :: u64
  forward_started_at :: "instant option"
  snapshot_generation :: u64
  metrics_pin :: "nat option"
  dropped :: bool
  soft_drop :: bool
  source_override_v4 :: "u32 option"
  source_override_v6 :: "128 word option"
  retry_source_override_v4 :: "u32 option"
  retry_source_override_v6 :: "128 word option"
  trace_log :: "trace_event list option"
  txn_pre_parsed :: bool
  suspend_phase_started_at :: "instant option"
  forward_metrics_recorded :: bool
  lookup_profile :: "string option"
  lookup_outcome_of :: "lookup_outcome option"
  answer_source_of :: "answer_source option"
  cache_instance :: "string option"
  cache_lookup_eligible :: bool
  lookup_forward_step_of :: "lookup_forward_step option"
  lookup_cache_wait :: "lookup_cache_ref option"
  lookup_cache_fill :: "lookup_cache_ref option"
  txn_rcode :: "u16 option"

definition transaction_new ::
  "instant \<Rightarrow> instant \<Rightarrow> u64 \<Rightarrow> socket_addr \<Rightarrow> client_protocol \<Rightarrow> transaction"
  where "transaction_new now wall i addr proto = \<lparr>
    txn_id = i, global_query_index = 0, txn_tags = tag_set_default, current_phase = Receive,
    query_wire = [], response_wire = None, response_meta = None, dns_id = 0,
    qname = None, qtype = None, qclass = None, opcode = None, edns_option_codes = [],
    client_addr = addr, parse_reject = None, listener_label = None, protocol = proto,
    client_udp_payload_size = None, udp_response_truncated_on_send = False,
    selected_pool = None, selected_backend = None, selected_backend_label = None,
    attempts = [], attempt_count = 0, retry_pool = None, started_at = now, received_at = wall,
    last_forward_ms = 0, forward_started_at = None, snapshot_generation = 0, metrics_pin = None,
    dropped = False, soft_drop = False, source_override_v4 = None, source_override_v6 = None,
    retry_source_override_v4 = None, retry_source_override_v6 = None, trace_log = None,
    txn_pre_parsed = False, suspend_phase_started_at = None, forward_metrics_recorded = False,
    lookup_profile = None, lookup_outcome_of = None, answer_source_of = None,
    cache_instance = None, cache_lookup_eligible = True, lookup_forward_step_of = None,
    lookup_cache_wait = None, lookup_cache_fill = None, txn_rcode = None\<rparr>"

definition trace_record_phase ::
  "instant \<Rightarrow> string \<Rightarrow> string option \<Rightarrow> string option \<Rightarrow> string option \<Rightarrow> string option
    \<Rightarrow> transaction \<Rightarrow> transaction"
  where "trace_record_phase now ph message pool backend cache t =
    (case trace_log t of
       None \<Rightarrow> t
     | Some events \<Rightarrow> t\<lparr>trace_log := Some (events @
         [\<lparr>ev_phase = ph, ev_elapsed_us = of_nat (elapsed now (started_at t) div 1000),
           ev_message = message, ev_pool = pool, ev_backend = backend, ev_cache = cache\<rparr>])\<rparr>)"

definition forward_elapsed_ms :: "instant \<Rightarrow> instant \<Rightarrow> u64"
  where "forward_elapsed_ms now started =
    (let ms = as_millis (elapsed now started) in if ms < 2 ^ 64 then of_nat ms else - 1)"

definition mark_forward_started :: "instant \<Rightarrow> transaction \<Rightarrow> transaction"
  where "mark_forward_started at t = t\<lparr>forward_started_at := Some at\<rparr>"

definition complete_forward_rtt :: "instant \<Rightarrow> instant \<Rightarrow> transaction \<Rightarrow> transaction"
  where "complete_forward_rtt now started t =
    t\<lparr>last_forward_ms := forward_elapsed_ms now started, forward_started_at := None\<rparr>"

definition complete_forward_rtt_from_mark :: "instant \<Rightarrow> transaction \<Rightarrow> transaction"
  where "complete_forward_rtt_from_mark now t =
    (case forward_started_at t of
       Some started \<Rightarrow> t\<lparr>forward_started_at := None, last_forward_ms := forward_elapsed_ms now started\<rparr>
     | None \<Rightarrow> t)"

definition take_effective_source_override_v4 :: "transaction \<Rightarrow> u32 option \<times> transaction"
  where "take_effective_source_override_v4 t =
    (if 1 < attempt_count t
     then case retry_source_override_v4 t of
       Some a \<Rightarrow> (Some a, t\<lparr>retry_source_override_v4 := None\<rparr>)
     | None \<Rightarrow> (source_override_v4 t, t)
     else (source_override_v4 t, t))"

definition take_effective_source_override_v6 :: "transaction \<Rightarrow> 128 word option \<times> transaction"
  where "take_effective_source_override_v6 t =
    (if 1 < attempt_count t
     then case retry_source_override_v6 t of
       Some a \<Rightarrow> (Some a, t\<lparr>retry_source_override_v6 := None\<rparr>)
     | None \<Rightarrow> (source_override_v6 t, t)
     else (source_override_v6 t, t))"

definition set_rcode_name :: "string \<Rightarrow> transaction \<Rightarrow> transaction"
  where "set_rcode_name name t =
    t\<lparr>txn_rcode := Some (case parse_name rcode_enum name of Some n \<Rightarrow> n | None \<Rightarrow> 2)\<rparr>"

definition set_rcode :: "u16 \<Rightarrow> transaction \<Rightarrow> transaction"
  where "set_rcode code t = t\<lparr>txn_rcode := Some code\<rparr>"

definition record_attempt :: "string \<Rightarrow> socket_addr \<Rightarrow> string \<Rightarrow> transaction \<Rightarrow> transaction"
  where "record_attempt pool backend label t =
    (let n = attempt_count t + 1 in
     t\<lparr>attempt_count := n,
       attempts := attempts t @ [\<lparr>att_pool = pool, att_backend = backend, att_attempt = n\<rparr>],
       selected_pool := Some pool, selected_backend := Some backend,
       selected_backend_label := Some label\<rparr>)"

definition take_retry_pool :: "transaction \<Rightarrow> string option \<times> transaction"
  where "take_retry_pool t = (retry_pool t, t\<lparr>retry_pool := None\<rparr>)"

definition set_soft_drop :: "transaction \<Rightarrow> transaction"
  where "set_soft_drop t = t\<lparr>soft_drop := True\<rparr>"

definition clear_soft_drop :: "transaction \<Rightarrow> transaction"
  where "clear_soft_drop t = t\<lparr>soft_drop := False, dropped := False\<rparr>"

definition clear_retry_pool :: "transaction \<Rightarrow> transaction"
  where "clear_retry_pool t = t\<lparr>retry_pool := None\<rparr>"

definition clear_pool :: "transaction \<Rightarrow> transaction"
  where "clear_pool t = t\<lparr>selected_pool := None\<rparr>"

definition set_source_override_v4 :: "u32 \<Rightarrow> transaction \<Rightarrow> transaction"
  where "set_source_override_v4 a t = t\<lparr>source_override_v4 := Some a\<rparr>"

definition set_source_override_v6 :: "128 word \<Rightarrow> transaction \<Rightarrow> transaction"
  where "set_source_override_v6 a t = t\<lparr>source_override_v6 := Some a\<rparr>"

definition set_retry_source_override_v4 :: "u32 \<Rightarrow> transaction \<Rightarrow> transaction"
  where "set_retry_source_override_v4 a t = t\<lparr>retry_source_override_v4 := Some a\<rparr>"

definition set_retry_source_override_v6 :: "128 word \<Rightarrow> transaction \<Rightarrow> transaction"
  where "set_retry_source_override_v6 a t = t\<lparr>retry_source_override_v6 := Some a\<rparr>"

definition clear_retry_source_override_v4 :: "transaction \<Rightarrow> transaction"
  where "clear_retry_source_override_v4 t = t\<lparr>retry_source_override_v4 := None\<rparr>"

definition clear_retry_source_override_v6 :: "transaction \<Rightarrow> transaction"
  where "clear_retry_source_override_v6 t = t\<lparr>retry_source_override_v6 := None\<rparr>"

lemmas txn_ops [txn_defs] =
  mark_forward_started_def complete_forward_rtt_def complete_forward_rtt_from_mark_def
  set_rcode_name_def set_rcode_def record_attempt_def take_retry_pool_def set_soft_drop_def
  clear_soft_drop_def clear_retry_pool_def clear_pool_def set_source_override_v4_def
  set_source_override_v6_def set_retry_source_override_v4_def set_retry_source_override_v6_def
  clear_retry_source_override_v4_def clear_retry_source_override_v6_def Let_def

section \<open>Tags and source overrides\<close>

lemma tag_has_simps [simp]:
  "tag_has k (tag_set_string k v ts)"
  "\<not> tag_has k (tag_clear k ts)"
  "k' \<noteq> k \<Longrightarrow> tag_has k' (tag_clear k ts) = tag_has k' ts"
  "tag_has k (tag_set_bool k b ts) = (b \<or> tag_strings ts k \<noteq> None)"
  by (auto simp: tag_has_def tag_set_string_def tag_clear_def tag_set_bool_def)

lemma take_source_v4_fields [simp]:
  "attempt_count (snd (take_effective_source_override_v4 t)) = attempt_count t"
  "source_override_v4 (snd (take_effective_source_override_v4 t)) = source_override_v4 t"
  by (auto simp: take_effective_source_override_v4_def split: option.splits)

lemma take_source_v4_twice:
  "fst (take_effective_source_override_v4 (snd (take_effective_source_override_v4 t)))
     = source_override_v4 t"
  by (auto simp: take_effective_source_override_v4_def split: option.splits)

end
