(* ===== verification/Txn_Store.thy ===== *)
theory Txn_Store
  imports Transaction
begin

text \<open>
  The preallocated transaction slots of \<open>crates/conduit-core/src/txn_store\<close>:
  the fixed-capacity wire buffer, the slot with its life-cycle state, and the
  single-threaded pool \<open>TxnStore\<close> that grows in chunks up to its capacity.

  A Rust \<open>Vec\<close> used as a stack is a list whose top is its last element.  A
  panic (\<open>assert!\<close>, \<open>expect\<close>) is the value \<open>None\<close>.  All clock readings of
  one pool operation are the same pair of instants.
\<close>

section \<open>Wire buffers\<close>

definition DNS_WIRE_BUFFER_SIZE :: nat
  where "DNS_WIRE_BUFFER_SIZE = 4096"

datatype wire_buffer_error = TooLarge (tl_len: nat) (tl_max: nat)

record wire_buffer =
  wb_buf :: bytes
  wb_len :: nat

definition wire_buffer_default :: wire_buffer
  where "wire_buffer_default = \<lparr>wb_buf = replicate DNS_WIRE_BUFFER_SIZE 0, wb_len = 0\<rparr>"

definition wire_clear :: "wire_buffer \<Rightarrow> wire_buffer"
  where "wire_clear b = b\<lparr>wb_len := 0\<rparr>"

definition wire_as_slice :: "wire_buffer \<Rightarrow> bytes"
  where "wire_as_slice b = take (wb_len b) (wb_buf b)"

definition wire_set_from_slice ::
  "bytes \<Rightarrow> wire_buffer \<Rightarrow> (wire_buffer_error, unit) result \<times> wire_buffer"
  where "wire_set_from_slice data b =
    (if DNS_WIRE_BUFFER_SIZE < length data
     then (Err (TooLarge (length data) DNS_WIRE_BUFFER_SIZE), b)
     else (Ok (), \<lparr>wb_buf = data @ drop (length data) (wb_buf b), wb_len = length data\<rparr>))"

section \<open>Slots\<close>

type_synonym slot_id = u32

datatype slot_state = Free | Ingress | Policy | IoWait | SidecarWait | ReplyPending
  | IngressSend | Terminal

record txn_slot =
  sl_state :: slot_state
  sl_txn :: transaction
  sl_query :: wire_buffer
  sl_response :: wire_buffer
  sl_response_overflow :: "bytes option"
  sl_pre_parsed :: bool

definition placeholder_addr :: socket_addr
  where "placeholder_addr = SocketV4 0 0"

definition slot_new_free :: "instant \<Rightarrow> instant \<Rightarrow> txn_slot"
  where "slot_new_free now wall =
    \<lparr>sl_state = Free, sl_txn = transaction_new now wall 0 placeholder_addr Udp,
     sl_query = wire_buffer_default, sl_response = wire_buffer_default,
     sl_response_overflow = None, sl_pre_parsed = False\<rparr>"

definition slot_clear :: "instant \<Rightarrow> instant \<Rightarrow> txn_slot \<Rightarrow> txn_slot"
  where "slot_clear now wall s =
    s\<lparr>sl_state := Free, sl_txn := transaction_new now wall 0 placeholder_addr Udp,
      sl_query := wire_clear (sl_query s), sl_response := wire_clear (sl_response s),
      sl_response_overflow := None, sl_pre_parsed := False\<rparr>"

datatype acquire_error = Exhausted

datatype slot_error = InvalidId slot_id | StateMismatch slot_state slot_state
  | NotTerminal slot_state

section \<open>The single-threaded pool\<close>

record txn_store =
  ts_slots :: "txn_slot list"
  ts_free :: "slot_id list"
  ts_capacity :: u32
  ts_chunk_size :: u32
  ts_exhaustion_total :: u64

definition txn_store_new :: "u32 \<Rightarrow> u32 \<Rightarrow> txn_store option"
  where "txn_store_new capacity chunk_size =
    (if 1 \<le> capacity \<and> 1 \<le> chunk_size
     then Some \<lparr>ts_slots = [], ts_free = [], ts_capacity = capacity, ts_chunk_size = chunk_size,
                ts_exhaustion_total = 0\<rparr>
     else None)"

definition store_allocated :: "txn_store \<Rightarrow> u32"
  where "store_allocated s = of_nat (length (ts_slots s))"

definition store_in_use :: "txn_store \<Rightarrow> u32"
  where "store_in_use s = sat_sub (store_allocated s) (of_nat (length (ts_free s)))"

definition active_slots_matching :: "(txn_slot \<Rightarrow> bool) \<Rightarrow> txn_store \<Rightarrow> u32"
  where "active_slots_matching pr s =
    of_nat (length (filter (\<lambda>sl. sl_state sl \<noteq> Free \<and> pr sl) (ts_slots s)))"

definition chunk_ids :: "u32 \<Rightarrow> u32 \<Rightarrow> slot_id list"
  where "chunk_ids base grow_by = map (\<lambda>i. base + of_nat i) [0..<unat grow_by]"

definition grow_chunk :: "instant \<Rightarrow> instant \<Rightarrow> txn_store \<Rightarrow> bool \<times> txn_store"
  where "grow_chunk now wall s =
    (let allocated = of_nat (length (ts_slots s)) in
     if ts_capacity s \<le> allocated then (False, s)
     else let grow_by = min (ts_chunk_size s) (ts_capacity s - allocated) in
       (True, s\<lparr>ts_slots := ts_slots s @ replicate (unat grow_by) (slot_new_free now wall),
                ts_free := ts_free s @ chunk_ids allocated grow_by\<rparr>))"

definition slot_at :: "txn_store \<Rightarrow> slot_id \<Rightarrow> txn_slot option"
  where "slot_at s i = (if unat i < length (ts_slots s) then Some (ts_slots s ! unat i) else None)"

definition put_slot :: "slot_id \<Rightarrow> txn_slot \<Rightarrow> txn_store \<Rightarrow> txn_store"
  where "put_slot i sl s = s\<lparr>ts_slots := (ts_slots s)[unat i := sl]\<rparr>"

definition mark_ingress :: "slot_id \<Rightarrow> txn_slot \<Rightarrow> txn_slot"
  where "mark_ingress i sl = sl\<lparr>sl_state := Ingress, sl_txn := (sl_txn sl)\<lparr>txn_id := ucast i\<rparr>\<rparr>"

definition store_acquire ::
  "instant \<Rightarrow> instant \<Rightarrow> txn_store \<Rightarrow> ((acquire_error, slot_id) result \<times> txn_store) option"
  where "store_acquire now wall s =
    (let (grown, s1) = (if ts_free s = [] then grow_chunk now wall s else (True, s)) in
     if \<not> grown
     then Some (Err Exhausted, s1\<lparr>ts_exhaustion_total := ts_exhaustion_total s1 + 1\<rparr>)
     else if ts_free s1 = [] then None
     else let i = last (ts_free s1); s2 = s1\<lparr>ts_free := butlast (ts_free s1)\<rparr> in
       case slot_at s2 i of
         None \<Rightarrow> None
       | Some sl \<Rightarrow> Some (Ok i, put_slot i (mark_ingress i sl) s2))"

definition store_with_slot ::
  "slot_id \<Rightarrow> slot_state \<Rightarrow> (txn_slot \<Rightarrow> (slot_error, 'r) result \<times> txn_slot) \<Rightarrow> txn_store
    \<Rightarrow> (slot_error, 'r) result \<times> txn_store"
  where "store_with_slot i expected f s =
    (case slot_at s i of
       None \<Rightarrow> (Err (InvalidId i), s)
     | Some sl \<Rightarrow>
        if sl_state sl \<noteq> expected then (Err (StateMismatch expected (sl_state sl)), s)
        else let (r, sl') = f sl in (r, put_slot i sl' s))"

definition store_transition ::
  "slot_id \<Rightarrow> slot_state \<Rightarrow> slot_state \<Rightarrow> txn_store \<Rightarrow> (slot_error, unit) result \<times> txn_store"
  where "store_transition i from to s =
    store_with_slot i from (\<lambda>sl. (Ok (), sl\<lparr>sl_state := to\<rparr>)) s"

definition store_release ::
  "instant \<Rightarrow> instant \<Rightarrow> slot_id \<Rightarrow> txn_store \<Rightarrow> (slot_error, unit) result \<times> txn_store"
  where "store_release now wall i s =
    (case store_with_slot i Terminal (\<lambda>sl. (Ok (), slot_clear now wall sl)) s of
       (Err e, s') \<Rightarrow> (Err e, s')
     | (Ok _, s') \<Rightarrow> (Ok (), s'\<lparr>ts_free := ts_free s' @ [i]\<rparr>))"

definition store_release_active ::
  "instant \<Rightarrow> instant \<Rightarrow> slot_id \<Rightarrow> txn_store \<Rightarrow> (slot_error, unit) result \<times> txn_store"
  where "store_release_active now wall i s =
    (case slot_at s i of
       None \<Rightarrow> (Err (InvalidId i), s)
     | Some sl \<Rightarrow>
        if sl_state sl = Free then (Ok (), s)
        else let s' = put_slot i (slot_clear now wall sl) s in
          (Ok (), s'\<lparr>ts_free := ts_free s' @ [i]\<rparr>))"

section \<open>The pool invariant\<close>

text \<open>A slot that holds nothing of an earlier transaction.\<close>

definition slot_clean :: "txn_slot \<Rightarrow> bool"
  where "slot_clean sl \<longleftrightarrow>
    (\<exists>now wall. sl_txn sl = transaction_new now wall 0 placeholder_addr Udp) \<and>
    wire_as_slice (sl_query sl) = [] \<and> wire_as_slice (sl_response sl) = [] \<and>
    sl_response_overflow sl = None \<and> \<not> sl_pre_parsed sl"

text \<open>The invariant, relative to the slots \<open>X\<close> that some thread has taken off
  the free list and not marked yet, or cleared and not put back yet.  In the
  single-threaded pool there are none between two operations.\<close>

definition pool_inv :: "slot_id set \<Rightarrow> txn_store \<Rightarrow> bool"
  where "pool_inv X s \<longleftrightarrow>
    1 \<le> ts_capacity s \<and> 1 \<le> ts_chunk_size s \<and>
    length (ts_slots s) \<le> unat (ts_capacity s) \<and>
    distinct (ts_free s) \<and> set (ts_free s) \<inter> X = {} \<and>
    (\<forall>i. i \<in> set (ts_free s) \<union> X \<longleftrightarrow>
        unat i < length (ts_slots s) \<and> sl_state (ts_slots s ! unat i) = Free) \<and>
    (\<forall>k < length (ts_slots s). sl_state (ts_slots s ! k) = Free \<longrightarrow> slot_clean (ts_slots s ! k))"

definition store_inv :: "txn_store \<Rightarrow> bool"
  where "store_inv s \<longleftrightarrow> pool_inv {} s"

text \<open>The slots an owner holds, and how many there are.\<close>

definition held :: "txn_store \<Rightarrow> slot_id set"
  where "held s = {i. unat i < length (ts_slots s) \<and> sl_state (ts_slots s ! unat i) \<noteq> Free}"

datatype store_op = OpAcquire instant instant | OpRelease instant instant slot_id
  | OpReleaseActive instant instant slot_id | OpTransition slot_id slot_state slot_state
  | OpWithSlot slot_id slot_state "txn_slot \<Rightarrow> (slot_error, unit) result \<times> txn_slot"

fun store_exec :: "store_op \<Rightarrow> txn_store \<Rightarrow> txn_store option"
  where
    "store_exec (OpAcquire now wall) s = map_option snd (store_acquire now wall s)"
  | "store_exec (OpRelease now wall i) s = Some (snd (store_release now wall i s))"
  | "store_exec (OpReleaseActive now wall i) s = Some (snd (store_release_active now wall i s))"
  | "store_exec (OpTransition i from to) s = Some (snd (store_transition i from to s))"
  | "store_exec (OpWithSlot i expected f) s = Some (snd (store_with_slot i expected f s))"

fun store_run :: "store_op list \<Rightarrow> txn_store \<Rightarrow> txn_store option"
  where
    "store_run [] s = Some s"
  | "store_run (op # ops) s =
      (case store_exec op s of None \<Rightarrow> None | Some s' \<Rightarrow> store_run ops s')"

text \<open>The closures and transitions a caller may run: only the pool itself moves a slot into or
  out of \<open>Free\<close>, and a closure leaves a free slot as it is.  The methods do not enforce this; the
  callers keep to it.\<close>

definition closure_ok :: "(txn_slot \<Rightarrow> txn_slot) \<Rightarrow> bool"
  where "closure_ok f \<longleftrightarrow> (\<forall>sl. sl_state (f sl) = Free \<longleftrightarrow> sl_state sl = Free) \<and>
    (\<forall>sl. sl_state sl = Free \<longrightarrow> f sl = sl)"

fun store_op_ok :: "store_op \<Rightarrow> bool"
  where
    "store_op_ok (OpTransition i from to) \<longleftrightarrow> from \<noteq> Free \<and> to \<noteq> Free"
  | "store_op_ok (OpWithSlot i expected f) \<longleftrightarrow> closure_ok (\<lambda>sl. snd (f sl))"
  | "store_op_ok _ \<longleftrightarrow> True"

section \<open>Lemmas\<close>

lemma wire_set_as_slice:
  "length data \<le> DNS_WIRE_BUFFER_SIZE \<Longrightarrow>
   fst (wire_set_from_slice data b) = Ok () \<and>
   wire_as_slice (snd (wire_set_from_slice data b)) = data"
  by (simp add: wire_set_from_slice_def wire_as_slice_def)

lemma wire_set_capacity:
  "length (wb_buf b) = DNS_WIRE_BUFFER_SIZE \<Longrightarrow>
   length (wb_buf (snd (wire_set_from_slice data b))) = DNS_WIRE_BUFFER_SIZE"
  by (simp add: wire_set_from_slice_def)

lemma slot_clean_new [simp]: "slot_clean (slot_new_free now wall)"
  by (auto simp: slot_clean_def slot_new_free_def wire_buffer_default_def wire_as_slice_def)

lemma slot_clean_clear [simp]: "slot_clean (slot_clear now wall sl)"
  by (auto simp: slot_clean_def slot_clear_def wire_clear_def wire_as_slice_def)

lemma slot_state_simps [simp]:
  "sl_state (slot_new_free now wall) = Free"
  "sl_state (slot_clear now wall sl) = Free"
  "sl_state (mark_ingress i sl) = Ingress"
  by (simp_all add: slot_new_free_def slot_clear_def mark_ingress_def)

lemma chunk_ids_mem:
  assumes "unat base + unat n < 2 ^ 32"
  shows "i \<in> set (chunk_ids base n) \<longleftrightarrow> unat base \<le> unat i \<and> unat i < unat base + unat n"
proof
  assume "i \<in> set (chunk_ids base n)"
  then obtain k where k: "k < unat n" "i = base + of_nat k"
    by (auto simp: chunk_ids_def)
  then have "unat i = unat base + k"
    using assms by (simp add: unat_word_ariths take_bit_nat_eq_self unat_of_nat)
  then show "unat base \<le> unat i \<and> unat i < unat base + unat n"
    using k by simp
next
  assume a: "unat base \<le> unat i \<and> unat i < unat base + unat n"
  then have "i = base + of_nat (unat i - unat base)"
    by (simp add: of_nat_diff)
  moreover have "unat i - unat base \<in> set [0..<unat n]"
    using a by auto
  ultimately show "i \<in> set (chunk_ids base n)"
    by (auto simp: chunk_ids_def)
qed

lemma chunk_ids_distinct:
  assumes "unat base + unat n < 2 ^ 32"
  shows "distinct (chunk_ids base n)"
proof -
  have "inj_on (\<lambda>i. base + of_nat i) {0..<unat n}"
  proof (rule inj_onI)
    fix x y assume "x \<in> {0..<unat n}" "y \<in> {0..<unat n}"
      and "base + (of_nat x :: u32) = base + of_nat y"
    then show "x = y"
      using unat_bound [of n] by (auto simp: of_nat_inverse dest!: arg_cong [of _ _ unat])
  qed
  then show ?thesis
    by (simp add: chunk_ids_def distinct_map)
qed

lemma pool_invD:
  assumes "pool_inv X s"
  shows "length (ts_slots s) \<le> unat (ts_capacity s)"
    and "unat (of_nat (length (ts_slots s)) :: u32) = length (ts_slots s)"
    and "distinct (ts_free s)" and "set (ts_free s) \<inter> X = {}"
    and "i \<in> set (ts_free s) \<union> X \<longleftrightarrow>
      unat i < length (ts_slots s) \<and> sl_state (ts_slots s ! unat i) = Free"
proof -
  show le: "length (ts_slots s) \<le> unat (ts_capacity s)"
    using assms by (simp add: pool_inv_def)
  then show "unat (of_nat (length (ts_slots s)) :: u32) = length (ts_slots s)"
    using unat_u32_less [of "ts_capacity s"] by (simp add: unat_of_nat take_bit_nat_eq_self)
qed (use assms in \<open>simp_all add: pool_inv_def\<close>)

lemma grow_chunk_fst:
  assumes "pool_inv X s"
  shows "fst (grow_chunk now wall s) \<longleftrightarrow> length (ts_slots s) < unat (ts_capacity s)"
    "\<not> fst (grow_chunk now wall s) \<Longrightarrow> snd (grow_chunk now wall s) = s"
  using pool_invD(2) [OF assms]
  by (auto simp: grow_chunk_def Let_def word_le_nat_alt split: if_splits)

lemma grow_by_unat:
  assumes "pool_inv X s" "length (ts_slots s) < unat (ts_capacity s)"
  shows "unat (min (ts_chunk_size s) (ts_capacity s - of_nat (length (ts_slots s)))) =
    min (unat (ts_chunk_size s)) (unat (ts_capacity s) - length (ts_slots s))"
  using assms pool_invD(2) [OF assms(1)]
  by (simp add: min_def word_le_nat_alt unat_sub_if')

lemma grow_chunk_inv:
  assumes inv: "pool_inv X s" and lt: "length (ts_slots s) < unat (ts_capacity s)"
    and s': "s' = snd (grow_chunk now wall s)"
  shows "pool_inv X s'" "ts_free s' \<noteq> []" "held s' = held s"
    "ts_capacity s' = ts_capacity s" "length (ts_slots s) \<le> length (ts_slots s')"
proof -
  let ?n = "length (ts_slots s)" and ?b = "of_nat (length (ts_slots s)) :: u32"
  let ?g = "min (ts_chunk_size s) (ts_capacity s - ?b)"
  have g: "unat ?g = min (unat (ts_chunk_size s)) (unat (ts_capacity s) - ?n)"
    by (rule grow_by_unat [OF inv lt])
  have chunk: "1 \<le> unat (ts_chunk_size s)"
    using inv by (simp add: pool_inv_def word_le_nat_alt)
  have b: "unat ?b = ?n"
    by (rule pool_invD(2) [OF inv])
  have small: "unat ?b + unat ?g < 2 ^ 32"
    using b g lt unat_u32_less [of "ts_capacity s"] by simp
  have s'_eq: "s' = s\<lparr>ts_slots := ts_slots s @ replicate (unat ?g) (slot_new_free now wall),
      ts_free := ts_free s @ chunk_ids ?b ?g\<rparr>"
    using lt b by (simp add: s' grow_chunk_def Let_def word_le_nat_alt)
  have old: "unat i < ?n" if "i \<in> set (ts_free s) \<union> X" for i
    using that pool_invD(5) [OF inv, of i] by simp
  have mem: "i \<in> set (ts_free s') \<union> X \<longleftrightarrow> unat i < length (ts_slots s')
      \<and> sl_state (ts_slots s' ! unat i) = Free" for i
    using pool_invD(5) [OF inv, of i] chunk_ids_mem [OF small, of i] b
    by (auto simp: s'_eq nth_append)
  have disj: "distinct (ts_free s')" "set (ts_free s') \<inter> X = {}"
    using pool_invD(3,4) [OF inv] chunk_ids_distinct [OF small] chunk_ids_mem [OF small] b old
    by (fastforce simp: s'_eq)+
  have clean: "\<forall>k < length (ts_slots s'). sl_state (ts_slots s' ! k) = Free
      \<longrightarrow> slot_clean (ts_slots s' ! k)"
    using inv by (auto simp: s'_eq nth_append pool_inv_def)
  have len: "length (ts_slots s') \<le> unat (ts_capacity s')"
    using lt by (simp add: s'_eq g)
  show "pool_inv X s'"
    using inv mem disj clean len by (simp add: pool_inv_def s'_eq)
  show "ts_free s' \<noteq> []"
    using chunk g lt by (auto simp: s'_eq chunk_ids_def)
  show "held s' = held s"
  proof (rule set_eqI)
    fix i show "i \<in> held s' \<longleftrightarrow> i \<in> held s"
      by (cases "unat i < ?n") (auto simp: held_def s'_eq nth_append)
  qed
  show "ts_capacity s' = ts_capacity s" "length (ts_slots s) \<le> length (ts_slots s')"
    by (simp_all add: s'_eq)
qed

text \<open>The four elementary moves of a slot: off the free list, into use, out of
  use, back on the free list; and a change that leaves it in use.\<close>

lemma take_inv:
  assumes inv: "pool_inv X s" and ne: "ts_free s \<noteq> []" and i: "i = last (ts_free s)"
  shows "pool_inv (insert i X) (s\<lparr>ts_free := butlast (ts_free s)\<rparr>)" "i \<notin> X"
    "slot_at s i = Some (ts_slots s ! unat i)"
proof -
  have rest: "k \<in> set (butlast (ts_free s)) \<longleftrightarrow> k \<in> set (ts_free s) \<and> k \<noteq> i" for k
    using set_butlast_last [OF ne] distinct_butlast_last [OF pool_invD(3) [OF inv] ne]
    by (auto simp: i)
  have mem: "k \<in> set (butlast (ts_free s)) \<union> insert i X \<longleftrightarrow> unat k < length (ts_slots s)
      \<and> sl_state (ts_slots s ! unat k) = Free" for k
    using rest [of k] pool_invD(5) [OF inv, of k] ne i by (auto simp: last_in_set)
  show "i \<notin> X"
    using pool_invD(4) [OF inv] last_in_set [OF ne] i by auto
  show "slot_at s i = Some (ts_slots s ! unat i)"
    using pool_invD(5) [OF inv, of i] ne i by (auto simp: slot_at_def)
  show "pool_inv (insert i X) (s\<lparr>ts_free := butlast (ts_free s)\<rparr>)"
    using inv mem rest by (auto simp: pool_inv_def distinct_butlast)
qed

lemma mark_inv:
  assumes inv: "pool_inv X s" and i: "i \<in> X"
    and s': "s' = put_slot i (mark_ingress i (ts_slots s ! unat i)) s"
  shows "pool_inv (X - {i}) s'" "i \<notin> held s" "held s' = insert i (held s)"
    "slot_clean (ts_slots s ! unat i)" "slot_at s' i = Some (mark_ingress i (ts_slots s ! unat i))"
proof -
  have b: "unat i < length (ts_slots s)" and free: "sl_state (ts_slots s ! unat i) = Free"
    using pool_invD(5) [OF inv, of i] i by auto
  have mem: "k \<in> set (ts_free s) \<union> (X - {i}) \<longleftrightarrow> unat k < length (ts_slots s)
      \<and> sl_state ((ts_slots s)[unat i := mark_ingress i (ts_slots s ! unat i)] ! unat k) = Free" for k
    using pool_invD(4) [OF inv] pool_invD(5) [OF inv, of k] i b
    by (auto simp: nth_update_word split: if_splits)
  show "pool_inv (X - {i}) s'"
    using inv mem b by (auto simp: pool_inv_def s' put_slot_def nth_list_update)
  show "slot_clean (ts_slots s ! unat i)"
    using inv b free by (auto simp: pool_inv_def)
  show "i \<notin> held s" "held s' = insert i (held s)"
    using b free by (auto simp: held_def s' put_slot_def nth_update_word split: if_splits)
  show "slot_at s' i = Some (mark_ingress i (ts_slots s ! unat i))"
    using b by (simp add: slot_at_def s' put_slot_def)
qed

lemma clear_inv:
  assumes inv: "pool_inv X s" and at: "slot_at s i = Some sl" "sl_state sl \<noteq> Free"
  shows "pool_inv (insert i X) (put_slot i (slot_clear now wall sl) s)" "i \<notin> X"
    "i \<notin> set (ts_free s)" "held (put_slot i (slot_clear now wall sl) s) = held s - {i}"
proof -
  have b: "unat i < length (ts_slots s)" "sl = ts_slots s ! unat i"
    using at(1) by (auto simp: slot_at_def split: if_splits)
  have mem: "k \<in> set (ts_free s) \<union> insert i X \<longleftrightarrow> unat k < length (ts_slots s)
      \<and> sl_state ((ts_slots s)[unat i := slot_clear now wall sl] ! unat k) = Free" for k
    using pool_invD(5) [OF inv, of k] b by (auto simp: nth_update_word split: if_splits)
  show new: "i \<notin> X" "i \<notin> set (ts_free s)"
    using pool_invD(5) [OF inv, of i] at(2) b by auto
  show "pool_inv (insert i X) (put_slot i (slot_clear now wall sl) s)"
    using inv mem new b by (auto simp: pool_inv_def put_slot_def nth_list_update)
  show "held (put_slot i (slot_clear now wall sl) s) = held s - {i}"
    using b by (auto simp: held_def put_slot_def nth_update_word split: if_splits)
qed

lemma push_inv:
  assumes "pool_inv X s" "i \<in> X"
  shows "pool_inv (X - {i}) (s\<lparr>ts_free := ts_free s @ [i]\<rparr>)"
proof -
  have "i \<notin> set (ts_free s)"
    using pool_invD(4) [OF assms(1)] assms(2) by auto
  moreover have "k \<in> set (ts_free s @ [i]) \<union> (X - {i}) \<longleftrightarrow> k \<in> set (ts_free s) \<union> X" for k
    using assms(2) by auto
  ultimately show ?thesis
    using assms(1) by (auto simp: pool_inv_def)
qed

lemma put_slot_inv_same:
  assumes "pool_inv X s" "slot_at s i = Some sl" "sl_state sl \<noteq> Free" "sl_state sl' \<noteq> Free"
  shows "pool_inv X (put_slot i sl' s)" "held (put_slot i sl' s) = held s"
proof -
  have b: "unat i < length (ts_slots s)" "sl = ts_slots s ! unat i"
    using assms(2) by (auto simp: slot_at_def split: if_splits)
  have mem: "k \<in> set (ts_free s) \<union> X \<longleftrightarrow> unat k < length (ts_slots s)
      \<and> sl_state ((ts_slots s)[unat i := sl'] ! unat k) = Free" for k
    using assms(3,4) pool_invD(5) [OF assms(1), of k] b
    by (auto simp: nth_update_word split: if_splits)
  show "pool_inv X (put_slot i sl' s)"
    using assms mem b by (auto simp: pool_inv_def put_slot_def nth_list_update)
  show "held (put_slot i sl' s) = held s"
    using assms(3,4) b by (auto simp: held_def put_slot_def nth_update_word split: if_splits)
qed

lemma pool_inv_counter [simp]: "pool_inv X (s\<lparr>ts_exhaustion_total := n\<rparr>) = pool_inv X s"
  by (simp add: pool_inv_def)

lemma ts_capacity_simps [simp]: "ts_capacity (put_slot i sl s) = ts_capacity s"
  by (simp add: put_slot_def)

text \<open>Taking the top of a non-empty free list and marking it.\<close>

definition pop_free :: "txn_store \<Rightarrow> slot_id \<times> txn_store"
  where "pop_free s =
    (let i = last (ts_free s); s2 = s\<lparr>ts_free := butlast (ts_free s)\<rparr> in
     (i, put_slot i (mark_ingress i (ts_slots s ! unat i)) s2))"

lemma pop_free_inv:
  assumes inv: "store_inv s" and ne: "ts_free s \<noteq> []" and p: "pop_free s = (i, s')"
  shows "store_inv s'" "i \<notin> held s" "held s' = insert i (held s)"
    "slot_clean (ts_slots s ! unat i)" "slot_at s' i = Some (mark_ingress i (ts_slots s ! unat i))"
    "ts_capacity s' = ts_capacity s"
proof -
  let ?s2 = "s\<lparr>ts_free := butlast (ts_free s)\<rparr>"
  have i: "i = last (ts_free s)" and s': "s' = put_slot i (mark_ingress i (ts_slots ?s2 ! unat i)) ?s2"
    using p by (auto simp: pop_free_def Let_def)
  have t: "pool_inv {i} ?s2"
    using take_inv(1) [OF inv [unfolded store_inv_def] ne i] by simp
  note m = mark_inv [OF t insertI1 s']
  have "held ?s2 = held s"
    by (simp add: held_def)
  then show "store_inv s'" "i \<notin> held s" "held s' = insert i (held s)"
    "slot_clean (ts_slots s ! unat i)" "slot_at s' i = Some (mark_ingress i (ts_slots s ! unat i))"
    "ts_capacity s' = ts_capacity s"
    using m by (simp_all add: store_inv_def s')
qed

text \<open>The three outcomes of the free-list section of an acquire.\<close>

lemma free_list_section_cases:
  assumes inv: "pool_inv X s"
  obtains (available) s1 where
      "(if ts_free s = [] then grow_chunk now wall s else (True, s)) = (True, s1)"
      "pool_inv X s1" "ts_free s1 \<noteq> []" "held s1 = held s" "ts_capacity s1 = ts_capacity s"
      "length (ts_slots s) \<le> length (ts_slots s1)"
  | (full) "(if ts_free s = [] then grow_chunk now wall s else (True, s)) = (False, s)"
      "ts_free s = []" "length (ts_slots s) = unat (ts_capacity s)"
proof (cases "ts_free s = []")
  case False
  then show thesis
    using inv by (intro available [of s]) auto
next
  case True
  show thesis
  proof (cases "length (ts_slots s) < unat (ts_capacity s)")
    case lt: True
    have "grow_chunk now wall s = (True, snd (grow_chunk now wall s))"
      using grow_chunk_fst(1) [OF inv] lt by (metis prod.collapse)
    then show thesis
      using True grow_chunk_inv [OF inv lt refl, of now wall]
      by (intro available [of "snd (grow_chunk now wall s)"]) auto
  next
    case False
    then show thesis
      using True grow_chunk_fst [OF inv, of now wall] pool_invD(1) [OF inv]
      by (intro full) (auto simp: prod_eq_iff)
  qed
qed

lemma store_acquire_cases:
  assumes inv: "store_inv s"
  obtains (acquired) i s' where "store_acquire now wall s = Some (Ok i, s')"
      "store_inv s'" "i \<notin> held s" "held s' = insert i (held s)"
      "\<exists>sl. slot_clean sl \<and> slot_at s' i = Some (mark_ingress i sl)"
      "ts_capacity s' = ts_capacity s"
  | (exhausted) "store_acquire now wall s =
      Some (Err Exhausted, s\<lparr>ts_exhaustion_total := ts_exhaustion_total s + 1\<rparr>)"
      "ts_free s = []" "length (ts_slots s) = unat (ts_capacity s)"
  using inv [unfolded store_inv_def]
proof (cases rule: free_list_section_cases [where now = now and wall = wall])
  case (available s1)
  have inv1: "store_inv s1"
    using available(2) by (simp add: store_inv_def)
  obtain i s' where p: "pop_free s1 = (i, s')"
    by fastforce
  have "slot_at (s1\<lparr>ts_free := butlast (ts_free s1)\<rparr>) (last (ts_free s1))
      = Some (ts_slots s1 ! unat (last (ts_free s1)))"
    using take_inv(3) [OF available(2,3) refl] by (simp add: slot_at_def split: if_splits)
  then have "store_acquire now wall s = Some (Ok i, s')"
    using available(1,3) p by (auto simp: store_acquire_def pop_free_def Let_def)
  then show thesis
    using available pop_free_inv [OF inv1 available(3) p]
    by (intro acquired [of i s']) auto
next
  case full
  then show thesis
    by (intro exhausted) (simp_all add: store_acquire_def)
qed

lemma clear_and_push_inv:
  assumes "store_inv s" "slot_at s i = Some sl" "sl_state sl \<noteq> Free"
    and s': "s' = (put_slot i (slot_clear now wall sl) s)\<lparr>ts_free := ts_free s @ [i]\<rparr>"
  shows "store_inv s'" "held s' = held s - {i}"
proof -
  note c = clear_inv [OF assms(1) [unfolded store_inv_def] assms(2,3)]
  show "store_inv s'"
    using push_inv [OF c(1), of i] by (simp add: store_inv_def s' put_slot_def)
  show "held s' = held s - {i}"
    using c(4) by (simp add: s' held_def)
qed

lemma store_release_inv:
  assumes "store_inv s"
  shows "store_inv (snd (store_release now wall i s))"
    "held (snd (store_release now wall i s)) = held s - {i} \<or>
     held (snd (store_release now wall i s)) = held s"
  using clear_and_push_inv [OF assms, of i _ _ now wall] assms
  by (auto simp: store_release_def store_with_slot_def put_slot_def Let_def
      split: option.splits)

lemma store_release_active_inv:
  assumes "store_inv s"
  shows "store_inv (snd (store_release_active now wall i s))"
    "held (snd (store_release_active now wall i s)) = held s - {i}"
  using clear_and_push_inv [OF assms, of i _ _ now wall] assms
  by (auto simp: store_release_active_def put_slot_def Let_def held_def slot_at_def
      split: option.splits if_splits)

lemma store_transition_inv:
  assumes "store_inv s" "from \<noteq> Free" "to \<noteq> Free"
  shows "store_inv (snd (store_transition i from to s))"
    "held (snd (store_transition i from to s)) = held s"
  using put_slot_inv_same [OF assms(1) [unfolded store_inv_def], of i] assms
  by (auto simp: store_transition_def store_with_slot_def store_inv_def Let_def
      split: option.splits)

lemma store_with_slot_inv:
  assumes inv: "store_inv s" and f: "closure_ok (\<lambda>sl. snd (f sl))"
  shows "store_inv (snd (store_with_slot i expected f s))"
    "held (snd (store_with_slot i expected f s)) = held s"
    "ts_capacity (snd (store_with_slot i expected f s)) = ts_capacity s"
proof -
  consider (same) "snd (store_with_slot i expected f s) = s"
    | (used) sl where "slot_at s i = Some sl" "sl_state sl \<noteq> Free" "sl_state (snd (f sl)) \<noteq> Free"
        "snd (store_with_slot i expected f s) = put_slot i (snd (f sl)) s"
  proof (cases "slot_at s i")
    case None
    then show thesis
      using same by (simp add: store_with_slot_def)
  next
    case (Some sl)
    have "put_slot i sl s = s"
      using Some by (auto simp: put_slot_def slot_at_def split: if_splits)
    then show thesis
      using Some f same used [OF Some]
      by (cases "sl_state sl = expected"; cases "sl_state sl = Free")
         (auto simp: store_with_slot_def closure_ok_def case_prod_unfold Let_def)
  qed
  then show "store_inv (snd (store_with_slot i expected f s))"
    "held (snd (store_with_slot i expected f s)) = held s"
    "ts_capacity (snd (store_with_slot i expected f s)) = ts_capacity s"
    using inv put_slot_inv_same [OF inv [unfolded store_inv_def], of i]
    by (cases; simp add: store_inv_def)+
qed

lemma store_exec_inv:
  assumes "store_inv s" "store_op_ok op"
  obtains s' where "store_exec op s = Some s'" "store_inv s'" "ts_capacity s' = ts_capacity s"
proof (cases op)
  case (OpAcquire now wall)
  show thesis
    using assms(1)
  proof (cases rule: store_acquire_cases [where now = now and wall = wall])
    case (acquired i s')
    then show thesis
      using OpAcquire by (intro that [of s']) auto
  next
    case exhausted
    then show thesis
      using OpAcquire assms(1)
      by (intro that [of "s\<lparr>ts_exhaustion_total := ts_exhaustion_total s + 1\<rparr>"])
         (auto simp: store_inv_def)
  qed
next
  case (OpRelease now wall i)
  then show thesis
    using store_release_inv(1) [OF assms(1), of now wall i]
    by (intro that [of "snd (store_release now wall i s)"])
       (auto simp: store_release_def store_with_slot_def put_slot_def Let_def split: option.splits)
next
  case (OpReleaseActive now wall i)
  then show thesis
    using store_release_active_inv(1) [OF assms(1), of now wall i]
    by (intro that [of "snd (store_release_active now wall i s)"])
       (auto simp: store_release_active_def put_slot_def Let_def split: option.splits)
next
  case (OpTransition i fr to)
  then show thesis
    using store_transition_inv(1) [OF assms(1), of fr to i] assms(2)
    by (intro that [of "snd (store_transition i fr to s)"])
       (auto simp: store_transition_def store_with_slot_def put_slot_def Let_def split: option.splits)
next
  case (OpWithSlot i expected f)
  then show thesis
    using store_with_slot_inv [OF assms(1), of f i expected] assms(2)
    by (intro that [of "snd (store_with_slot i expected f s)"]) auto
qed

lemma store_run_inv:
  assumes "store_inv s" "list_all store_op_ok ops"
  obtains s' where "store_run ops s = Some s'" "store_inv s'" "ts_capacity s' = ts_capacity s"
  using assms
proof (induction ops arbitrary: s thesis)
  case (Cons op ops)
  obtain s1 where s1: "store_exec op s = Some s1" "store_inv s1" "ts_capacity s1 = ts_capacity s"
    using Cons.prems by (auto elim: store_exec_inv [of s op])
  show ?case
    using s1 Cons.prems by (auto intro: Cons.IH [of s1])
qed simp

lemma store_new_inv: "txn_store_new c k = Some s \<Longrightarrow> store_inv s"
  by (auto simp: txn_store_new_def store_inv_def pool_inv_def split: if_splits)

lemma held_free_partition:
  assumes "store_inv s"
  shows "held s \<inter> set (ts_free s) = {}"
    "held s \<union> set (ts_free s) = {i. unat i < length (ts_slots s)}"
  using pool_invD(5) [OF assms [unfolded store_inv_def]] by (auto simp: held_def)

lemma card_ids_below: "n < 2 ^ 32 \<Longrightarrow> card {i :: u32. unat i < n} = n"
proof -
  assume n: "n < 2 ^ 32"
  have "{i :: u32. unat i < n} = of_nat ` {0..<n}"
  proof
    show "{i :: u32. unat i < n} \<subseteq> of_nat ` {0..<n}"
    proof
      fix i :: u32 assume "i \<in> {i. unat i < n}"
      then show "i \<in> of_nat ` {0..<n}"
        by (intro image_eqI [of _ _ "unat i"]) auto
    qed
    show "of_nat ` {0..<n} \<subseteq> {i :: u32. unat i < n}"
      using n by (auto simp: unat_of_nat take_bit_nat_eq_self)
  qed
  moreover have "inj_on (of_nat :: nat \<Rightarrow> u32) {0..<n}"
    using n by (auto intro!: inj_onI simp: of_nat_inverse dest!: arg_cong [of _ _ unat])
  ultimately show ?thesis
    by (simp add: card_image)
qed

lemma held_card:
  assumes "store_inv s"
  shows "card (held s) + length (ts_free s) = length (ts_slots s)"
    "card (held s) \<le> unat (ts_capacity s)"
proof -
  have "length (ts_slots s) < 2 ^ 32"
    using pool_invD(1) [OF assms [unfolded store_inv_def]] unat_u32_less [of "ts_capacity s"] by simp
  then have "card (held s \<union> set (ts_free s)) = length (ts_slots s)"
    by (simp add: held_free_partition(2) [OF assms] card_ids_below)
  then show *: "card (held s) + length (ts_free s) = length (ts_slots s)"
    using held_free_partition(1) [OF assms] distinct_card [OF pool_invD(3) [OF assms [unfolded store_inv_def]]]
    by (simp add: card_Un_disjoint)
  then show "card (held s) \<le> unat (ts_capacity s)"
    using pool_invD(1) [OF assms [unfolded store_inv_def]] by simp
qed

lemma store_in_use_card:
  assumes "store_inv s"
  shows "unat (store_in_use s) = card (held s)"
proof -
  have "length (ts_free s) < 2 ^ 32"
    using held_card(1) [OF assms] pool_invD(1) [OF assms [unfolded store_inv_def]] unat_u32_less [of "ts_capacity s"]
    by simp
  then show ?thesis
    using held_card(1) [OF assms] pool_invD(2) [OF assms [unfolded store_inv_def]]
    by (simp add: store_in_use_def store_allocated_def sat_sub_unat unat_of_nat take_bit_nat_eq_self)
qed

section \<open>The contract of a slot pool\<close>

text \<open>What the runtimes rely on: acquiring hands out a slot nobody holds or
  reports that all of the capacity is held, releasing gives one slot back.\<close>

fun acquire_many :: "('s \<Rightarrow> 'i option \<times> 's) \<Rightarrow> nat \<Rightarrow> 's \<Rightarrow> 'i list \<times> 's"
  where
    "acquire_many acq 0 s = ([], s)"
  | "acquire_many acq (Suc n) s =
      (case acq s of
         (Some i, s') \<Rightarrow> (let (is, s'') = acquire_many acq n s' in (i # is, s''))
       | (None, s') \<Rightarrow> acquire_many acq n s')"

locale slot_pool =
  fixes acq :: "'s \<Rightarrow> 'i option \<times> 's"
    and rel :: "'i \<Rightarrow> 's \<Rightarrow> 's"
    and owned :: "'s \<Rightarrow> 'i set"
    and cap :: "'s \<Rightarrow> nat"
    and inv :: "'s \<Rightarrow> bool"
  assumes acq_Some: "inv s \<Longrightarrow> acq s = (Some i, s') \<Longrightarrow>
      inv s' \<and> i \<notin> owned s \<and> owned s' = insert i (owned s) \<and> cap s' = cap s"
    and acq_None: "inv s \<Longrightarrow> acq s = (None, s') \<Longrightarrow>
      inv s' \<and> owned s' = owned s \<and> cap s' = cap s \<and> card (owned s) = cap s"
    and rel_law: "inv s \<Longrightarrow> inv (rel i s) \<and> owned (rel i s) = owned s - {i} \<and> cap (rel i s) = cap s"
    and bounded: "inv s \<Longrightarrow> finite (owned s) \<and> card (owned s) \<le> cap s"
begin

lemma acq_iff:
  assumes "inv s"
  shows "fst (acq s) \<noteq> None \<longleftrightarrow> card (owned s) < cap s"
proof (cases "acq s")
  case (Pair r s')
  show ?thesis
  proof (cases r)
    case None
    then show ?thesis
      using acq_None [OF assms] Pair by simp
  next
    case (Some i)
    then have "inv s'" "i \<notin> owned s" "owned s' = insert i (owned s)" "cap s' = cap s"
      using acq_Some [OF assms] Pair by auto
    then show ?thesis
      using bounded [OF assms] bounded [of s'] Pair Some by auto
  qed
qed

lemma acquire_after_release:
  assumes "inv s" "i \<in> owned s"
  shows "fst (acq (rel i s)) \<noteq> None"
proof -
  have "card (owned s - {i}) < card (owned s)"
    using bounded [OF assms(1)] assms(2) by (intro card_Diff1_less) auto
  then show ?thesis
    using rel_law [OF assms(1), of i] bounded [OF assms(1)] acq_iff [of "rel i s"] by simp
qed

lemma acquire_many_law:
  assumes "inv s" "acquire_many acq n s = (ids, s')"
  shows "inv s' \<and> cap s' = cap s \<and> distinct ids \<and> set ids \<inter> owned s = {} \<and>
    owned s' = set ids \<union> owned s \<and> length ids = min n (cap s - card (owned s))"
  using assms
proof (induction n arbitrary: s ids)
  case (Suc n)
  obtain r s1 where r: "acq s = (r, s1)"
    by fastforce
  show ?case
  proof (cases r)
    case None
    note full = acq_None [OF Suc.prems(1) r [unfolded None]]
    have "acquire_many acq n s1 = (ids, s')"
      using Suc.prems(2) r None by simp
    then show ?thesis
      using Suc.IH [of s1 ids] full by auto
  next
    case (Some i)
    note got = acq_Some [OF Suc.prems(1) r [unfolded Some]]
    obtain ids' where ids': "acquire_many acq n s1 = (ids', s')" "ids = i # ids'"
      using Suc.prems(2) r Some by (auto simp: Let_def split: prod.splits)
    have fin: "finite (owned s)" "card (owned s) < cap s"
      using bounded [OF Suc.prems(1)] acq_iff [OF Suc.prems(1)] r Some by auto
    show ?thesis
      using Suc.IH [OF _ ids'(1)] got ids'(2) fin by auto
  qed
qed simp

end

text \<open>The result of an acquire as the contract sees it.\<close>

definition store_acq :: "instant \<Rightarrow> instant \<Rightarrow> txn_store \<Rightarrow> slot_id option \<times> txn_store"
  where "store_acq now wall s =
    (case store_acquire now wall s of
       Some (Ok i, s') \<Rightarrow> (Some i, s')
     | Some (Err _, s') \<Rightarrow> (None, s')
     | None \<Rightarrow> (None, s))"

definition store_rel :: "instant \<Rightarrow> instant \<Rightarrow> slot_id \<Rightarrow> txn_store \<Rightarrow> txn_store"
  where "store_rel now wall i s = snd (store_release_active now wall i s)"

lemma store_release_active_capacity [simp]:
  "ts_capacity (snd (store_release_active now wall i s)) = ts_capacity s"
  by (auto simp: store_release_active_def put_slot_def Let_def split: option.splits)

lemma store_acq_Some:
  assumes "store_inv s" "store_acq now wall s = (Some i, s')"
  shows "store_inv s' \<and> i \<notin> held s \<and> held s' = insert i (held s) \<and> ts_capacity s' = ts_capacity s"
  using assms(1)
proof (cases rule: store_acquire_cases [where now = now and wall = wall])
  case (acquired j t)
  then show ?thesis
    using assms(2) by (simp add: store_acq_def)
next
  case exhausted
  then show ?thesis
    using assms(2) by (simp add: store_acq_def)
qed

lemma store_acq_None:
  assumes "store_inv s" "store_acq now wall s = (None, s')"
  shows "store_inv s' \<and> held s' = held s \<and> ts_capacity s' = ts_capacity s \<and>
    card (held s) = unat (ts_capacity s)"
  using assms(1)
proof (cases rule: store_acquire_cases [where now = now and wall = wall])
  case (acquired j t)
  then show ?thesis
    using assms(2) by (simp add: store_acq_def)
next
  case exhausted
  then have s': "s' = s\<lparr>ts_exhaustion_total := ts_exhaustion_total s + 1\<rparr>"
    using assms(2) by (simp add: store_acq_def)
  show ?thesis
    using exhausted assms(1) held_card(1) [OF assms(1)]
    by (simp add: s' store_inv_def held_def)
qed

interpretation store_pool: slot_pool
  "store_acq now wall" "store_rel now wall" held "\<lambda>s. unat (ts_capacity s)" store_inv
  for now wall
proof
  show "store_inv s \<Longrightarrow> store_acq now wall s = (Some i, s') \<Longrightarrow> store_inv s' \<and> i \<notin> held s \<and>
      held s' = insert i (held s) \<and> unat (ts_capacity s') = unat (ts_capacity s)" for s i s'
    using store_acq_Some by metis
  show "store_inv s \<Longrightarrow> store_acq now wall s = (None, s') \<Longrightarrow> store_inv s' \<and> held s' = held s \<and>
      unat (ts_capacity s') = unat (ts_capacity s) \<and> card (held s) = unat (ts_capacity s)" for s s'
    using store_acq_None by metis
  show "store_inv s \<Longrightarrow> store_inv (store_rel now wall i s) \<and> held (store_rel now wall i s) = held s - {i}
      \<and> unat (ts_capacity (store_rel now wall i s)) = unat (ts_capacity s)" for s i
    by (simp add: store_rel_def store_release_active_inv)
  show "store_inv s \<Longrightarrow> finite (held s) \<and> card (held s) \<le> unat (ts_capacity s)" for s
    by (simp add: held_card(2))
qed

section \<open>Properties of the pool\<close>

text \<open>C39: whatever sequence of acquires, releases, life-cycle transitions other than from or to
  \<open>Free\<close>, and closures that neither free a slot nor touch a free one runs on a new pool, no
  \<open>expect\<close> of the pool fails and its invariant holds: the free list has no duplicates, lists exactly
  the slots in state \<open>Free\<close>, every free slot is clean, and at most the configured capacity is
  allocated.\<close>

theorem txn_store_never_panics:
  assumes "txn_store_new capacity chunk = Some s0" and "list_all store_op_ok ops"
  shows "\<exists>s. store_run ops s0 = Some s \<and> store_inv s \<and> ts_capacity s = capacity"
proof -
  have "store_inv s0" "ts_capacity s0 = capacity"
    using assms(1) store_new_inv by (auto simp: txn_store_new_def split: if_splits)
  then show ?thesis
    using assms(2) by (auto elim: store_run_inv)
qed

theorem txn_store_never_panics_witness:
  "\<exists>s. store_run [OpAcquire 0 0, OpWithSlot 1 Ingress (\<lambda>sl. (Ok (), if sl_state sl = Free then sl else sl\<lparr>sl_pre_parsed := True\<rparr>)),
        OpTransition 1 Ingress Terminal, OpRelease 5 5 1, OpAcquire 9 9]
      \<lparr>ts_slots = [], ts_free = [], ts_capacity = 3, ts_chunk_size = 2, ts_exhaustion_total = 0\<rparr>
    = Some s \<and> store_inv s \<and> ts_capacity s = 3"
  by (rule txn_store_never_panics [of 3 2]) (simp_all add: txn_store_new_def closure_ok_def)

text \<open>\<open>acquire\<close> succeeds exactly while fewer slots are held than the
  capacity (which is what \<open>in_use\<close> reports); the slot it hands out was held by
  nobody, and holds nothing of an earlier transaction: it is a clean slot in
  state \<open>Ingress\<close> with the slot number as transaction id.  At capacity it
  reports exhaustion and changes only the exhaustion counter.\<close>

theorem txn_store_acquire_spec:
  assumes "store_inv s"
  shows "unat (store_in_use s) = card (held s) \<and>
    (if unat (store_in_use s) < unat (ts_capacity s)
     then \<exists>i s' sl. store_acquire now wall s = Some (Ok i, s') \<and> store_inv s' \<and>
            i \<notin> held s \<and> held s' = insert i (held s) \<and>
            slot_clean sl \<and> slot_at s' i = Some (mark_ingress i sl)
     else store_acquire now wall s =
            Some (Err Exhausted, s\<lparr>ts_exhaustion_total := ts_exhaustion_total s + 1\<rparr>))"
  using assms
proof (cases rule: store_acquire_cases [where now = now and wall = wall])
  case (acquired i s')
  have "card (held s) < unat (ts_capacity s)"
    using acquired held_card(2) [of s'] by simp
  then show ?thesis
    using acquired store_in_use_card [OF assms] by auto
next
  case exhausted
  then show ?thesis
    using held_card(1) [OF assms] store_in_use_card [OF assms] by simp
qed

theorem txn_store_acquire_spec_witness:
  "\<exists>i s' sl. store_acquire 7 7
      \<lparr>ts_slots = [], ts_free = [], ts_capacity = 3, ts_chunk_size = 2, ts_exhaustion_total = 0\<rparr>
    = Some (Ok i, s') \<and> slot_clean sl \<and> slot_at s' i = Some (mark_ingress i sl)"
  using txn_store_acquire_spec [of "\<lparr>ts_slots = [], ts_free = [], ts_capacity = 3,
      ts_chunk_size = 2, ts_exhaustion_total = 0\<rparr>" 7 7]
  by (auto simp: store_inv_def pool_inv_def store_in_use_def store_allocated_def sat_sub_def)

text \<open>\<open>n\<close> acquires in a row hand out as many pairwise distinct slots as are
  left, at most \<open>n\<close>, none of which was held before; and releasing a held slot
  always makes room for a further acquire.\<close>

theorem txn_store_acquire_many:
  assumes "store_inv s"
  shows "length (fst (acquire_many (store_acq now wall) n s))
      = min n (unat (ts_capacity s) - card (held s)) \<and>
    distinct (fst (acquire_many (store_acq now wall) n s)) \<and>
    set (fst (acquire_many (store_acq now wall) n s)) \<inter> held s = {} \<and>
    (\<forall>i \<in> held s. fst (store_acq now wall (store_rel now wall i s)) \<noteq> None)"
  using store_pool.acquire_many_law [OF assms, of now wall n]
    store_pool.acquire_after_release [OF assms, of _ now wall]
  by (cases "acquire_many (store_acq now wall) n s") auto

theorem txn_store_acquire_many_witness:
  "length (fst (acquire_many (store_acq 0 0) 5
      \<lparr>ts_slots = [], ts_free = [], ts_capacity = 3, ts_chunk_size = 2, ts_exhaustion_total = 0\<rparr>)) = 3"
  using txn_store_acquire_many [of "\<lparr>ts_slots = [], ts_free = [], ts_capacity = 3,
      ts_chunk_size = 2, ts_exhaustion_total = 0\<rparr>" 0 0 5]
  by (simp add: store_inv_def pool_inv_def held_def)

end
