(* ===== verification/Shared_Store.thy ===== *)
theory Shared_Store
  imports Txn_Store
begin

text \<open>
  \<open>SharedTxnStore\<close> of \<open>crates/conduit-core/src/txn_store/mod.rs\<close>: the same pool
  shared by the threads of the process.  Its operations are not atomic: the
  free list is under one lock, every slot under a lock of its own, and the two
  are never held together, so an acquire is two critical sections (take an id
  off the free list; mark the slot) and a release is three (look the slot up;
  clear it; put the id back).  The threads interleave between the sections.

  \<open>shared_step\<close> is one critical section of one thread, labelled with what the
  thread does; the program counter of a thread says which section is next.
  \<open>DoWith\<close> is a closure run by \<open>with_slot_exclusive\<close> or \<open>with_slot\<close>, and with it
  \<open>transition\<close>.  The closures are those that \<open>closure_ok\<close> admits: they neither free
  a slot nor touch a free one.  The methods take any closure; that its callers keep
  to this is an assumption of the step relation.
\<close>

section \<open>State and critical sections\<close>

datatype slot_op = DoRelease | DoReleaseActive | DoWith "txn_slot \<Rightarrow> txn_slot"

datatype pc = Idle | Popped slot_id | HasArc slot_id slot_op | MustReturn slot_id

record shared_state =
  sh_store :: txn_store
  sh_pc :: "nat \<Rightarrow> pc"

definition shared_new :: "u32 \<Rightarrow> u32 \<Rightarrow> shared_state option"
  where "shared_new capacity chunk_size =
    map_option (\<lambda>s. \<lparr>sh_store = s, sh_pc = (\<lambda>_. Idle)\<rparr>) (txn_store_new capacity chunk_size)"

text \<open>The first critical section of \<open>acquire\<close>, under the free-list lock.  \<open>None\<close> is
  a failing \<open>expect\<close>.\<close>

definition take_free_id ::
  "instant \<Rightarrow> instant \<Rightarrow> txn_store \<Rightarrow> ((acquire_error, slot_id) result \<times> txn_store) option"
  where "take_free_id now wall s =
    (let (grown, s1) = (if ts_free s = [] then grow_chunk now wall s else (True, s)) in
     if \<not> grown
     then Some (Err Exhausted, s1\<lparr>ts_exhaustion_total := ts_exhaustion_total s1 + 1\<rparr>)
     else if ts_free s1 = [] then None
     else let i = last (ts_free s1) in
       case slot_at s1 i of
         None \<Rightarrow> None
       | Some _ \<Rightarrow> Some (Ok i, s1\<lparr>ts_free := butlast (ts_free s1)\<rparr>))"

text \<open>The second one, under the lock of the slot.\<close>

definition mark_acquired :: "slot_id \<Rightarrow> txn_store \<Rightarrow> txn_store"
  where "mark_acquired i s =
    (case slot_at s i of Some sl \<Rightarrow> put_slot i (mark_ingress i sl) s | None \<Rightarrow> s)"

definition return_to_free :: "slot_id \<Rightarrow> txn_store \<Rightarrow> txn_store"
  where "return_to_free i s = s\<lparr>ts_free := ts_free s @ [i]\<rparr>"

text \<open>What a closure does to its slot, and whether the id goes back afterwards.\<close>

fun run_slot_op :: "instant \<Rightarrow> instant \<Rightarrow> slot_op \<Rightarrow> txn_slot \<Rightarrow> bool \<times> txn_slot"
  where
    "run_slot_op now wall DoRelease sl =
      (if sl_state sl \<noteq> Terminal then (False, sl) else (True, slot_clear now wall sl))"
  | "run_slot_op now wall DoReleaseActive sl =
      (if sl_state sl = Free then (False, sl) else (True, slot_clear now wall sl))"
  | "run_slot_op now wall (DoWith f) sl = (False, f sl)"

definition slot_section ::
  "instant \<Rightarrow> instant \<Rightarrow> slot_id \<Rightarrow> slot_op \<Rightarrow> txn_store \<Rightarrow> bool \<times> txn_store"
  where "slot_section now wall i op s =
    (case slot_at s i of
       Some sl \<Rightarrow> (let (ret, sl') = run_slot_op now wall op sl in (ret, put_slot i sl' s))
     | None \<Rightarrow> (False, s))"

fun slot_op_ok :: "slot_op \<Rightarrow> bool"
  where
    "slot_op_ok (DoWith f) \<longleftrightarrow> closure_ok f"
  | "slot_op_ok _ \<longleftrightarrow> True"

definition set_pc :: "nat \<Rightarrow> pc \<Rightarrow> shared_state \<Rightarrow> shared_state"
  where "set_pc t p g = g\<lparr>sh_pc := (sh_pc g)(t := p)\<rparr>"

text \<open>A critical section: the thread, the slot and what is done to it.\<close>

datatype pool_event =
    TakeId nat slot_id
  | RefuseTake nat
  | MarkId nat slot_id
  | FindSlot nat slot_id slot_op
  | RunOp nat slot_id slot_op
  | PutBack nat slot_id

inductive shared_step :: "pool_event \<Rightarrow> shared_state \<Rightarrow> shared_state \<Rightarrow> bool"
  where
    acquire_pop:
      "sh_pc g t = Idle \<Longrightarrow> take_free_id now wall (sh_store g) = Some (Ok i, s') \<Longrightarrow>
       shared_step (TakeId t i) g (set_pc t (Popped i) (g\<lparr>sh_store := s'\<rparr>))"
  | acquire_exhausted:
      "sh_pc g t = Idle \<Longrightarrow> take_free_id now wall (sh_store g) = Some (Err e, s') \<Longrightarrow>
       shared_step (RefuseTake t) g (g\<lparr>sh_store := s'\<rparr>)"
  | acquire_mark:
      "sh_pc g t = Popped i \<Longrightarrow>
       shared_step (MarkId t i) g (set_pc t Idle (g\<lparr>sh_store := mark_acquired i (sh_store g)\<rparr>))"
  | find_slot:
      "sh_pc g t = Idle \<Longrightarrow> slot_op_ok op \<Longrightarrow> slot_at (sh_store g) i \<noteq> None \<Longrightarrow>
       shared_step (FindSlot t i op) g (set_pc t (HasArc i op) g)"
  | run_slot:
      "sh_pc g t = HasArc i op \<Longrightarrow> slot_section now wall i op (sh_store g) = (ret, s') \<Longrightarrow>
       shared_step (RunOp t i op) g (set_pc t (if ret then MustReturn i else Idle) (g\<lparr>sh_store := s'\<rparr>))"
  | give_back:
      "sh_pc g t = MustReturn i \<Longrightarrow>
       shared_step (PutBack t i) g (set_pc t Idle (g\<lparr>sh_store := return_to_free i (sh_store g)\<rparr>))"

inductive shared_reach :: "shared_state \<Rightarrow> shared_state \<Rightarrow> bool" for g0
  where
    reach_refl: "shared_reach g0 g0"
  | reach_step: "shared_reach g0 g \<Longrightarrow> shared_step ev g g' \<Longrightarrow> shared_reach g0 g'"

text \<open>The operations of one thread run to completion, for comparison with the
  single-threaded pool.\<close>

definition shared_acquire ::
  "instant \<Rightarrow> instant \<Rightarrow> txn_store \<Rightarrow> ((acquire_error, slot_id) result \<times> txn_store) option"
  where "shared_acquire now wall s =
    (case take_free_id now wall s of
       None \<Rightarrow> None
     | Some (Err e, s1) \<Rightarrow> Some (Err e, s1)
     | Some (Ok i, s1) \<Rightarrow> Some (Ok i, mark_acquired i s1))"

definition shared_with_slot_exclusive ::
  "slot_id \<Rightarrow> (txn_slot \<Rightarrow> (slot_error, 'r) result \<times> txn_slot) \<Rightarrow> txn_store
    \<Rightarrow> (slot_error, 'r) result \<times> txn_store"
  where "shared_with_slot_exclusive i f s =
    (case slot_at s i of
       None \<Rightarrow> (Err (InvalidId i), s)
     | Some sl \<Rightarrow> (let (r, sl') = f sl in (r, put_slot i sl' s)))"

definition shared_with_slot ::
  "slot_id \<Rightarrow> slot_state \<Rightarrow> (txn_slot \<Rightarrow> (slot_error, 'r) result \<times> txn_slot) \<Rightarrow> txn_store
    \<Rightarrow> (slot_error, 'r) result \<times> txn_store"
  where "shared_with_slot i expected f s =
    shared_with_slot_exclusive i
      (\<lambda>sl. if sl_state sl \<noteq> expected then (Err (StateMismatch expected (sl_state sl)), sl)
            else f sl) s"

definition shared_transition ::
  "slot_id \<Rightarrow> slot_state \<Rightarrow> slot_state \<Rightarrow> txn_store \<Rightarrow> (slot_error, unit) result \<times> txn_store"
  where "shared_transition i fr to s =
    shared_with_slot i fr (\<lambda>sl. (Ok (), sl\<lparr>sl_state := to\<rparr>)) s"

definition shared_release ::
  "instant \<Rightarrow> instant \<Rightarrow> slot_id \<Rightarrow> txn_store \<Rightarrow> (slot_error, unit) result \<times> txn_store"
  where "shared_release now wall i s =
    (case shared_with_slot i Terminal (\<lambda>sl. (Ok (), slot_clear now wall sl)) s of
       (Err e, s') \<Rightarrow> (Err e, s')
     | (Ok _, s') \<Rightarrow> (Ok (), return_to_free i s'))"

definition shared_release_active ::
  "instant \<Rightarrow> instant \<Rightarrow> slot_id \<Rightarrow> txn_store \<Rightarrow> (slot_error, unit) result \<times> txn_store"
  where "shared_release_active now wall i s =
    (case shared_with_slot_exclusive i
        (\<lambda>sl. if sl_state sl = Free then (Ok False, sl) else (Ok True, slot_clear now wall sl)) s of
       (Err e, s') \<Rightarrow> (Err e, s')
     | (Ok should_return, s') \<Rightarrow> (Ok (), if should_return then return_to_free i s' else s'))"

section \<open>The invariant of the interleaved pool\<close>

text \<open>The slot a thread holds between two critical sections: taken off the free
  list and not yet marked, or cleared and not yet put back.\<close>

fun in_transit :: "pc \<Rightarrow> slot_id option"
  where
    "in_transit (Popped i) = Some i"
  | "in_transit (MustReturn i) = Some i"
  | "in_transit _ = None"

definition transit_ids :: "shared_state \<Rightarrow> slot_id set"
  where "transit_ids g = {i. \<exists>t. in_transit (sh_pc g t) = Some i}"

definition shared_inv :: "shared_state \<Rightarrow> bool"
  where "shared_inv g \<longleftrightarrow>
    pool_inv (transit_ids g) (sh_store g) \<and>
    (\<forall>t t' i. in_transit (sh_pc g t) = Some i \<longrightarrow> in_transit (sh_pc g t') = Some i \<longrightarrow> t = t') \<and>
    (\<forall>t i op. sh_pc g t = HasArc i op \<longrightarrow> slot_op_ok op)"

lemma sh_simps [simp]:
  "sh_store (set_pc t p g) = sh_store g" "sh_pc (set_pc t p g) = (sh_pc g)(t := p)"
  "transit_ids (g\<lparr>sh_store := s\<rparr>) = transit_ids g"
  by (simp_all add: set_pc_def transit_ids_def)

lemma transit_enter:
  "in_transit (sh_pc g t) = None \<Longrightarrow> in_transit p = Some i \<Longrightarrow>
   transit_ids (set_pc t p g) = insert i (transit_ids g)"
  by (auto simp: transit_ids_def) (metis fun_upd_other fun_upd_same option.distinct(1))+

lemma transit_stay:
  assumes "in_transit (sh_pc g t) = None" "in_transit p = None"
  shows "transit_ids (set_pc t p g) = transit_ids g"
  using assms by (auto simp: transit_ids_def) (metis option.distinct(1))

lemma transit_leave:
  assumes "shared_inv g" "in_transit (sh_pc g t) = Some i" "in_transit p = None"
  shows "transit_ids (set_pc t p g) = transit_ids g - {i}"
  using assms by (auto simp: transit_ids_def shared_inv_def) (metis option.inject)

lemma transit_mem: "in_transit (sh_pc g t) = Some i \<Longrightarrow> i \<in> transit_ids g"
  by (auto simp: transit_ids_def)

text \<open>The parts of the invariant that speak of program counters only.\<close>

lemma shared_inv_enter:
  assumes "shared_inv g" "in_transit (sh_pc g t) = None" "in_transit p = Some i"
    "i \<notin> transit_ids g" "pool_inv (insert i (transit_ids g)) s'"
  shows "shared_inv (set_pc t p (g\<lparr>sh_store := s'\<rparr>))"
proof -
  have "transit_ids (set_pc t p (g\<lparr>sh_store := s'\<rparr>)) = insert i (transit_ids g)"
    using transit_enter [of "g\<lparr>sh_store := s'\<rparr>" t p i] assms(2,3) by simp
  moreover have "in_transit (sh_pc g u) \<noteq> Some i" for u
    using assms(4) by (auto simp: transit_ids_def)
  ultimately show ?thesis
    using assms by (auto simp: shared_inv_def split: if_splits)
qed

lemma shared_inv_stay:
  assumes "shared_inv g" "in_transit (sh_pc g t) = None" "in_transit p = None"
    "\<And>i op. p = HasArc i op \<Longrightarrow> slot_op_ok op" "pool_inv (transit_ids g) s'"
  shows "shared_inv (set_pc t p (g\<lparr>sh_store := s'\<rparr>))"
  using assms transit_stay [of "g\<lparr>sh_store := s'\<rparr>" t p]
  by (auto simp: shared_inv_def split: if_splits)

lemma shared_inv_leave:
  assumes "shared_inv g" "in_transit (sh_pc g t) = Some i"
    "pool_inv (transit_ids g - {i}) s'"
  shows "shared_inv (set_pc t Idle (g\<lparr>sh_store := s'\<rparr>))"
proof -
  have "shared_inv (g\<lparr>sh_store := sh_store g\<rparr>)"
    using assms(1) by simp
  have "transit_ids (set_pc t Idle g) = transit_ids g - {i}"
    using transit_leave [OF assms(1,2), of Idle] by simp
  then have "transit_ids (set_pc t Idle (g\<lparr>sh_store := s'\<rparr>)) = transit_ids g - {i}"
    by (simp add: transit_ids_def set_pc_def)
  then show ?thesis
    using assms by (auto simp: shared_inv_def split: if_splits)
qed

lemma take_free_id_cases:
  assumes "pool_inv X s" "take_free_id now wall s = r"
  obtains (taken) i s' where "r = Some (Ok i, s')" "pool_inv (insert i X) s'" "i \<notin> X"
  | (full) "r = Some (Err Exhausted, s\<lparr>ts_exhaustion_total := ts_exhaustion_total s + 1\<rparr>)"
      "ts_free s = []" "length (ts_slots s) = unat (ts_capacity s)"
  using assms(1)
proof (cases rule: free_list_section_cases [where now = now and wall = wall])
  case (available s1)
  note t = take_inv [OF available(2,3) refl]
  show thesis
    using available t assms(2)
    by (intro taken [of "last (ts_free s1)" "s1\<lparr>ts_free := butlast (ts_free s1)\<rparr>"])
       (auto simp: take_free_id_def Let_def)
next
  case full
  then show thesis
    using assms(2) by (intro that(2)) (auto simp: take_free_id_def)
qed

lemma take_free_id_Ok:
  assumes "pool_inv X s" "take_free_id now wall s = Some (Ok i, s')"
  shows "pool_inv (insert i X) s' \<and> i \<notin> X"
  using assms by (rule take_free_id_cases) auto

lemma take_free_id_Err:
  assumes "pool_inv X s" "take_free_id now wall s = Some (Err e, s')"
  shows "pool_inv X s' \<and> ts_free s = [] \<and> length (ts_slots s) = unat (ts_capacity s)"
  using assms by (rule take_free_id_cases) (use assms in auto)

lemma take_free_id_no_panic: "pool_inv X s \<Longrightarrow> take_free_id now wall s \<noteq> None"
  using take_free_id_cases [OF _ refl, of X s now wall] by (metis option.distinct(1))

lemma slot_section_cases:
  assumes inv: "pool_inv X s" and op: "slot_op_ok op"
    and sec: "slot_section now wall i op s = (ret, s')"
  shows "if ret then pool_inv (insert i X) s' \<and> i \<notin> X else pool_inv X s'"
proof (cases "slot_at s i")
  case None
  then show ?thesis
    using sec inv by (auto simp: slot_section_def)
next
  case (Some sl)
  have b: "unat i < length (ts_slots s)" "sl = ts_slots s ! unat i"
    using Some by (auto simp: slot_at_def split: if_splits)
  have same: "put_slot i sl s = s"
    using b by (simp add: put_slot_def)
  show ?thesis
  proof (cases "sl_state sl = Free")
    case True
    then show ?thesis
      using op sec Some inv same by (cases op) (auto simp: slot_section_def closure_ok_def)
  next
    case False
    note c = clear_inv [OF inv Some False] and k = put_slot_inv_same(1) [OF inv Some False]
    show ?thesis
      using op sec Some inv same c k False
      by (cases op) (auto simp: slot_section_def closure_ok_def split: if_splits)
  qed
qed

lemma shared_step_inv:
  assumes "shared_step ev g g'" "shared_inv g"
  shows "shared_inv g'"
  using assms
proof (induction rule: shared_step.induct)
  case (acquire_pop g t now wall i s')
  have "pool_inv (transit_ids g) (sh_store g)"
    using acquire_pop.prems by (simp add: shared_inv_def)
  then show ?case
    using acquire_pop take_free_id_Ok [OF _ acquire_pop(2)]
    by (intro shared_inv_enter [where i = i]) auto
next
  case (acquire_exhausted g t now wall e s')
  have inv: "pool_inv (transit_ids g) (sh_store g)"
    using acquire_exhausted.prems by (simp add: shared_inv_def)
  then have "pool_inv (transit_ids g) s'"
    using take_free_id_Err [OF _ acquire_exhausted(2)] by blast
  then show ?case
    using acquire_exhausted.prems by (simp add: shared_inv_def)
next
  case (acquire_mark g t i)
  have inv: "pool_inv (transit_ids g) (sh_store g)" and i: "i \<in> transit_ids g"
    using acquire_mark transit_mem [of g t i] by (simp_all add: shared_inv_def)
  have "slot_at (sh_store g) i = Some (ts_slots (sh_store g) ! unat i)"
    using pool_invD(5) [OF inv, of i] i by (simp add: slot_at_def)
  then have "pool_inv (transit_ids g - {i}) (mark_acquired i (sh_store g))"
    using mark_inv(1) [OF inv i refl] by (simp add: mark_acquired_def)
  then show ?case
    using acquire_mark by (intro shared_inv_leave [where i = i]) auto
next
  case (find_slot g t op i)
  then have "shared_inv (set_pc t (HasArc i op) (g\<lparr>sh_store := sh_store g\<rparr>))"
    by (intro shared_inv_stay) (auto simp: shared_inv_def)
  then show ?case
    by simp
next
  case (run_slot g t i op now wall ret s')
  have inv: "pool_inv (transit_ids g) (sh_store g)" and op: "slot_op_ok op"
    using run_slot by (auto simp: shared_inv_def)
  note sec = slot_section_cases [OF inv op run_slot(2)]
  show ?case
  proof (cases ret)
    case True
    then show ?thesis
      using run_slot sec by (auto intro!: shared_inv_enter [where i = i])
  next
    case False
    then show ?thesis
      using run_slot sec by (auto intro!: shared_inv_stay)
  qed
next
  case (give_back g t i)
  have inv: "pool_inv (transit_ids g) (sh_store g)" and i: "i \<in> transit_ids g"
    using give_back transit_mem [of g t i] by (simp_all add: shared_inv_def)
  then show ?case
    using push_inv [OF inv i] give_back
    by (intro shared_inv_leave [where i = i]) (auto simp: return_to_free_def)
qed

lemma shared_new_inv: "shared_new c k = Some g \<Longrightarrow> shared_inv g"
  by (auto simp: shared_new_def shared_inv_def transit_ids_def txn_store_new_def pool_inv_def
      split: if_splits)

lemma shared_reach_inv:
  assumes "shared_reach g0 g" "shared_inv g0"
  shows "shared_inv g"
  using assms by (induction rule: shared_reach.induct) (auto intro: shared_step_inv)

section \<open>What the interleaved pool promises\<close>

lemma held_le_capacity:
  assumes "pool_inv X s"
  shows "card (held s) \<le> unat (ts_capacity s)"
proof -
  have "length (ts_slots s) < 2 ^ 32"
    using pool_invD(1) [OF assms] unat_u32_less [of "ts_capacity s"] by simp
  then have "card (held s) \<le> length (ts_slots s)"
    using card_mono [of "{i. unat i < length (ts_slots s)}" "held s"]
    by (auto simp: held_def card_ids_below)
  then show ?thesis
    using pool_invD(1) [OF assms] by simp
qed

text \<open>A transition that neither starts nor ends in \<open>Free\<close> is an admitted closure.\<close>

lemma closure_ok_transition:
  "fr \<noteq> Free \<Longrightarrow> to \<noteq> Free \<Longrightarrow> closure_ok (\<lambda>sl. if sl_state sl \<noteq> fr then sl else sl\<lparr>sl_state := to\<rparr>)"
  by (simp add: closure_ok_def)

subsection \<open>The abstract pool\<close>

text \<open>The states of the slots in use, and the id each thread has in transit.\<close>

record pool_view =
  pv_held :: "slot_id \<rightharpoonup> slot_state"
  pv_transit :: "nat \<rightharpoonup> slot_id"

definition slot_states :: "txn_store \<Rightarrow> slot_id \<rightharpoonup> slot_state"
  where "slot_states s i =
    (case slot_at s i of Some sl \<Rightarrow> if sl_state sl = Free then None else Some (sl_state sl) | None \<Rightarrow> None)"

definition view :: "shared_state \<Rightarrow> pool_view"
  where "view g = \<lparr>pv_held = slot_states (sh_store g), pv_transit = (\<lambda>t. in_transit (sh_pc g t))\<rparr>"

text \<open>What each critical section is allowed, and obliged, to do.  An id is taken only if nobody has
  it, and refused only when every id of the capacity is in use or in transit.  A release frees its
  slot exactly when it is in use, and, for \<open>release\<close>, terminal.  A closure leaves the other slots
  alone and its own in use.\<close>

inductive pool_spec_step :: "nat \<Rightarrow> pool_event \<Rightarrow> pool_view \<Rightarrow> pool_view \<Rightarrow> bool" for cap
  where
    spec_take:
      "pv_transit v t = None \<Longrightarrow> i \<notin> dom (pv_held v) \<union> ran (pv_transit v) \<Longrightarrow>
       pool_spec_step cap (TakeId t i) v (v\<lparr>pv_transit := (pv_transit v)(t \<mapsto> i)\<rparr>)"
  | spec_refuse:
      "card (dom (pv_held v) \<union> ran (pv_transit v)) = cap \<Longrightarrow> pool_spec_step cap (RefuseTake t) v v"
  | spec_mark:
      "pv_transit v t = Some i \<Longrightarrow> i \<notin> dom (pv_held v) \<Longrightarrow> card (dom (pv_held v)) < cap \<Longrightarrow>
       pool_spec_step cap (MarkId t i) v
         (v\<lparr>pv_held := (pv_held v)(i \<mapsto> Ingress), pv_transit := (pv_transit v)(t := None)\<rparr>)"
  | spec_find: "pool_spec_step cap (FindSlot t i op) v v"
  | spec_free:
      "pv_transit v t = None \<Longrightarrow> pv_held v i = Some st \<Longrightarrow> op = DoRelease \<and> st = Terminal \<or> op = DoReleaseActive \<Longrightarrow>
       pool_spec_step cap (RunOp t i op) v
         (v\<lparr>pv_held := (pv_held v)(i := None), pv_transit := (pv_transit v)(t \<mapsto> i)\<rparr>)"
  | spec_keep:
      "op = DoRelease \<and> pv_held v i \<noteq> Some Terminal \<or> op = DoReleaseActive \<and> pv_held v i = None \<Longrightarrow>
       pool_spec_step cap (RunOp t i op) v v"
  | spec_with:
      "dom h = dom (pv_held v) \<Longrightarrow> \<forall>j. j \<noteq> i \<longrightarrow> h j = pv_held v j \<Longrightarrow>
       pool_spec_step cap (RunOp t i (DoWith f)) v (v\<lparr>pv_held := h\<rparr>)"
  | spec_return:
      "pv_transit v t = Some i \<Longrightarrow> i \<notin> dom (pv_held v) \<Longrightarrow>
       pool_spec_step cap (PutBack t i) v (v\<lparr>pv_transit := (pv_transit v)(t := None)\<rparr>)"

lemma dom_slot_states [simp]: "dom (slot_states s) = held s"
  by (auto simp: slot_states_def held_def slot_at_def dom_def split: if_splits)

lemma view_simps [simp]:
  "pv_held (view g) = slot_states (sh_store g)" "pv_transit (view g) t = in_transit (sh_pc g t)"
  "ran (pv_transit (view g)) = transit_ids g"
  by (auto simp: view_def ran_def transit_ids_def)

lemma view_same [simp]:
  "(view g)\<lparr>pv_held := slot_states (sh_store g), pv_transit := x\<rparr> = (view g)\<lparr>pv_transit := x\<rparr>"
  "(view g)\<lparr>pv_held := h, pv_transit := pv_transit (view g)\<rparr> = (view g)\<lparr>pv_held := h\<rparr>"
  "(view g)\<lparr>pv_held := slot_states (sh_store g)\<rparr> = view g"
  "(view g)\<lparr>pv_transit := pv_transit (view g)\<rparr> = view g"
  by (simp_all add: view_def)

lemma view_set_pc:
  "view (set_pc t p (g\<lparr>sh_store := s'\<rparr>)) =
    (view g)\<lparr>pv_held := slot_states s', pv_transit := (pv_transit (view g))(t := in_transit p)\<rparr>"
  by (auto simp: view_def set_pc_def)

lemma slot_states_simps [simp]:
  "slot_states (s\<lparr>ts_free := f\<rparr>) = slot_states s" "slot_states (s\<lparr>ts_exhaustion_total := n\<rparr>) = slot_states s"
  by (auto simp: slot_states_def slot_at_def)

lemma slot_states_put:
  "slot_at s i \<noteq> None \<Longrightarrow> slot_states (put_slot i sl s) =
    (slot_states s)(i := if sl_state sl = Free then None else Some (sl_state sl))"
  by (auto simp: slot_states_def slot_at_def put_slot_def nth_update_word split: if_splits)

lemma slot_states_grow [simp]: "slot_states (snd (grow_chunk now wall s)) = slot_states s"
  by (rule ext) (auto simp: slot_states_def slot_at_def grow_chunk_def Let_def nth_append)

lemma take_free_id_states:
  "take_free_id now wall s = Some (r, s') \<Longrightarrow> slot_states s' = slot_states s \<and> ts_capacity s' = ts_capacity s"
  using slot_states_grow [of now wall s]
  by (auto simp: take_free_id_def grow_chunk_def Let_def split: if_splits option.splits)

lemma slot_section_view:
  assumes "slot_section now wall i op s = (ret, s')" "slot_op_ok op"
  shows "ts_capacity s' = ts_capacity s \<and> (case op of
      DoRelease \<Rightarrow> ret = (slot_states s i = Some Terminal) \<and> slot_states s' = (if ret then (slot_states s)(i := None) else slot_states s)
    | DoReleaseActive \<Rightarrow> ret = (slot_states s i \<noteq> None) \<and> slot_states s' = (if ret then (slot_states s)(i := None) else slot_states s)
    | DoWith f \<Rightarrow> \<not> ret \<and> held s' = held s \<and> (\<forall>j. j \<noteq> i \<longrightarrow> slot_states s' j = slot_states s j))"
proof (cases "slot_at s i")
  case None
  then show ?thesis
    using assms by (auto simp: slot_section_def slot_states_def split: slot_op.splits)
next
  case (Some sl)
  have same: "put_slot i sl s = s"
    using Some by (auto simp: put_slot_def slot_at_def split: if_splits)
  have st: "slot_states s i = (if sl_state sl = Free then None else Some (sl_state sl))"
    using Some by (simp add: slot_states_def)
  have run: "run_slot_op now wall op sl = (ret, snd (run_slot_op now wall op sl))"
      "s' = put_slot i (snd (run_slot_op now wall op sl)) s"
    using assms(1) Some by (auto simp: slot_section_def split: prod.splits)
  have put: "slot_states (put_slot i sl' s) = (slot_states s)(i := if sl_state sl' = Free then None else Some (sl_state sl'))" for sl'
    using Some by (simp add: slot_states_put)
  show ?thesis
  proof (cases op)
    case (DoWith f)
    have "dom (slot_states s') = dom (slot_states s)"
      using DoWith run(2) assms(2) st by (auto simp: put closure_ok_def simp del: dom_slot_states split: if_splits)
    then have "held s' = held s"
      by simp
    moreover have "\<not> ret" "\<forall>j. j \<noteq> i \<longrightarrow> slot_states s' j = slot_states s j" "ts_capacity s' = ts_capacity s"
      using DoWith run put by simp_all
    ultimately show ?thesis
      using DoWith by simp
  qed (use run st put same in \<open>auto split: if_splits\<close>)
qed

lemma all_ids_taken:
  assumes "pool_inv X s" "ts_free s = []" "length (ts_slots s) = unat (ts_capacity s)"
  shows "card (held s \<union> X) = unat (ts_capacity s)"
proof -
  have "held s \<union> X = {i. unat i < length (ts_slots s)}"
    using pool_invD(5) [OF assms(1)] assms(2) by (auto simp: held_def)
  then show ?thesis
    using assms(3) unat_u32_less [of "ts_capacity s"] by (simp add: card_ids_below)
qed

lemma shared_step_spec:
  assumes "shared_step ev g g'" "shared_inv g"
  shows "pool_spec_step (unat (ts_capacity (sh_store g))) ev (view g) (view g')
    \<and> ts_capacity (sh_store g') = ts_capacity (sh_store g)"
  using assms
proof (induction rule: shared_step.induct)
  case (acquire_pop g t now wall i s')
  have inv: "pool_inv (transit_ids g) (sh_store g)"
    using acquire_pop.prems by (simp add: shared_inv_def)
  note st = take_free_id_states [OF acquire_pop(2)] and i = take_free_id_Ok [OF inv acquire_pop(2)]
  have "i \<notin> dom (slot_states s')"
    using pool_invD(5) [of "insert i (transit_ids g)" s' i] i by (auto simp: held_def)
  then show ?case
    using spec_take [of "view g" t i] st i acquire_pop(1) by (simp add: view_set_pc)
next
  case (acquire_exhausted g t now wall e s')
  have inv: "pool_inv (transit_ids g) (sh_store g)"
    using acquire_exhausted.prems by (simp add: shared_inv_def)
  note st = take_free_id_states [OF acquire_exhausted(2)] and full = take_free_id_Err [OF inv acquire_exhausted(2)]
  have "view (g\<lparr>sh_store := s'\<rparr>) = view g"
    using st by (simp add: view_def)
  then show ?case
    using spec_refuse [of "view g"] st all_ids_taken [OF inv] full by simp
next
  case (acquire_mark g t i)
  have inv: "pool_inv (transit_ids g) (sh_store g)" and i: "i \<in> transit_ids g"
    using acquire_mark transit_mem [of g t i] by (simp_all add: shared_inv_def)
  have at: "slot_at (sh_store g) i = Some (ts_slots (sh_store g) ! unat i)"
    using pool_invD(5) [OF inv, of i] i by (simp add: slot_at_def)
  have eq: "mark_acquired i (sh_store g) =
      put_slot i (mark_ingress i (ts_slots (sh_store g) ! unat i)) (sh_store g)"
    using at by (simp add: mark_acquired_def)
  note m = mark_inv [OF inv i eq]
  have "card (held (sh_store g)) < unat (ts_capacity (sh_store g))"
    using held_le_capacity [OF m(1)] m(2,3) by (simp add: eq)
  then show ?case
    using spec_mark [of "view g" t i] m(2) at acquire_mark(1) by (simp add: view_set_pc eq slot_states_put)
next
  case (find_slot g t op i)
  have "view (set_pc t (HasArc i op) g) = view g"
    using find_slot(1) view_set_pc [of t "HasArc i op" "sh_store g" g] by (auto simp: view_def)
  then show ?case
    by (simp add: spec_find)
next
  case (run_slot g t i op now wall ret s')
  have op: "slot_op_ok op"
    using run_slot by (auto simp: shared_inv_def)
  have pc: "pv_transit (view g) t = None"
    using run_slot(1) by simp
  have stay: "(pv_transit (view g))(t := None) = pv_transit (view g)"
    using pc by (rule fun_upd_idem)
  note sec = slot_section_view [OF run_slot(2) op]
  show ?case
  proof (cases op)
    case DoRelease
    then show ?thesis
      using sec pc stay spec_free [of "view g" t i _ DoRelease] spec_keep [of DoRelease "view g" i]
      by (auto simp: view_set_pc)
  next
    case DoReleaseActive
    then show ?thesis
      using sec pc stay spec_free [of "view g" t i _ DoReleaseActive] spec_keep [of DoReleaseActive "view g" i]
      by (auto simp: view_set_pc)
  next
    case (DoWith f)
    then show ?thesis
      using sec stay spec_with [of "slot_states s'" "view g" i] by (auto simp: view_set_pc)
  qed
next
  case (give_back g t i)
  have inv: "pool_inv (transit_ids g) (sh_store g)" and i: "i \<in> transit_ids g"
    using give_back transit_mem [of g t i] by (simp_all add: shared_inv_def)
  have "i \<notin> held (sh_store g)"
    using pool_invD(5) [OF inv, of i] i by (simp add: held_def)
  then show ?case
    using spec_return [of "view g" t i] give_back(1) by (simp add: view_set_pc return_to_free_def)
qed

text \<open>C1: in every interleaving of the threads' critical sections, as long as the closures they run
  neither free a slot nor touch a free one, a slot id that a thread has taken off the free list
  belongs to it alone: it is on the free list no more, no other thread is handing it out or putting
  it back, its slot is free and holds nothing of an earlier transaction.  The free list never
  contains a duplicate or a slot in use, no more than the capacity is held, and the next acquire
  does not panic.\<close>

theorem shared_store_exclusive:
  assumes "shared_new capacity chunk = Some g0" and "shared_reach g0 g"
  shows "(sh_pc g t = Popped i \<longrightarrow>
      i \<notin> set (ts_free (sh_store g)) \<and> i \<notin> held (sh_store g) \<and>
      slot_clean (ts_slots (sh_store g) ! unat i) \<and>
      (\<forall>t'. t' \<noteq> t \<longrightarrow> sh_pc g t' \<noteq> Popped i \<and> sh_pc g t' \<noteq> MustReturn i)) \<and>
    distinct (ts_free (sh_store g)) \<and>
    set (ts_free (sh_store g)) \<inter> held (sh_store g) = {} \<and>
    card (held (sh_store g)) \<le> unat (ts_capacity (sh_store g)) \<and>
    take_free_id now wall (sh_store g) \<noteq> None"
proof -
  have inv: "shared_inv g"
    using assms shared_new_inv shared_reach_inv by blast
  then have p: "pool_inv (transit_ids g) (sh_store g)"
    by (simp add: shared_inv_def)
  have mine: "\<forall>t'. t' \<noteq> t \<longrightarrow> sh_pc g t' \<noteq> Popped i \<and> sh_pc g t' \<noteq> MustReturn i"
    if "sh_pc g t = Popped i"
    using inv that by (metis in_transit.simps(1,2) shared_inv_def)
  have trans: "i \<in> transit_ids g" if "sh_pc g t = Popped i"
    using that transit_mem [of g t i] by simp
  have free: "unat i < length (ts_slots (sh_store g)) \<and>
      sl_state (ts_slots (sh_store g) ! unat i) = Free" if "sh_pc g t = Popped i"
    using pool_invD(5) [OF p, of i] trans [OF that] by simp
  have clean: "slot_clean (ts_slots (sh_store g) ! unat i)" if "sh_pc g t = Popped i"
    using p free [OF that] by (simp add: pool_inv_def)
  have "set (ts_free (sh_store g)) \<inter> held (sh_store g) = {}"
    using pool_invD(5) [OF p] by (auto simp: held_def)
  then show ?thesis
    using mine trans free clean pool_invD(3,4) [OF p] held_le_capacity [OF p]
      take_free_id_no_panic [OF p] by (auto simp: held_def)
qed

text \<open>A pool of four in chunks of two: thread 0 takes id 1, thread 1 takes id 0 before thread 0 has
  marked its slot.\<close>

definition two_free :: "txn_slot list"
  where "two_free = [slot_new_free 0 0, slot_new_free 0 0]"

definition example_shared :: "txn_slot list \<Rightarrow> slot_id list \<Rightarrow> (nat \<Rightarrow> pc) \<Rightarrow> shared_state"
  where "example_shared slots free pcs =
    \<lparr>sh_store = \<lparr>ts_slots = slots, ts_free = free, ts_capacity = 4, ts_chunk_size = 2, ts_exhaustion_total = 0\<rparr>,
     sh_pc = pcs\<rparr>"

abbreviation all_idle :: "nat \<Rightarrow> pc"
  where "all_idle \<equiv> \<lambda>_. Idle"

lemma example_shared_new: "shared_new 4 2 = Some (example_shared [] [] all_idle)"
  by (simp add: shared_new_def txn_store_new_def example_shared_def)

lemma example_take_first:
  "shared_step (TakeId 0 1) (example_shared [] [] all_idle) (example_shared two_free [0] (all_idle(0 := Popped 1)))"
proof -
  have "replicate 2 sl = [sl, sl]" for sl :: txn_slot
    by (simp add: numeral_2_eq_2)
  moreover have "[0..<2] = [0, 1 :: nat]"
    by (simp add: upt_rec)
  ultimately have "take_free_id 0 0 (sh_store (example_shared [] [] all_idle))
      = Some (Ok 1, sh_store (example_shared two_free [0] all_idle))"
    by (simp add: example_shared_def take_free_id_def grow_chunk_def chunk_ids_def slot_at_def two_free_def
        Let_def)
  from acquire_pop [OF _ this] show ?thesis
    by (simp add: example_shared_def set_pc_def)
qed

lemma example_take_second:
  "shared_step (TakeId 1 0) (example_shared two_free [0] (all_idle(0 := Popped 1)))
    (example_shared two_free [] (all_idle(0 := Popped 1, 1 := Popped 0)))"
proof -
  have "take_free_id 0 0 (sh_store (example_shared two_free [0] (all_idle(0 := Popped 1))))
      = Some (Ok 0, sh_store (example_shared two_free [] all_idle))"
    by (simp add: example_shared_def take_free_id_def slot_at_def two_free_def)
  from acquire_pop [OF _ this, of 1] show ?thesis
    by (simp add: example_shared_def set_pc_def)
qed

theorem shared_store_exclusive_witness:
  "let g = example_shared two_free [] (all_idle(0 := Popped 1, 1 := Popped 0)) in
   shared_reach (example_shared [] [] all_idle) g \<and> sh_pc g 0 = Popped 1 \<and>
   1 \<notin> set (ts_free (sh_store g)) \<and> 1 \<notin> held (sh_store g) \<and> slot_clean (ts_slots (sh_store g) ! 1) \<and>
   sh_pc g 1 \<noteq> Popped 1 \<and> take_free_id 3 3 (sh_store g) \<noteq> None"
proof -
  let ?g = "example_shared two_free [] (all_idle(0 := Popped 1, 1 := Popped 0))"
  have r: "shared_reach (example_shared [] [] all_idle) ?g"
    by (rule reach_step [OF reach_step [OF reach_refl example_take_first] example_take_second])
  have pc: "sh_pc ?g 0 = Popped 1"
    by (simp add: example_shared_def)
  show ?thesis
    using shared_store_exclusive [OF example_shared_new r, of 0 1 3 3] r pc by (simp add: Let_def)
qed

text \<open>C18: every critical section of the shared pool, run with closures that neither free a slot nor
  touch a free one, is the step of the abstract pool with the same label.  So an acquire takes an id
  that is neither in use nor in transit, and is refused only when all of the capacity is; marking puts
  exactly that id in use; a release takes its slot out of use exactly when it is in use (and
  terminal, for \<open>release\<close>); a closure changes no other slot.  A new pool has nothing in use or in
  transit.\<close>

theorem shared_store_refines_spec:
  assumes "shared_new capacity chunk = Some g0" and "shared_reach g0 g" and "shared_step ev g g'"
  shows "view g0 = \<lparr>pv_held = Map.empty, pv_transit = Map.empty\<rparr> \<and>
    pool_spec_step (unat capacity) ev (view g) (view g')"
proof -
  have inv: "shared_inv g"
    using assms shared_new_inv shared_reach_inv by blast
  have "ts_capacity (sh_store g) = capacity"
    using assms(2)
  proof (induction rule: shared_reach.induct)
    case reach_refl
    then show ?case
      using assms(1) by (auto simp: shared_new_def txn_store_new_def split: if_splits)
  next
    case (reach_step g ev g')
    then show ?case
      using shared_step_spec shared_reach_inv [OF reach_step(1)] shared_new_inv [OF assms(1)] by metis
  qed
  moreover have "view g0 = \<lparr>pv_held = Map.empty, pv_transit = Map.empty\<rparr>"
    using assms(1) by (auto simp: shared_new_def txn_store_new_def view_def slot_states_def slot_at_def split: if_splits)
  ultimately show ?thesis
    using shared_step_spec [OF assms(3) inv] by simp
qed

text \<open>Thread 0 marks the slot it took and then releases it.\<close>

definition one_used :: "txn_slot list"
  where "one_used = [slot_new_free 0 0, mark_ingress 1 (slot_new_free 0 0)]"

definition one_cleared :: "txn_slot list"
  where "one_cleared = [slot_new_free 0 0, slot_clear 5 5 (mark_ingress 1 (slot_new_free 0 0))]"

lemma example_mark:
  "shared_step (MarkId 0 1) (example_shared two_free [0] (all_idle(0 := Popped 1))) (example_shared one_used [0] all_idle)"
  using acquire_mark [of "example_shared two_free [0] (all_idle(0 := Popped 1))" 0 1]
  by (simp add: example_shared_def mark_acquired_def slot_at_def put_slot_def set_pc_def two_free_def one_used_def fun_upd_idem)

lemma example_find:
  "shared_step (FindSlot 0 1 DoReleaseActive) (example_shared one_used [0] all_idle)
    (example_shared one_used [0] (all_idle(0 := HasArc 1 DoReleaseActive)))"
  using find_slot [of "example_shared one_used [0] all_idle" 0 DoReleaseActive 1]
  by (simp add: example_shared_def slot_at_def set_pc_def one_used_def)

lemma example_release:
  "shared_step (RunOp 0 1 DoReleaseActive) (example_shared one_used [0] (all_idle(0 := HasArc 1 DoReleaseActive)))
    (example_shared one_cleared [0] (all_idle(0 := MustReturn 1)))"
proof -
  have "slot_section 5 5 1 DoReleaseActive (sh_store (example_shared one_used [0] (all_idle(0 := HasArc 1 DoReleaseActive))))
      = (True, sh_store (example_shared one_cleared [0] all_idle))"
    by (simp add: example_shared_def slot_section_def slot_at_def put_slot_def one_used_def one_cleared_def)
  from run_slot [OF _ this, of 0] show ?thesis
    by (simp add: example_shared_def set_pc_def)
qed

theorem shared_store_refines_spec_witness:
  "pool_spec_step 4 (RunOp 0 1 DoReleaseActive)
    \<lparr>pv_held = [1 \<mapsto> Ingress], pv_transit = Map.empty\<rparr> \<lparr>pv_held = Map.empty, pv_transit = [0 \<mapsto> 1]\<rparr>"
proof -
  let ?g = "example_shared one_used [0] (all_idle(0 := HasArc 1 DoReleaseActive))"
  have reach: "shared_reach (example_shared [] [] all_idle) ?g"
    by (rule reach_step [OF reach_step [OF reach_step [OF reach_refl example_take_first] example_mark] example_find])
  have states: "slot_states \<lparr>ts_slots = [slot_new_free 0 0, sl], ts_free = free, ts_capacity = 4, ts_chunk_size = 2, ts_exhaustion_total = 0\<rparr>
      = (if sl_state sl = Free then Map.empty else [1 \<mapsto> sl_state sl])" for sl free
  proof (rule ext)
    fix i :: slot_id
    have "unat i < 2 \<longleftrightarrow> i = 0 \<or> i = 1"
      using unat_inj [of i 0] unat_inj [of i 1] by (cases "unat i"; cases "unat i - 1") auto
    then show "slot_states \<lparr>ts_slots = [slot_new_free 0 0, sl], ts_free = free, ts_capacity = 4, ts_chunk_size = 2, ts_exhaustion_total = 0\<rparr> i
      = (if sl_state sl = Free then Map.empty else [1 \<mapsto> sl_state sl]) i"
      by (auto simp: slot_states_def slot_at_def)
  qed
  have "view ?g = \<lparr>pv_held = [1 \<mapsto> Ingress], pv_transit = Map.empty\<rparr>"
      "view (example_shared one_cleared [0] (all_idle(0 := MustReturn 1))) = \<lparr>pv_held = Map.empty, pv_transit = [0 \<mapsto> 1]\<rparr>"
    by (auto simp: view_def example_shared_def one_used_def one_cleared_def states)
  then show ?thesis
    using shared_store_refines_spec [OF example_shared_new reach example_release] by simp
qed

text \<open>With one thread at a time, the shared pool and the single-threaded pool
  are the same functions: acquire, release, release of an active slot and
  transition give equal results and equal stores.\<close>

theorem shared_store_sequential:
  "shared_acquire now wall s = store_acquire now wall s \<and>
   shared_release now wall i s = store_release now wall i s \<and>
   shared_release_active now wall i s = store_release_active now wall i s \<and>
   shared_transition i fr to s = store_transition i fr to s"
proof -
  have same: "put_slot i (ts_slots s ! unat i) s = s"
    by (simp add: put_slot_def)
  have acq: "shared_acquire now wall s = store_acquire now wall s"
    by (auto simp: shared_acquire_def take_free_id_def store_acquire_def mark_acquired_def
        slot_at_def Let_def split: prod.splits option.splits)
  have "shared_with_slot i st f s = store_with_slot i st f s" for st f
    by (auto simp: shared_with_slot_def shared_with_slot_exclusive_def store_with_slot_def
        slot_at_def same Let_def split: option.splits prod.splits)
  then show ?thesis
    using acq by (auto simp: shared_release_def store_release_def shared_transition_def
        store_transition_def shared_release_active_def store_release_active_def
        shared_with_slot_exclusive_def return_to_free_def slot_at_def same Let_def
        split: option.splits sum.splits prod.splits)
qed

end
