(* ===== verification/Config.thy ===== *)
theory Config
  imports Complex_Main Dns_Wire Std_Net
begin

text \<open>
  The part of the configuration that the modelled components read
  (\<open>proto/conduit/v1/config.proto\<close>) and its compilation by
  \<open>crates/conduit-config\<close>: backend weights (\<open>backend.rs\<close>), upstream forward
  settings (\<open>forward.rs\<close>) and health probing (\<open>health.rs\<close>).

  Compilation happens when a snapshot is built and panics there on an error, so
  the main result is that whatever passes validation compiles, and within the
  documented bounds.  The maps of the compiled configuration are association
  lists, because the code iterates over them; a lookup is \<open>map_of\<close>.
\<close>

section \<open>Messages\<close>

record backend_cfg =
  be_address :: string
  be_weight :: "u32 option"
  be_name :: "string option"
  be_probe_qname :: "string option"
  be_probe_qtype :: "string option"
  be_probe_source :: "string option"
  be_transport :: "string option"

record health_check =
  hc_enabled :: bool
  hc_interval_ms :: "u32 option"
  hc_timeout_ms :: "u32 option"
  hc_rise :: "u32 option"
  hc_fall :: "u32 option"
  hc_probe_qname :: "string option"
  hc_probe_qtype :: "string option"
  hc_acceptable_rcodes :: "string list"
  hc_initial_state :: "string option"
  hc_latency_weighting :: "bool option"
  hc_min_eligible :: "u32 option"
  hc_passive_fast_trip :: "bool option"
  hc_passive_fall :: "u32 option"

record pool_cfg =
  pool_name :: string
  pool_backends :: "backend_cfg list"
  pool_sources_v4 :: "string list"
  pool_sources_v6 :: "string list"
  pool_max_inflight :: "u32 option"
  pool_health :: "health_check option"

record forward_config =
  fw_outstanding_per_backend :: u32
  fw_timeout_ms :: u32
  fw_sources_v4 :: "string list"
  fw_source_selection :: string
  fw_sources_v6 :: "string list"
  fw_upstream_transport :: string
  fw_client_tcp_uses_upstream_tcp :: bool

record config =
  cfg_pools :: "pool_cfg list"
  cfg_forward :: "forward_config option"

section \<open>Backends\<close>

definition DEFAULT_BACKEND_WEIGHT :: u32
  where "DEFAULT_BACKEND_WEIGHT = 100"

definition effective_backend_weight :: "backend_cfg \<Rightarrow> u32"
  where "effective_backend_weight b =
    (case be_weight b of Some w \<Rightarrow> w | None \<Rightarrow> DEFAULT_BACKEND_WEIGHT)"

definition backend_label :: "backend_cfg \<Rightarrow> string"
  where "backend_label b =
    (case be_name b of Some n \<Rightarrow> if n \<noteq> [] then n else be_address b | None \<Rightarrow> be_address b)"

section \<open>Forward settings\<close>

definition MAX_SOURCES_V4 :: nat
  where "MAX_SOURCES_V4 = 32"

definition MAX_SOURCES_V6 :: nat
  where "MAX_SOURCES_V6 = 32"

definition default_forward_config :: forward_config
  where "default_forward_config =
    \<lparr>fw_outstanding_per_backend = 100, fw_timeout_ms = 2000, fw_sources_v4 = [],
     fw_source_selection = ''round_robin'', fw_sources_v6 = [], fw_upstream_transport = [],
     fw_client_tcp_uses_upstream_tcp = False\<rparr>"

datatype upstream_transport = UdpOnly | TcpOnly | PreferUdpWithTcpFallback

fun upstream_transport_as_str :: "upstream_transport \<Rightarrow> string"
  where
    "upstream_transport_as_str UdpOnly = ''udp_only''"
  | "upstream_transport_as_str TcpOnly = ''tcp_only''"
  | "upstream_transport_as_str PreferUdpWithTcpFallback = ''prefer_udp_with_tcp_fallback''"

definition parse_upstream_transport :: "string \<Rightarrow> (string, upstream_transport) result"
  where "parse_upstream_transport raw =
    (let t = trim raw in
     if t = [] \<or> t = ''udp_only'' then Ok UdpOnly
     else if t = ''tcp_only'' then Ok TcpOnly
     else if t = ''prefer_udp_with_tcp_fallback'' then Ok PreferUdpWithTcpFallback
     else Err (''forward.upstream_transport '' @ squote t
       @ '' must be udp_only, tcp_only, or prefer_udp_with_tcp_fallback''))"

record compiled_forward =
  cf_sources_v4 :: "u32 list"
  cf_sources_v6 :: "128 word list"
  cf_source_selection :: string
  cf_upstream_transport :: upstream_transport
  cf_client_tcp_uses_upstream_tcp :: bool
  cf_timeout_ms :: u32
  cf_outstanding_per_backend :: u32

record compiled_pool_forward =
  cpf_sources_v4 :: "u32 list option"
  cpf_sources_v6 :: "128 word list option"

definition validate_upstream_backend_addresses :: "config \<Rightarrow> string list"
  where "validate_upstream_backend_addresses cfg =
    concat (map (\<lambda>p. concat (map (\<lambda>b.
        if parse_socket_addr (be_address b) = None
        then [''pool '' @ squote (pool_name p) @ '' backend '' @ squote (be_address b)
              @ '': invalid socket address'']
        else []) (pool_backends p))) (cfg_pools cfg))"

definition parse_sources_v4 :: "string list \<Rightarrow> (string, u32 list) result"
  where "parse_sources_v4 raw =
    (if MAX_SOURCES_V4 < length raw
     then Err (''sources_v4 has '' @ show_nat (length raw) @ '' entries; maximum is ''
       @ show_nat MAX_SOURCES_V4)
     else traverse (\<lambda>(i, s).
       if trim s = [] then Err (''sources_v4['' @ show_nat i @ ''] must not be empty'')
       else ok_or (''sources_v4['' @ show_nat i @ ''] '' @ squote s
         @ '' is not a valid IPv4 address'') (parse_ipv4_addr s)) (enumerate 0 raw))"

definition parse_sources_v6 :: "string list \<Rightarrow> (string, 128 word list) result"
  where "parse_sources_v6 raw =
    (if MAX_SOURCES_V6 < length raw
     then Err (''sources_v6 has '' @ show_nat (length raw) @ '' entries; maximum is ''
       @ show_nat MAX_SOURCES_V6)
     else traverse (\<lambda>(i, s).
       if trim s = [] then Err (''sources_v6['' @ show_nat i @ ''] must not be empty'')
       else ok_or (''sources_v6['' @ show_nat i @ ''] '' @ squote s
         @ '' is not a valid IPv6 address'') (parse_ipv6_addr s)) (enumerate 0 raw))"

text \<open>One iteration of the pool loop: the overrides of a pool, if it has any.\<close>

definition compile_pool_forward ::
  "pool_cfg \<Rightarrow> (string, compiled_pool_forward option) result"
  where "compile_pool_forward p =
    rbind (if pool_sources_v4 p \<noteq> [] then map_sum (\<lambda>e. e) Some (parse_sources_v4 (pool_sources_v4 p))
           else Ok None) (\<lambda>v4.
    rbind (if pool_sources_v6 p \<noteq> [] then map_sum (\<lambda>e. e) Some (parse_sources_v6 (pool_sources_v6 p))
           else Ok None) (\<lambda>v6.
    Ok (if v4 \<noteq> None \<or> v6 \<noteq> None
        then Some \<lparr>cpf_sources_v4 = v4, cpf_sources_v6 = v6\<rparr> else None)))"

fun compile_pools_forward ::
  "pool_cfg list \<Rightarrow> (string \<rightharpoonup> compiled_pool_forward)
    \<Rightarrow> (string, string \<rightharpoonup> compiled_pool_forward) result"
  where
    "compile_pools_forward [] acc = Ok acc"
  | "compile_pools_forward (p # ps) acc =
      rbind (compile_pool_forward p) (\<lambda>c.
        compile_pools_forward ps
          (case c of Some f \<Rightarrow> acc(pool_name p \<mapsto> f) | None \<Rightarrow> acc))"

fun join :: "string \<Rightarrow> string list \<Rightarrow> string"
  where
    "join sep [] = []"
  | "join sep [x] = x"
  | "join sep (x # y # zs) = x @ sep @ join sep (y # zs)"

definition compile_forward_from_config ::
  "config \<Rightarrow> (string, compiled_forward \<times> (string \<rightharpoonup> compiled_pool_forward)) result"
  where "compile_forward_from_config cfg =
    (let backend_errors = validate_upstream_backend_addresses cfg in
     if backend_errors \<noteq> [] then Err (join ''; '' backend_errors)
     else
       let fw = (case cfg_forward cfg of Some f \<Rightarrow> f | None \<Rightarrow> default_forward_config) in
       rbind (parse_sources_v4 (fw_sources_v4 fw)) (\<lambda>v4.
       rbind (parse_sources_v6 (fw_sources_v6 fw)) (\<lambda>v6.
       let sel = (if fw_source_selection fw = [] then ''round_robin'' else fw_source_selection fw) in
       if sel \<noteq> ''round_robin''
       then Err (''forward.source_selection '' @ squote sel @ '' must be round_robin'')
       else
         rbind (parse_upstream_transport (fw_upstream_transport fw)) (\<lambda>transport.
         rbind (compile_pools_forward (cfg_pools cfg) Map.empty) (\<lambda>pools.
         Ok (\<lparr>cf_sources_v4 = v4, cf_sources_v6 = v6, cf_source_selection = sel,
              cf_upstream_transport = transport,
              cf_client_tcp_uses_upstream_tcp = fw_client_tcp_uses_upstream_tcp fw,
              cf_timeout_ms = fw_timeout_ms fw,
              cf_outstanding_per_backend = fw_outstanding_per_backend fw\<rparr>, pools))))))"

section \<open>Health probing\<close>

definition DEFAULT_HEALTH_INTERVAL_MS :: u32
  where "DEFAULT_HEALTH_INTERVAL_MS = 1000"

definition HEALTH_INTERVAL_FLOOR_MS :: u32
  where "HEALTH_INTERVAL_FLOOR_MS = 100"

definition DEFAULT_HEALTH_RISE :: u32
  where "DEFAULT_HEALTH_RISE = 3"

definition DEFAULT_HEALTH_FALL :: u32
  where "DEFAULT_HEALTH_FALL = 2"

definition DEFAULT_HEALTH_PASSIVE_FALL :: u32
  where "DEFAULT_HEALTH_PASSIVE_FALL = 2"

definition DEFAULT_LATENCY_EWMA_ALPHA :: real
  where "DEFAULT_LATENCY_EWMA_ALPHA = 1 / 5"

definition DEFAULT_LATENCY_FLOOR :: real
  where "DEFAULT_LATENCY_FLOOR = 1 / 4"

datatype initial_health_state = Optimistic | Require1Good | RequireFullRise

fun initial_state_as_str :: "initial_health_state \<Rightarrow> string"
  where
    "initial_state_as_str Optimistic = ''optimistic''"
  | "initial_state_as_str Require1Good = ''require_1_good''"
  | "initial_state_as_str RequireFullRise = ''require_full_rise''"

definition parse_initial_state :: "string \<Rightarrow> (string, initial_health_state) result"
  where "parse_initial_state raw =
    (let t = trim raw in
     if t = [] \<or> t = ''optimistic'' then Ok Optimistic
     else if t = ''require_1_good'' then Ok Require1Good
     else if t = ''require_full_rise'' then Ok RequireFullRise
     else Err (''health.initial_state '' @ squote t
       @ '' must be optimistic, require_1_good, or require_full_rise''))"

record compiled_backend_health =
  cbh_address :: socket_addr
  cbh_name :: "string option"
  cbh_label :: string
  cbh_probe_qname :: string
  cbh_probe_qtype :: u16
  cbh_probe_source :: "ip_addr option"

record compiled_pool_health =
  cph_interval_ms :: u32
  cph_timeout_ms :: u32
  cph_rise :: u32
  cph_fall :: u32
  cph_acceptable_rcodes :: "u16 list option"
  cph_initial_state :: initial_health_state
  cph_latency_weighting :: bool
  cph_latency_ewma_alpha :: real
  cph_latency_floor :: real
  cph_min_eligible :: u32
  cph_passive_fast_trip :: bool
  cph_passive_fall :: u32
  cph_backends :: "compiled_backend_health list"

type_synonym compiled_health = "(string \<times> compiled_pool_health) list"

definition health_pool :: "compiled_health \<Rightarrow> string \<Rightarrow> compiled_pool_health option"
  where "health_pool ch p = map_of ch p"

definition resolve_backend :: "compiled_pool_health \<Rightarrow> string \<Rightarrow> socket_addr option"
  where "resolve_backend ph identifier =
    (case parse_socket_addr identifier of
       Some addr \<Rightarrow>
         if list_ex (\<lambda>b. cbh_address b = addr) (cph_backends ph) then Some addr else None
     | None \<Rightarrow>
         map_option cbh_address (find (\<lambda>b. cbh_name b = Some identifier) (cph_backends ph)))"

definition parse_qtype :: "string \<Rightarrow> (string, u16) result"
  where "parse_qtype raw = parse_name_or_err record_type raw"

definition parse_rcode :: "string \<Rightarrow> (string, u16) result"
  where "parse_rcode raw = parse_name_or_err rcode_enum raw"

definition nonempty :: "string option \<Rightarrow> string option"
  where "nonempty x = (case x of Some s \<Rightarrow> if trim s \<noteq> [] then Some s else None | None \<Rightarrow> None)"

definition or_default :: "'a option \<Rightarrow> 'a \<Rightarrow> 'a"
  where "or_default x d = (case x of Some a \<Rightarrow> a | None \<Rightarrow> d)"

definition compile_backend_health ::
  "string \<Rightarrow> string \<Rightarrow> u16 \<Rightarrow> backend_cfg \<Rightarrow> (string, compiled_backend_health) result"
  where "compile_backend_health pname pool_qname pool_qtype b =
    rbind (ok_or (''pool '' @ squote pname @ '' backend '' @ squote (be_address b)
        @ '': invalid socket address'') (parse_socket_addr (be_address b))) (\<lambda>address.
    rbind (case nonempty (be_probe_qtype b) of
        Some raw \<Rightarrow> map_err (\<lambda>e. ''pool '' @ squote pname @ '' backend '' @ squote (be_address b)
          @ '' probe_qtype: '' @ e) (parse_qtype raw)
      | None \<Rightarrow> Ok pool_qtype) (\<lambda>qtype.
    rbind (case nonempty (be_probe_source b) of
        Some raw \<Rightarrow> map_sum (\<lambda>e. e) Some (ok_or (''pool '' @ squote pname @ '' backend ''
          @ squote (be_address b) @ '' probe_source '' @ squote raw
          @ '' is not a valid IP address'') (parse_ip_addr raw))
      | None \<Rightarrow> Ok None) (\<lambda>source.
    Ok \<lparr>cbh_address = address,
        cbh_name = (case be_name b of Some n \<Rightarrow> if n \<noteq> [] then Some n else None | None \<Rightarrow> None),
        cbh_label = backend_label b,
        cbh_probe_qname = or_default (nonempty (be_probe_qname b)) pool_qname,
        cbh_probe_qtype = qtype, cbh_probe_source = source\<rparr>)))"

definition compile_pool_health :: "pool_cfg \<Rightarrow> health_check \<Rightarrow> (string, compiled_pool_health) result"
  where "compile_pool_health p hc =
    (let interval_ms = or_default (hc_interval_ms hc) DEFAULT_HEALTH_INTERVAL_MS;
         pname = pool_name p;
         pool_qname = or_default (nonempty (hc_probe_qname hc)) ''.'' in
     rbind (map_err (\<lambda>e. ''pool '' @ squote pname @ '' health.probe_qtype: '' @ e)
       (parse_qtype (or_default (nonempty (hc_probe_qtype hc)) ''NS''))) (\<lambda>pool_qtype.
     rbind (if hc_acceptable_rcodes hc = [] then Ok None
       else map_sum (\<lambda>e. e) Some (traverse (\<lambda>name.
         map_err (\<lambda>e. ''pool '' @ squote pname @ '' health.acceptable_rcodes: '' @ e)
           (parse_rcode name)) (hc_acceptable_rcodes hc))) (\<lambda>acceptable.
     rbind (map_err (\<lambda>e. ''pool '' @ squote pname @ '' '' @ e)
       (parse_initial_state (or_default (hc_initial_state hc) []))) (\<lambda>initial.
     rbind (traverse (compile_backend_health pname pool_qname pool_qtype) (pool_backends p)) (\<lambda>bs.
     Ok \<lparr>cph_interval_ms = interval_ms,
         cph_timeout_ms = or_default (hc_timeout_ms hc) interval_ms,
         cph_rise = or_default (hc_rise hc) DEFAULT_HEALTH_RISE,
         cph_fall = or_default (hc_fall hc) DEFAULT_HEALTH_FALL,
         cph_acceptable_rcodes = acceptable, cph_initial_state = initial,
         cph_latency_weighting = or_default (hc_latency_weighting hc) False,
         cph_latency_ewma_alpha = DEFAULT_LATENCY_EWMA_ALPHA,
         cph_latency_floor = DEFAULT_LATENCY_FLOOR,
         cph_min_eligible = or_default (hc_min_eligible hc) 0,
         cph_passive_fast_trip = or_default (hc_passive_fast_trip hc) True,
         cph_passive_fall = or_default (hc_passive_fall hc) DEFAULT_HEALTH_PASSIVE_FALL,
         cph_backends = bs\<rparr>)))))"

text \<open>The pool loop.  A later pool of the same name replaces an earlier one, as
  the insertion into the map does.\<close>

fun compile_health_pools :: "pool_cfg list \<Rightarrow> compiled_health \<Rightarrow> (string, compiled_health) result"
  where
    "compile_health_pools [] acc = Ok acc"
  | "compile_health_pools (p # ps) acc =
      (case pool_health p of
         None \<Rightarrow> compile_health_pools ps acc
       | Some hc \<Rightarrow>
          if \<not> hc_enabled hc then compile_health_pools ps acc
          else rbind (compile_pool_health p hc) (\<lambda>c.
            compile_health_pools ps (AList.update (pool_name p) c acc)))"

definition compile_health_from_config :: "config \<Rightarrow> (string, compiled_health) result"
  where "compile_health_from_config cfg = compile_health_pools (cfg_pools cfg) []"

definition validate_backend_health :: "string \<Rightarrow> backend_cfg \<Rightarrow> string list"
  where "validate_backend_health pname b =
    (let pre = ''pool '' @ squote pname @ '' backend '' @ squote (be_address b) in
     (case nonempty (be_probe_qtype b) of
        Some raw \<Rightarrow> err_list (map_err (\<lambda>e. pre @ '' probe_qtype: '' @ e) (parse_qtype raw))
      | None \<Rightarrow> [])
     @ (case nonempty (be_probe_source b) of
        Some raw \<Rightarrow> if parse_ip_addr raw = None
          then [pre @ '' probe_source '' @ squote raw @ '' is not a valid IP address''] else []
      | None \<Rightarrow> [])
     @ (case nonempty (be_transport b) of
        Some raw \<Rightarrow> err_list (map_err (\<lambda>e. pre @ '' transport: '' @ e)
          (parse_upstream_transport raw))
      | None \<Rightarrow> []))"

definition validate_pool_health :: "pool_cfg \<Rightarrow> health_check \<Rightarrow> string list"
  where "validate_pool_health p hc =
    (let pname = pool_name p; pre = ''pool '' @ squote pname in
     (case hc_interval_ms hc of
        Some interval \<Rightarrow> if interval < HEALTH_INTERVAL_FLOOR_MS
          then [pre @ '' health.interval_ms '' @ show_nat (unat interval) @ '' is below the 100ms floor'']
          else []
      | None \<Rightarrow> [])
     @ (if hc_timeout_ms hc = Some 0 then [pre @ '' health.timeout_ms must be >= 1 when set''] else [])
     @ (if hc_rise hc = Some 0 then [pre @ '' health.rise must be >= 1''] else [])
     @ (if hc_fall hc = Some 0 then [pre @ '' health.fall must be >= 1''] else [])
     @ (if hc_passive_fall hc = Some 0
        then [pre @ '' health.passive_fall must be >= 1 when set''] else [])
     @ (case nonempty (hc_probe_qtype hc) of
        Some raw \<Rightarrow> err_list (map_err (\<lambda>e. pre @ '' health.probe_qtype: '' @ e) (parse_qtype raw))
      | None \<Rightarrow> [])
     @ concat (map (\<lambda>name. err_list (map_err (\<lambda>e. pre @ '' health.acceptable_rcodes: '' @ e)
         (parse_rcode name))) (hc_acceptable_rcodes hc))
     @ (case hc_initial_state hc of
        Some raw \<Rightarrow> err_list (map_err (\<lambda>e. pre @ '' '' @ e) (parse_initial_state raw))
      | None \<Rightarrow> [])
     @ concat (map (validate_backend_health pname) (pool_backends p)))"

definition validate_health :: "config \<Rightarrow> string list"
  where "validate_health cfg =
    concat (map (\<lambda>p. case pool_health p of Some hc \<Rightarrow> validate_pool_health p hc | None \<Rightarrow> [])
      (cfg_pools cfg))"

section \<open>What validates compiles\<close>

text \<open>The documented ranges of a compiled pool.\<close>

definition pool_health_in_range :: "compiled_pool_health \<Rightarrow> bool"
  where "pool_health_in_range c \<longleftrightarrow>
    HEALTH_INTERVAL_FLOOR_MS \<le> cph_interval_ms c \<and> 1 \<le> cph_timeout_ms c \<and>
    1 \<le> cph_rise c \<and> 1 \<le> cph_fall c \<and> 1 \<le> cph_passive_fall c"

lemma parse_ns: "\<exists>n. parse_qtype ''NS'' = Ok n"
proof -
  have "name_for record_type 2 = ''NS''"
    by (simp add: name_for_def record_type_def KNOWN_RECORD_TYPES_def)
  then have "parse_name record_type ''NS'' = Some 2"
    using enum_round_trip [of record_type 2] by (simp add: tables_ok record_type_def)
  then show ?thesis
    by (simp add: parse_qtype_def parse_name_or_err_def)
qed

lemma parse_initial_empty [simp]: "parse_initial_state [] = Ok Optimistic"
  by (simp add: parse_initial_state_def trim_def trim_start_def trim_end_def)

lemma backend_health_compiles:
  assumes "validate_backend_health pname b = []" "parse_socket_addr (be_address b) \<noteq> None"
  shows "\<exists>c. compile_backend_health pname q t b = Ok c"
proof -
  obtain a where a: "parse_socket_addr (be_address b) = Some a"
    using assms(2) by blast
  have qt: "\<forall>raw. nonempty (be_probe_qtype b) = Some raw \<longrightarrow> (\<exists>n. parse_qtype raw = Ok n)"
    and src: "\<forall>raw. nonempty (be_probe_source b) = Some raw \<longrightarrow> (\<exists>i. parse_ip_addr raw = Some i)"
    using assms(1) by (auto simp: validate_backend_health_def Let_def split: if_splits)
  show ?thesis
    using a qt src
    by (cases "nonempty (be_probe_qtype b)"; cases "nonempty (be_probe_source b)")
       (auto simp: compile_backend_health_def ok_or_def)
qed

lemma pool_health_compiles:
  assumes "validate_pool_health p hc = []"
    and addrs: "\<forall>b \<in> set (pool_backends p). parse_socket_addr (be_address b) \<noteq> None"
  shows "\<exists>c. compile_pool_health p hc = Ok c \<and> pool_health_in_range c"
proof -
  note v = assms(1) [unfolded validate_pool_health_def Let_def append_is_Nil_conv]
  have qt: "\<exists>n. parse_qtype (or_default (nonempty (hc_probe_qtype hc)) ''NS'') = Ok n"
    using v parse_ns by (cases "nonempty (hc_probe_qtype hc)") (auto simp: or_default_def)
  have rc: "\<exists>ns. traverse (\<lambda>name. map_err f (parse_rcode name)) (hc_acceptable_rcodes hc) = Ok ns"
    for f :: "string \<Rightarrow> string"
    using v by (auto simp: traverse_Ok_iff)
  have init: "\<exists>i. parse_initial_state (or_default (hc_initial_state hc) []) = Ok i"
    using v by (cases "hc_initial_state hc") (auto simp: or_default_def)
  have bs: "\<exists>bs. traverse (compile_backend_health n q t) (pool_backends p) = Ok bs"
    if "n = pool_name p" for n q t
    using v addrs that backend_health_compiles by (fastforce simp: traverse_Ok_iff)
  have interval: "\<not> i < HEALTH_INTERVAL_FLOOR_MS" if "hc_interval_ms hc = Some i" for i
    using v that by (auto split: if_splits)
  have nz: "hc_timeout_ms hc \<noteq> Some 0" "hc_rise hc \<noteq> Some 0" "hc_fall hc \<noteq> Some 0"
    "hc_passive_fall hc \<noteq> Some 0"
    using v by (auto split: if_splits)
  have range: "HEALTH_INTERVAL_FLOOR_MS \<le> or_default (hc_interval_ms hc) DEFAULT_HEALTH_INTERVAL_MS"
    "1 \<le> or_default (hc_timeout_ms hc) (or_default (hc_interval_ms hc) DEFAULT_HEALTH_INTERVAL_MS)"
    "1 \<le> or_default (hc_rise hc) DEFAULT_HEALTH_RISE"
    "1 \<le> or_default (hc_fall hc) DEFAULT_HEALTH_FALL"
    "1 \<le> or_default (hc_passive_fall hc) DEFAULT_HEALTH_PASSIVE_FALL"
    using interval nz
    by (auto simp: or_default_def DEFAULT_HEALTH_INTERVAL_MS_def HEALTH_INTERVAL_FLOOR_MS_def
        DEFAULT_HEALTH_RISE_def DEFAULT_HEALTH_FALL_def DEFAULT_HEALTH_PASSIVE_FALL_def
        one_le_word_iff not_less split: option.splits)
  obtain n where n: "parse_qtype (or_default (nonempty (hc_probe_qtype hc)) ''NS'') = Ok n"
    using qt by blast
  obtain i where i: "parse_initial_state (or_default (hc_initial_state hc) []) = Ok i"
    using init by blast
  show ?thesis
    using n i rc [of "\<lambda>e. ''pool '' @ squote (pool_name p) @ '' health.acceptable_rcodes: '' @ e"]
      bs [OF refl, of "or_default (nonempty (hc_probe_qname hc)) ''.''" n] range
    by (auto simp: compile_pool_health_def Let_def pool_health_in_range_def)
qed

lemma snd_update_subset: "snd ` set (AList.update k v al) \<subseteq> insert v (snd ` set al)"
  by (induction al) auto

lemma update_range:
  "\<forall>x \<in> snd ` set al. P x \<Longrightarrow> P v \<Longrightarrow> \<forall>x \<in> snd ` set (AList.update k v al). P x"
  using snd_update_subset [of k v al] by blast

lemma health_pools_compile:
  assumes "\<forall>p \<in> set ps. \<forall>hc. pool_health p = Some hc \<longrightarrow> validate_pool_health p hc = []"
    and "\<forall>p \<in> set ps. \<forall>b \<in> set (pool_backends p). parse_socket_addr (be_address b) \<noteq> None"
    and "\<forall>c \<in> snd ` set acc. pool_health_in_range c"
  shows "\<exists>ch. compile_health_pools ps acc = Ok ch \<and> (\<forall>c \<in> snd ` set ch. pool_health_in_range c)"
  using assms
proof (induction ps arbitrary: acc)
  case (Cons p ps)
  show ?case
  proof (cases "pool_health p")
    case None
    then show ?thesis
      using Cons by simp
  next
    case (Some hc)
    obtain c where c: "compile_pool_health p hc = Ok c" "pool_health_in_range c"
      using pool_health_compiles [of p hc] Cons.prems Some by auto
    show ?thesis
      using Some c Cons.prems Cons.IH [of acc] Cons.IH [of "AList.update (pool_name p) c acc"]
        update_range [OF Cons.prems(3) c(2), of "pool_name p"] by (auto simp del: image_iff)
  qed
qed simp

text \<open>C31: a configuration that passes the validation of backend addresses and
  health blocks compiles, so that building a snapshot from it does not panic,
  and every compiled pool is in the documented ranges: an interval of at least
  100 ms, a timeout, rise, fall and passive fall of at least one.\<close>

theorem valid_health_config_compiles:
  assumes "validate_upstream_backend_addresses cfg = []" and "validate_health cfg = []"
  shows "\<exists>ch. compile_health_from_config cfg = Ok ch \<and>
    list_all (\<lambda>(n, c). pool_health_in_range c) ch"
proof -
  have addrs: "\<forall>p \<in> set (cfg_pools cfg). \<forall>b \<in> set (pool_backends p).
      parse_socket_addr (be_address b) \<noteq> None"
    using assms(1) unfolding validate_upstream_backend_addresses_def concat_map_Nil
    by (metis list.distinct(1))
  have valid: "\<forall>p \<in> set (cfg_pools cfg). \<forall>hc. pool_health p = Some hc \<longrightarrow>
      validate_pool_health p hc = []"
  proof (intro ballI allI impI)
    fix p hc assume p: "p \<in> set (cfg_pools cfg)" "pool_health p = Some hc"
    have "(case pool_health p of Some hc \<Rightarrow> validate_pool_health p hc | None \<Rightarrow> []) = []"
      using assms(2) p(1) unfolding validate_health_def concat_map_Nil by blast
    then show "validate_pool_health p hc = []"
      using p(2) by simp
  qed
  obtain ch where "compile_health_pools (cfg_pools cfg) [] = Ok ch"
      "\<forall>c \<in> snd ` set ch. pool_health_in_range c"
    using health_pools_compile [OF valid addrs, of "[]"] by auto
  then show ?thesis
    by (auto simp: compile_health_from_config_def list_all_iff)
qed

theorem valid_health_config_compiles_witness:
  "\<exists>ch. compile_health_from_config \<lparr>cfg_pools = [\<lparr>pool_name = ''default'', pool_backends =
      [\<lparr>be_address = ''192.0.2.1:53'', be_weight = None, be_name = None, be_probe_qname = None,
        be_probe_qtype = None, be_probe_source = None, be_transport = None\<rparr>],
      pool_sources_v4 = [], pool_sources_v6 = [], pool_max_inflight = None,
      pool_health = Some \<lparr>hc_enabled = True, hc_interval_ms = Some 500, hc_timeout_ms = None,
        hc_rise = None, hc_fall = None, hc_probe_qname = None, hc_probe_qtype = None,
        hc_acceptable_rcodes = [], hc_initial_state = None, hc_latency_weighting = None,
        hc_min_eligible = None, hc_passive_fast_trip = None, hc_passive_fall = None\<rparr>\<rparr>],
      cfg_forward = None\<rparr> = Ok ch \<and> list_all (\<lambda>(n, c). pool_health_in_range c) ch"
proof (rule valid_health_config_compiles, goal_cases)
  case 1
  then show ?case
    by (simp add: validate_upstream_backend_addresses_def net_eval)
next
  case 2
  then show ?case
    by (simp add: validate_health_def validate_pool_health_def validate_backend_health_def
        nonempty_def HEALTH_INTERVAL_FLOOR_MS_def)
qed

end
