(* ===== verification/Txn_Table.thy ===== *)
theory Txn_Table
  imports Config "HOL-Library.Multiset"
begin

text \<open>
  The table of outstanding upstream queries (\<open>TxnTable\<close>,
  \<open>crates/conduit-dataplane/src/forward/txn_table.rs\<close>) and the per-pool limit
  on concurrent forwards (\<open>PoolInflight\<close>, \<open>pool_inflight.rs\<close>).

  Every operation of the table takes the lock on the entries first and keeps it,
  so operations are atomic and a concurrent run is a sequence of them.  The hash
  maps are association lists with distinct keys: the code reads their lengths
  and iterates over them.

  What is shown: the per-backend counters are exactly the numbers of outstanding
  keys in every reachable table; the search for a free identifier finds one
  whenever the limits allow it; the table is a finite map for its clients, which
  use it through the interface \<open>demux_table\<close> only.
\<close>

section \<open>The table\<close>

record forward_key =
  fk_backend :: socket_addr
  fk_dns_id :: u16

definition rewrite_dns_id :: "u16 \<Rightarrow> bytes \<Rightarrow> bytes"
  where "rewrite_dns_id i wire =
    (if 2 \<le> length wire
     then wire[0 := ucast (drop_bit 8 i), 1 := ucast i] else wire)"

record txn_table =
  tt_capacity :: nat
  tt_per_backend_limit :: u32
  tt_entries :: "(forward_key \<times> u64) list"
  tt_per_backend :: "(socket_addr \<times> u32) list"
  tt_next_dns_id :: u16

definition txn_table_new :: "nat \<Rightarrow> u32 \<Rightarrow> txn_table"
  where "txn_table_new capacity per_backend_limit =
    \<lparr>tt_capacity = capacity, tt_per_backend_limit = per_backend_limit, tt_entries = [],
     tt_per_backend = [], tt_next_dns_id = 0\<rparr>"

definition tt_lookup :: "txn_table \<Rightarrow> forward_key \<Rightarrow> u64 option"
  where "tt_lookup t key = map_of (tt_entries t) key"

text \<open>\<open>counts.entry(backend).or_insert(0)\<close>: the entry appears even if the
  registration is then refused.\<close>

definition entry_or_zero :: "'k \<Rightarrow> ('k \<times> u32) list \<Rightarrow> u32 \<times> ('k \<times> u32) list"
  where "entry_or_zero k counts =
    (case map_of counts k of Some c \<Rightarrow> (c, counts) | None \<Rightarrow> (0, AList.update k 0 counts))"

definition tt_insert :: "forward_key \<Rightarrow> u64 \<Rightarrow> u32 \<Rightarrow> txn_table \<Rightarrow> txn_table"
  where "tt_insert key txn c t =
    t\<lparr>tt_per_backend := AList.update (fk_backend key) (c + 1) (tt_per_backend t),
      tt_entries := AList.update key txn (tt_entries t)\<rparr>"

definition tt_register :: "forward_key \<Rightarrow> u64 \<Rightarrow> txn_table \<Rightarrow> bool \<times> txn_table"
  where "tt_register key txn t =
    (if tt_capacity t \<le> length (tt_entries t) then (False, t)
     else if tt_lookup t key \<noteq> None then (False, t)
     else
       let (c, counts) = entry_or_zero (fk_backend key) (tt_per_backend t);
           t1 = t\<lparr>tt_per_backend := counts\<rparr> in
       if tt_per_backend_limit t \<le> c then (False, t1)
       else (True, tt_insert key txn c t1))"

text \<open>The loop over \<open>0..=u16::MAX\<close>, from \<open>offset\<close> on.\<close>

function free_key ::
  "(forward_key \<times> u64) list \<Rightarrow> socket_addr \<Rightarrow> u16 \<Rightarrow> nat \<Rightarrow> forward_key option"
  where "free_key entries backend start offset =
    (if 65535 < offset then None
     else
       let key = \<lparr>fk_backend = backend, fk_dns_id = start + of_nat offset\<rparr> in
       if map_of entries key \<noteq> None then free_key entries backend start (offset + 1)
       else Some key)"
  by pat_completeness auto
termination
  by (relation "measure (\<lambda>(entries, backend, start, offset). 65536 - offset)") auto

declare free_key.simps [simp del]

definition tt_register_unique ::
  "socket_addr \<Rightarrow> u64 \<Rightarrow> txn_table \<Rightarrow> forward_key option \<times> txn_table"
  where "tt_register_unique backend txn t =
    (if tt_capacity t \<le> length (tt_entries t) then (None, t)
     else
       let (c, counts) = entry_or_zero backend (tt_per_backend t);
           t1 = t\<lparr>tt_per_backend := counts\<rparr> in
       if tt_per_backend_limit t \<le> c then (None, t1)
       else
         let start = tt_next_dns_id t;
             t2 = t1\<lparr>tt_next_dns_id := start + 1\<rparr> in
         case free_key (tt_entries t) backend start 0 of
           Some key \<Rightarrow> (Some key, tt_insert key txn c t2)
         | None \<Rightarrow> (None, t2))"

definition tt_remove :: "forward_key \<Rightarrow> txn_table \<Rightarrow> txn_table"
  where "tt_remove key t =
    (if tt_lookup t key \<noteq> None
     then
       let t1 = t\<lparr>tt_entries := AList.delete key (tt_entries t)\<rparr> in
       case map_of (tt_per_backend t) (fk_backend key) of
         Some c \<Rightarrow> t1\<lparr>tt_per_backend :=
           AList.update (fk_backend key) (sat_sub c 1) (tt_per_backend t)\<rparr>
       | None \<Rightarrow> t1
     else t)"

definition outstanding_per_backend :: "txn_table \<Rightarrow> (socket_addr \<times> u32) list"
  where "outstanding_per_backend t = filter (\<lambda>(_, c). 0 < c) (tt_per_backend t)"

section \<open>The invariant\<close>

definition outstanding :: "txn_table \<Rightarrow> socket_addr \<Rightarrow> nat"
  where "outstanding t b = length (filter (\<lambda>e. fk_backend (fst e) = b) (tt_entries t))"

definition backend_count :: "txn_table \<Rightarrow> socket_addr \<Rightarrow> u32"
  where "backend_count t b = fst (entry_or_zero b (tt_per_backend t))"

definition tt_inv :: "txn_table \<Rightarrow> bool"
  where "tt_inv t \<longleftrightarrow>
    distinct (map fst (tt_entries t)) \<and> length (tt_entries t) \<le> tt_capacity t
    \<and> distinct (map fst (tt_per_backend t))
    \<and> (\<forall>b. unat (backend_count t b) = outstanding t b)
    \<and> (\<forall>b. outstanding t b \<le> unat (tt_per_backend_limit t))"

datatype table_op = OpRegister forward_key u64 | OpRegisterUnique socket_addr u64
  | OpRemove forward_key

fun table_exec :: "table_op \<Rightarrow> txn_table \<Rightarrow> txn_table"
  where
    "table_exec (OpRegister key txn) t = snd (tt_register key txn t)"
  | "table_exec (OpRegisterUnique b txn) t = snd (tt_register_unique b txn t)"
  | "table_exec (OpRemove key) t = tt_remove key t"

definition table_run :: "table_op list \<Rightarrow> txn_table \<Rightarrow> txn_table"
  where "table_run ops t = fold table_exec ops t"

section \<open>Association lists\<close>

lemma alist_update_new: "map_of al k = None \<Longrightarrow> AList.update k v al = al @ [(k, v)]"
  by (induction al) (auto split: if_splits)

lemma length_filter_delete:
  assumes "distinct (map fst al)" "map_of al k \<noteq> None"
  shows "length (filter (\<lambda>e. P (fst e)) al)
    = length (filter (\<lambda>e. P (fst e)) (AList.delete k al)) + (if P k then 1 else 0)"
  using assms
proof (induction al)
  case (Cons e al)
  show ?case
  proof (cases "fst e = k")
    case True
    then have "AList.delete k al = al"
      using Cons.prems(1) by auto
    then show ?thesis
      using True by (cases e) simp
  next
    case False
    then show ?thesis
      using Cons by (cases e) auto
  qed
qed simp

lemma entry_or_zero_snd:
  "map_of (snd (entry_or_zero k al)) = (map_of al)(k \<mapsto> fst (entry_or_zero k al))"
  by (auto simp: entry_or_zero_def update_conv' split: option.splits)

lemma entry_or_zero_distinct:
  "distinct (map fst al) \<Longrightarrow> distinct (map fst (snd (entry_or_zero k al)))"
  by (auto simp: entry_or_zero_def distinct_update split: option.splits)

lemma fst_entry_or_zero: "fst (entry_or_zero k al) = (case map_of al k of Some c \<Rightarrow> c | None \<Rightarrow> 0)"
  by (auto simp: entry_or_zero_def split: option.splits)

section \<open>Preservation of the invariant\<close>

lemma backend_count_alt:
  "backend_count t b = (case map_of (tt_per_backend t) b of Some c \<Rightarrow> c | None \<Rightarrow> 0)"
  by (simp add: backend_count_def fst_entry_or_zero)

lemma tt_lookup_new [simp]: "tt_lookup (txn_table_new capacity limit) = Map.empty"
  by (simp add: fun_eq_iff tt_lookup_def txn_table_new_def)

lemma tt_inv_new [simp]: "tt_inv (txn_table_new capacity limit)"
  by (simp add: tt_inv_def txn_table_new_def backend_count_alt outstanding_def)

text \<open>Allocating the counter of a backend, and advancing the identifier, change nothing
  that the invariant sees.\<close>

lemma tt_inv_counts:
  assumes "tt_inv t"
  shows "tt_inv (t\<lparr>tt_per_backend := snd (entry_or_zero b (tt_per_backend t))\<rparr>)"
    and "backend_count (t\<lparr>tt_per_backend := snd (entry_or_zero b (tt_per_backend t))\<rparr>) b'
      = backend_count t b'"
proof -
  show count: "backend_count (t\<lparr>tt_per_backend := snd (entry_or_zero b (tt_per_backend t))\<rparr>) b'
      = backend_count t b'" for b'
    by (simp add: backend_count_alt entry_or_zero_snd fst_entry_or_zero split: option.splits)
  show "tt_inv (t\<lparr>tt_per_backend := snd (entry_or_zero b (tt_per_backend t))\<rparr>)"
    using assms by (simp add: tt_inv_def count entry_or_zero_distinct outstanding_def)
qed

lemma tt_inv_next_id [simp]: "tt_inv (t\<lparr>tt_next_dns_id := i\<rparr>) = tt_inv t"
  by (simp add: tt_inv_def backend_count_def outstanding_def)

lemma tt_lookup_simps [simp]:
  "tt_lookup (t\<lparr>tt_per_backend := cs\<rparr>) = tt_lookup t"
  "tt_lookup (t\<lparr>tt_next_dns_id := i\<rparr>) = tt_lookup t"
  "tt_lookup (tt_insert key txn c t) = (tt_lookup t)(key \<mapsto> txn)"
  by (auto simp: fun_eq_iff tt_lookup_def tt_insert_def update_conv')

lemma tt_insert_fields [simp]:
  "tt_capacity (tt_insert key txn c t) = tt_capacity t"
  "tt_per_backend_limit (tt_insert key txn c t) = tt_per_backend_limit t"
  "tt_per_backend (tt_insert key txn c t) = AList.update (fk_backend key) (c + 1) (tt_per_backend t)"
  by (simp_all add: tt_insert_def)

lemma outstanding_insert:
  "tt_lookup t key = None \<Longrightarrow>
   outstanding (tt_insert key txn c t) b = outstanding t b + (if fk_backend key = b then 1 else 0)"
  by (simp add: outstanding_def tt_insert_def tt_lookup_def alist_update_new)

lemma backend_count_insert:
  "backend_count (tt_insert key txn c t) b
     = (if b = fk_backend key then c + 1 else backend_count t b)"
  by (simp add: backend_count_alt tt_insert_def update_conv')

lemma tt_inv_insert:
  assumes "tt_inv t" "tt_lookup t key = None" "length (tt_entries t) < tt_capacity t"
    and "backend_count t (fk_backend key) < tt_per_backend_limit t"
  shows "tt_inv (tt_insert key txn (backend_count t (fk_backend key)) t)"
proof -
  let ?t' = "tt_insert key txn (backend_count t (fk_backend key)) t"
  have len: "tt_entries ?t' = tt_entries t @ [(key, txn)]"
    using assms(2) by (simp add: tt_insert_def tt_lookup_def alist_update_new)
  have "key \<notin> fst ` set (tt_entries t)"
    using assms(2) by (simp add: tt_lookup_def map_of_eq_None_iff)
  moreover have "unat (backend_count t (fk_backend key) + 1) = outstanding t (fk_backend key) + 1"
    using assms(1,4) unat_plus_1 [of "backend_count t (fk_backend key)"]
      unat_u32_less [of "tt_per_backend_limit t"]
    by (simp add: tt_inv_def word_less_nat_alt)
  moreover have "outstanding t (fk_backend key) + 1 \<le> unat (tt_per_backend_limit t)"
    using assms(1,4) by (simp add: tt_inv_def word_less_nat_alt)
  ultimately show ?thesis
    using assms len
    by (auto simp: tt_inv_def outstanding_insert backend_count_insert distinct_update)
qed

lemma tt_register_cases:
  obtains (refused) t1 where "tt_register key txn t = (False, t1)" "tt_inv t \<longrightarrow> tt_inv t1"
      "tt_lookup t1 = tt_lookup t" "tt_capacity t1 = tt_capacity t"
      "tt_per_backend_limit t1 = tt_per_backend_limit t"
  | (accepted) t1 where "tt_register key txn t = (True, t1)" "tt_inv t \<longrightarrow> tt_inv t1"
      "tt_lookup t key = None" "tt_lookup t1 = (tt_lookup t)(key \<mapsto> txn)"
      "tt_capacity t1 = tt_capacity t" "tt_per_backend_limit t1 = tt_per_backend_limit t"
proof -
  let ?u = "t\<lparr>tt_per_backend := snd (entry_or_zero (fk_backend key) (tt_per_backend t))\<rparr>"
  let ?c = "backend_count t (fk_backend key)"
  have u: "tt_inv t \<Longrightarrow> tt_inv ?u" "tt_inv t \<Longrightarrow> backend_count ?u (fk_backend key) = ?c"
    by (simp_all add: tt_inv_counts)
  have reg: "tt_register key txn t =
      (if tt_capacity t \<le> length (tt_entries t) \<or> tt_lookup t key \<noteq> None then (False, t)
       else if tt_per_backend_limit t \<le> ?c then (False, ?u) else (True, tt_insert key txn ?c ?u))"
    by (simp add: tt_register_def backend_count_def split_beta Let_def)
  consider "tt_capacity t \<le> length (tt_entries t) \<or> tt_lookup t key \<noteq> None"
    | "\<not> (tt_capacity t \<le> length (tt_entries t) \<or> tt_lookup t key \<noteq> None)"
        "tt_per_backend_limit t \<le> ?c"
    | "\<not> (tt_capacity t \<le> length (tt_entries t) \<or> tt_lookup t key \<noteq> None)"
        "\<not> tt_per_backend_limit t \<le> ?c"
    by blast
  then show ?thesis
  proof cases
    case 1
    then show ?thesis
      using refused [of t] reg by simp
  next
    case 2
    then show ?thesis
      using refused [of ?u] reg u by simp
  next
    case 3
    have "tt_inv t \<longrightarrow> tt_inv (tt_insert key txn ?c ?u)"
      using tt_inv_insert [of ?u key txn] u 3 by auto
    then show ?thesis
      using accepted [of "tt_insert key txn ?c ?u"] reg 3 by simp
  qed
qed

section \<open>The search for a free identifier\<close>

lemma free_key_Some:
  "free_key entries b start offset = Some key \<Longrightarrow> map_of entries key = None \<and> fk_backend key = b"
proof (induction entries b start offset rule: free_key.induct)
  case (1 entries b start offset)
  from "1.prems" show ?case
    by (subst (asm) free_key.simps)
      (use "1.IH" in \<open>auto simp: Let_def simp del: not_None_eq split: if_splits\<close>)
qed

lemma free_key_None:
  assumes "free_key entries b start offset = None" "offset \<le> n" "n \<le> 65535"
  shows "map_of entries \<lparr>fk_backend = b, fk_dns_id = start + of_nat n\<rparr> \<noteq> None"
  using assms
proof (induction entries b start offset rule: free_key.induct)
  case (1 entries b start offset)
  let ?key = "\<lparr>fk_backend = b, fk_dns_id = start + of_nat offset\<rparr>"
  have used: "map_of entries ?key \<noteq> None"
    using "1.prems"(1) by (rule_tac ccontr) (subst (asm) free_key.simps, use "1.prems" in auto)
  then have rest: "free_key entries b start (offset + 1) = None"
    using "1.prems" by (subst (asm) free_key.simps) (auto simp: Let_def)
  show ?case
  proof (cases "offset = n")
    case True
    then show ?thesis
      using used by simp
  next
    case False
    then show ?thesis
      using "1.IH" [OF _ refl used rest] "1.prems" by auto
  qed
qed

lemma free_key_exhausted:
  assumes "free_key entries b start 0 = None"
  shows "map_of entries \<lparr>fk_backend = b, fk_dns_id = i\<rparr> \<noteq> None"
proof -
  have "map_of entries \<lparr>fk_backend = b, fk_dns_id = start + of_nat (unat (i - start))\<rparr> \<noteq> None"
    by (rule free_key_None [OF assms]) (simp_all add: unat_u16_le)
  then show ?thesis
    by simp
qed

lemma forward_key_inj: "inj (\<lambda>i. \<lparr>fk_backend = b, fk_dns_id = i\<rparr>)"
  by (rule injI) simp

lemma card_u16: "card (UNIV :: u16 set) = 65536"
  by (simp add: card_word)

lemma outstanding_card:
  assumes "tt_inv t"
  shows "outstanding t b = card {k \<in> fst ` set (tt_entries t). fk_backend k = b}"
proof -
  let ?ks = "filter (\<lambda>k. fk_backend k = b) (map fst (tt_entries t))"
  have "distinct ?ks"
    using assms by (simp add: tt_inv_def)
  then have "card (set ?ks) = length ?ks"
    by (rule distinct_card)
  moreover have "length ?ks = outstanding t b"
    by (simp add: outstanding_def filter_map comp_def)
  ultimately show ?thesis
    by (simp add: Collect_conj_eq)
qed

lemma free_key_Some_iff:
  assumes "tt_inv t"
  shows "(\<exists>key. free_key (tt_entries t) b start 0 = Some key) \<longleftrightarrow> outstanding t b < 65536"
proof -
  let ?K = "{k \<in> fst ` set (tt_entries t). fk_backend k = b}"
  let ?all = "range (\<lambda>i. \<lparr>fk_backend = b, fk_dns_id = i\<rparr>)"
  have sub: "?K \<subseteq> ?all"
    by (auto intro: rangeI [where f = "\<lambda>i. \<lparr>fk_backend = b, fk_dns_id = i\<rparr>"])
      (metis (full_types) forward_key.cases forward_key.select_convs(1) rangeI)
  have all: "card ?all = 65536"
    by (simp add: card_image forward_key_inj card_u16)
  have fin: "finite ?all"
    by simp
  show ?thesis
  proof (cases "free_key (tt_entries t) b start 0")
    case None
    then have "?all \<subseteq> ?K"
      using free_key_exhausted [OF None] by (fastforce simp: map_of_eq_None_iff)
    then have "outstanding t b = 65536"
      using sub all outstanding_card [OF assms] by (simp add: subset_antisym)
    then show ?thesis
      using None by simp
  next
    case (Some key)
    then have "key \<notin> ?K" "key \<in> ?all"
      using free_key_Some [OF Some] by (auto simp: map_of_eq_None_iff)
        (metis (full_types) forward_key.cases forward_key.select_convs(1) rangeI)
    then have "?K \<subset> ?all"
      using sub by blast
    then have "card ?K < card ?all"
      using psubset_card_mono [OF fin] by blast
    then show ?thesis
      using Some all outstanding_card [OF assms] by simp
  qed
qed

section \<open>Registration and removal\<close>

lemma tt_register_unique_cases:
  obtains (refused) t1 where "tt_register_unique b txn t = (None, t1)" "tt_inv t \<longrightarrow> tt_inv t1"
      "tt_lookup t1 = tt_lookup t"
      "tt_inv t \<longrightarrow> tt_capacity t \<le> length (tt_entries t)
         \<or> unat (tt_per_backend_limit t) \<le> outstanding t b \<or> 65536 \<le> outstanding t b"
      "tt_capacity t1 = tt_capacity t" "tt_per_backend_limit t1 = tt_per_backend_limit t"
  | (accepted) key t1 where "tt_register_unique b txn t = (Some key, t1)" "tt_inv t \<longrightarrow> tt_inv t1"
      "fk_backend key = b" "tt_lookup t key = None" "tt_lookup t1 = (tt_lookup t)(key \<mapsto> txn)"
      "tt_inv t \<longrightarrow> length (tt_entries t) < tt_capacity t
         \<and> outstanding t b < unat (tt_per_backend_limit t) \<and> outstanding t b < 65536"
      "tt_capacity t1 = tt_capacity t" "tt_per_backend_limit t1 = tt_per_backend_limit t"
proof -
  define u where "u = t\<lparr>tt_per_backend := snd (entry_or_zero b (tt_per_backend t))\<rparr>"
  define w where "w = u\<lparr>tt_next_dns_id := tt_next_dns_id t + 1\<rparr>"
  let ?c = "backend_count t b"
  have u [simp]: "tt_inv t \<Longrightarrow> tt_inv u" "tt_lookup u = tt_lookup t"
    "tt_capacity u = tt_capacity t" "tt_per_backend_limit u = tt_per_backend_limit t"
    by (simp_all add: tt_inv_counts u_def)
  have cw: "tt_inv t \<Longrightarrow> backend_count w b = ?c"
    by (simp add: w_def u_def tt_inv_counts backend_count_alt entry_or_zero_snd fst_entry_or_zero
        split: option.splits)
  have w [simp]: "tt_inv t \<Longrightarrow> tt_inv w" "tt_lookup w = tt_lookup t"
    "tt_entries w = tt_entries t" "tt_capacity w = tt_capacity t"
    "tt_per_backend_limit w = tt_per_backend_limit t"
    by (simp_all add: w_def) (simp add: u_def)
  have c: "tt_inv t \<Longrightarrow> (tt_per_backend_limit t \<le> ?c) = (unat (tt_per_backend_limit t) \<le> outstanding t b)"
    by (simp add: tt_inv_def word_le_nat_alt)
  have reg: "tt_register_unique b txn t =
      (if tt_capacity t \<le> length (tt_entries t) then (None, t)
       else if tt_per_backend_limit t \<le> ?c then (None, u)
       else case free_key (tt_entries t) b (tt_next_dns_id t) 0 of
         Some key \<Rightarrow> (Some key, tt_insert key txn ?c w) | None \<Rightarrow> (None, w))"
    unfolding tt_register_unique_def backend_count_def u_def w_def
    by (simp add: split_beta Let_def)
  consider "tt_capacity t \<le> length (tt_entries t)"
    | "\<not> tt_capacity t \<le> length (tt_entries t)" "tt_per_backend_limit t \<le> ?c"
    | "\<not> tt_capacity t \<le> length (tt_entries t)" "\<not> tt_per_backend_limit t \<le> ?c"
        "free_key (tt_entries t) b (tt_next_dns_id t) 0 = None"
    | key where "\<not> tt_capacity t \<le> length (tt_entries t)" "\<not> tt_per_backend_limit t \<le> ?c"
        "free_key (tt_entries t) b (tt_next_dns_id t) 0 = Some key"
    by fastforce
  then show ?thesis
  proof cases
    case 1
    then show ?thesis
      using refused [of t] reg by simp
  next
    case 2
    then show ?thesis
      using refused [of u] reg c by simp
  next
    case 3
    then have "tt_inv t \<longrightarrow> 65536 \<le> outstanding t b"
      using free_key_Some_iff [of t b "tt_next_dns_id t"] by (auto simp: not_less)
    then show ?thesis
      by (intro refused [of w]) (use 3 reg in auto)
  next
    case (4 key)
    have key: "tt_lookup t key = None" "fk_backend key = b"
      using free_key_Some [OF 4(3)] by (auto simp: tt_lookup_def)
    have "tt_inv t \<longrightarrow> tt_inv (tt_insert key txn ?c w)"
      using tt_inv_insert [of w key txn] cw key 4 by auto
    moreover have "tt_inv t \<longrightarrow> outstanding t b < unat (tt_per_backend_limit t)
        \<and> outstanding t b < 65536"
      using c 4 free_key_Some_iff [of t b "tt_next_dns_id t"] by (simp add: not_le)
    ultimately show ?thesis
      by (intro accepted [of key "tt_insert key txn ?c w"]) (use 4 reg key in auto)
  qed
qed

lemma tt_remove_lookup [simp]: "tt_lookup (tt_remove key t) = (tt_lookup t)(key := None)"
  by (auto simp: fun_eq_iff tt_remove_def tt_lookup_def Let_def delete_conv' split: option.splits)

lemma tt_remove_limits [simp]:
  "tt_capacity (tt_remove key t) = tt_capacity t"
  "tt_per_backend_limit (tt_remove key t) = tt_per_backend_limit t"
  by (auto simp: tt_remove_def Let_def split: option.splits)

lemma tt_remove_inv:
  assumes "tt_inv t"
  shows "tt_inv (tt_remove key t)"
proof (cases "tt_lookup t key = None")
  case True
  then show ?thesis
    using assms by (simp add: tt_remove_def)
next
  case False
  let ?b = "fk_backend key"
  have out: "outstanding t b = length (filter (\<lambda>e. fk_backend (fst e) = b)
      (AList.delete key (tt_entries t))) + (if ?b = b then 1 else 0)" for b
    using assms False length_filter_delete [of "tt_entries t" key "\<lambda>k. fk_backend k = b"]
    by (simp add: outstanding_def tt_inv_def tt_lookup_def)
  have "unat (backend_count t ?b) = outstanding t ?b"
    using assms by (simp add: tt_inv_def)
  then have "backend_count t ?b \<noteq> 0"
    using out [of ?b] by auto
  then obtain c where c: "map_of (tt_per_backend t) ?b = Some c" "c = backend_count t ?b"
    by (auto simp: backend_count_alt split: option.splits)
  let ?t' = "tt_remove key t"
  have fields: "tt_entries ?t' = AList.delete key (tt_entries t)"
    "tt_per_backend ?t' = AList.update ?b (sat_sub c 1) (tt_per_backend t)"
    using False c by (auto simp: tt_remove_def Let_def)
  have "outstanding t b = outstanding ?t' b + (if ?b = b then 1 else 0)" for b
    using out [of b] by (simp add: outstanding_def fields)
  moreover have "backend_count ?t' b = (if b = ?b then sat_sub c 1 else backend_count t b)" for b
    by (simp add: backend_count_alt fields update_conv')
  moreover have "length (AList.delete key (tt_entries t)) \<le> tt_capacity t"
    using assms length_delete_le [of key "tt_entries t"] by (simp add: tt_inv_def)
  moreover have "outstanding ?t' b \<le> unat (tt_per_backend_limit t)" for b
    using assms calculation(1) [of b] by (metis add_leD1 tt_inv_def)
  ultimately show ?thesis
    using assms c
    by (simp add: tt_inv_def fields distinct_update distinct_delete sat_sub_unat)
qed

section \<open>The table as its clients see it\<close>

locale demux_table =
  fixes inv :: "'s \<Rightarrow> bool"
    and lookup :: "'s \<Rightarrow> 'k \<Rightarrow> 'v option"
    and alloc :: "'b \<Rightarrow> 'v \<Rightarrow> 's \<Rightarrow> 'k option \<times> 's"
    and free :: "'k \<Rightarrow> 's \<Rightarrow> 's"
    and owner :: "'k \<Rightarrow> 'b"
  assumes alloc_Some: "inv s \<Longrightarrow> alloc b v s = (Some k, s') \<Longrightarrow>
      inv s' \<and> owner k = b \<and> lookup s k = None \<and> lookup s' = (lookup s)(k \<mapsto> v)"
    and alloc_None: "inv s \<Longrightarrow> alloc b v s = (None, s') \<Longrightarrow> inv s' \<and> lookup s' = lookup s"
    and free: "inv s \<Longrightarrow> inv (free k s) \<and> lookup (free k s) = (lookup s)(k := None)"
begin

lemma alloc_inv: "inv s \<Longrightarrow> inv (snd (alloc b v s))"
  using alloc_Some alloc_None by (metis option.exhaust prod.collapse)

lemma alloc_free:
  assumes "inv s" "alloc b v s = (Some k, s')"
  shows "lookup (free k s') = lookup s"
  using alloc_Some [OF assms] free [of s' k] by auto

lemma alloc_distinct:
  assumes "inv s" "lookup s k' \<noteq> None" "alloc b v s = (Some k, s')"
  shows "k \<noteq> k'" "lookup s' k' = lookup s k'"
  using alloc_Some [OF assms(1,3)] assms(2) by auto

end

interpretation demux: demux_table tt_inv tt_lookup tt_register_unique tt_remove fk_backend
proof
  fix t t' :: txn_table and b txn key
  assume "tt_inv t" and reg: "tt_register_unique b txn t = (Some key, t')"
  then show "tt_inv t' \<and> fk_backend key = b \<and> tt_lookup t key = None
      \<and> tt_lookup t' = (tt_lookup t)(key \<mapsto> txn)"
    by (cases rule: tt_register_unique_cases [of b txn t]) auto
next
  fix t t' :: txn_table and b txn
  assume "tt_inv t" and reg: "tt_register_unique b txn t = (None, t')"
  then show "tt_inv t' \<and> tt_lookup t' = tt_lookup t"
    by (cases rule: tt_register_unique_cases [of b txn t]) auto
qed (simp add: tt_remove_inv)

lemma table_exec_inv: "tt_inv t \<Longrightarrow> tt_inv (table_exec op t)"
proof (cases op)
  case (OpRegister key txn)
  assume "tt_inv t"
  then show ?thesis
    using OpRegister by (cases rule: tt_register_cases [of key txn t]) auto
qed (auto intro: demux.alloc_inv tt_remove_inv)

lemma table_exec_limits:
  "tt_capacity (table_exec op t) = tt_capacity t
   \<and> tt_per_backend_limit (table_exec op t) = tt_per_backend_limit t"
proof (cases op)
  case (OpRegister key txn)
  then show ?thesis
    by (cases rule: tt_register_cases [of key txn t]) auto
next
  case (OpRegisterUnique b txn)
  then show ?thesis
    by (cases rule: tt_register_unique_cases [of b txn t]) auto
qed simp

lemma table_run_inv:
  "tt_inv t \<Longrightarrow> tt_inv (table_run ops t) \<and> tt_capacity (table_run ops t) = tt_capacity t
     \<and> tt_per_backend_limit (table_run ops t) = tt_per_backend_limit t"
  by (induction ops arbitrary: t) (auto simp: table_run_def table_exec_inv table_exec_limits)

lemma outstanding_per_backend_mem:
  assumes "tt_inv t"
  shows "(b, c) \<in> set (outstanding_per_backend t) \<longleftrightarrow> 0 < c \<and> unat c = outstanding t b"
proof -
  have "(b, c) \<in> set (tt_per_backend t) \<longleftrightarrow> map_of (tt_per_backend t) b = Some c"
    using assms by (simp add: tt_inv_def)
  moreover have "unat (backend_count t b) = outstanding t b"
    using assms by (simp add: tt_inv_def)
  ultimately show ?thesis
    by (cases "map_of (tt_per_backend t) b")
      (auto simp: outstanding_per_backend_def backend_count_alt word_less_nat_alt word_unat_eq_iff)
qed

lemma table_run_new:
  "tt_inv (table_run ops (txn_table_new capacity limit))"
  "tt_capacity (table_run ops (txn_table_new capacity limit)) = capacity"
  "tt_per_backend_limit (table_run ops (txn_table_new capacity limit)) = limit"
  using table_run_inv [OF tt_inv_new, of ops capacity limit] by (simp_all add: txn_table_new_def)

section \<open>Properties of the table\<close>

text \<open>Whatever sequence of registrations and removals has been applied to a new
  table, its keys are distinct and at most its capacity, the counter of every
  backend is exactly the number of its outstanding keys and within the limit, and
  the scrape lists precisely the backends with outstanding queries, with those
  numbers.\<close>

theorem txn_table_counts_exact:
  "let t = table_run ops (txn_table_new capacity limit) in
     distinct (map fst (tt_entries t)) \<and> length (tt_entries t) \<le> capacity
     \<and> (\<forall>b. unat (backend_count t b) = outstanding t b \<and> outstanding t b \<le> unat limit)
     \<and> (\<forall>b c. (b, c) \<in> set (outstanding_per_backend t) \<longleftrightarrow> 0 < c \<and> unat c = outstanding t b)"
proof -
  define t where "t = table_run ops (txn_table_new capacity limit)"
  have t: "tt_inv t" "tt_capacity t = capacity" "tt_per_backend_limit t = limit"
    by (simp_all add: t_def table_run_new)
  then show ?thesis
    using outstanding_per_backend_mem [OF t(1)]
    by (simp add: t_def [symmetric] tt_inv_def)
qed

text \<open>C32: On every reachable table \<open>register_unique\<close> succeeds exactly if the table is
  below its capacity and the backend is below its limit and below the 65536
  identifiers of the wire format; it then returns a key of that backend that nobody
  holds and changes the table at that key only.  If it is refused nothing that is
  outstanding changes.\<close>

theorem register_unique_spec:
  "let t = table_run ops (txn_table_new capacity limit); r = tt_register_unique b txn t in
     (fst r \<noteq> None \<longleftrightarrow> length (tt_entries t) < capacity
        \<and> outstanding t b < unat limit \<and> outstanding t b < 65536)
     \<and> (case fst r of
          Some key \<Rightarrow> fk_backend key = b \<and> tt_lookup t key = None
            \<and> tt_lookup (snd r) = (tt_lookup t)(key \<mapsto> txn)
        | None \<Rightarrow> tt_lookup (snd r) = tt_lookup t)"
proof -
  define t where "t = table_run ops (txn_table_new capacity limit)"
  have t: "tt_inv t" "tt_capacity t = capacity" "tt_per_backend_limit t = limit"
    by (simp_all add: t_def table_run_new)
  show ?thesis
    unfolding t_def [symmetric] Let_def
    by (cases rule: tt_register_unique_cases [of b txn t]) (use t in auto)
qed

section \<open>Concurrent forwards of a pool\<close>

record pool_inflight =
  pi_limits :: "string \<rightharpoonup> u32"
  pi_active :: "string \<rightharpoonup> u32"

text \<open>Collecting pairs into a hash map: a later pool of the same name wins.\<close>

definition pool_inflight_from_config :: "config \<Rightarrow> pool_inflight"
  where "pool_inflight_from_config cfg =
    \<lparr>pi_limits = map_of (rev (List.map_filter
       (\<lambda>p. map_option (\<lambda>n. (pool_name p, n)) (pool_max_inflight p)) (cfg_pools cfg))),
     pi_active = Map.empty\<rparr>"

definition try_acquire :: "string \<Rightarrow> pool_inflight \<Rightarrow> bool \<times> pool_inflight"
  where "try_acquire pool s =
    (case pi_limits s pool of
       None \<Rightarrow> (True, s)
     | Some limit \<Rightarrow>
         (let n = (case pi_active s pool of Some c \<Rightarrow> c | None \<Rightarrow> 0);
              s1 = s\<lparr>pi_active := (pi_active s)(pool \<mapsto> n)\<rparr> in
          if limit \<le> n then (False, s1)
          else (True, s1\<lparr>pi_active := (pi_active s1)(pool \<mapsto> n + 1)\<rparr>)))"

definition release_inflight :: "string \<Rightarrow> pool_inflight \<Rightarrow> pool_inflight"
  where "release_inflight pool s =
    (if pi_limits s pool = None then s
     else case pi_active s pool of
       Some c \<Rightarrow> s\<lparr>pi_active := (pi_active s)(pool \<mapsto> sat_sub c 1)\<rparr>
     | None \<Rightarrow> s)"

text \<open>The holders of a run: pools whose reservation was granted and not yet given back.
  A release by somebody who holds nothing removes a reservation of somebody else.\<close>

datatype inflight_op = Acquire string | GiveBack string

fun inflight_run :: "inflight_op list \<Rightarrow> pool_inflight \<times> string multiset \<Rightarrow> pool_inflight \<times> string multiset"
  where
    "inflight_run [] sh = sh"
  | "inflight_run (Acquire p # ops) (s, h) =
      (let (ok, s') = try_acquire p s in inflight_run ops (s', if ok then add_mset p h else h))"
  | "inflight_run (GiveBack p # ops) (s, h) = inflight_run ops (release_inflight p s, h - {#p#})"

fun holders_release :: "inflight_op list \<Rightarrow> pool_inflight \<times> string multiset \<Rightarrow> bool"
  where
    "holders_release [] sh \<longleftrightarrow> True"
  | "holders_release (Acquire p # ops) (s, h) \<longleftrightarrow>
      (let (ok, s') = try_acquire p s in holders_release ops (s', if ok then add_mset p h else h))"
  | "holders_release (GiveBack p # ops) (s, h) \<longleftrightarrow>
      p \<in># h \<and> holders_release ops (release_inflight p s, h - {#p#})"

definition active_count :: "pool_inflight \<Rightarrow> string \<Rightarrow> u32"
  where "active_count s p = (case pi_active s p of Some c \<Rightarrow> c | None \<Rightarrow> 0)"

definition inflight_inv :: "pool_inflight \<times> string multiset \<Rightarrow> bool"
  where "inflight_inv sh \<longleftrightarrow>
    (\<forall>p limit. pi_limits (fst sh) p = Some limit \<longrightarrow>
       count (snd sh) p = unat (active_count (fst sh) p)
       \<and> unat (active_count (fst sh) p) \<le> unat limit)"

lemma inflight_invD:
  "inflight_inv (s, h) \<Longrightarrow> pi_limits s p = Some limit \<Longrightarrow>
   count h p = unat (active_count s p) \<and> unat (active_count s p) \<le> unat limit"
  by (simp add: inflight_inv_def)

lemma try_acquire_alt:
  "try_acquire p s =
    (case pi_limits s p of
       None \<Rightarrow> (True, s)
     | Some limit \<Rightarrow>
         if limit \<le> active_count s p
         then (False, s\<lparr>pi_active := (pi_active s)(p \<mapsto> active_count s p)\<rparr>)
         else (True, s\<lparr>pi_active := (pi_active s)(p \<mapsto> active_count s p + 1)\<rparr>))"
  by (simp add: try_acquire_def active_count_def Let_def split: option.splits)

lemma try_acquire_limits [simp]: "pi_limits (snd (try_acquire p s)) = pi_limits s"
  by (auto simp: try_acquire_alt split: option.splits)

lemma release_inflight_limits [simp]: "pi_limits (release_inflight p s) = pi_limits s"
  by (auto simp: release_inflight_def split: option.splits)

lemma active_count_upd:
  "active_count (s\<lparr>pi_active := (pi_active s)(p \<mapsto> c)\<rparr>) q = (if q = p then c else active_count s q)"
  by (simp add: active_count_def)

lemma try_acquire_ok:
  assumes "inflight_inv (s, h)"
  shows "fst (try_acquire p s)
    \<longleftrightarrow> (case pi_limits s p of Some limit \<Rightarrow> count h p < unat limit | None \<Rightarrow> True)"
  using inflight_invD [OF assms, of p]
  by (auto simp: try_acquire_alt word_le_nat_alt split: option.splits)

lemma try_acquire_inv:
  assumes "inflight_inv (s, h)"
  shows "inflight_inv (snd (try_acquire p s), if fst (try_acquire p s) then add_mset p h else h)"
proof (cases "pi_limits s p")
  case None
  then show ?thesis
    using assms by (fastforce simp: inflight_inv_def try_acquire_alt)
next
  case (Some limit)
  note inv = inflight_invD [OF assms]
  show ?thesis
  proof (cases "limit \<le> active_count s p")
    case True
    then show ?thesis
      using inv Some by (auto simp: inflight_inv_def try_acquire_alt active_count_upd)
  next
    case False
    then have "unat (active_count s p + 1) = unat (active_count s p) + 1"
      using unat_u32_less [of limit] by (intro unat_plus_1) (simp add: word_le_nat_alt)
    then show ?thesis
      using inv Some False
      by (fastforce simp: inflight_inv_def try_acquire_alt active_count_upd word_le_nat_alt)
  qed
qed

lemma release_inflight_inv:
  assumes "inflight_inv (s, h)" "p \<in># h"
  shows "inflight_inv (release_inflight p s, h - {#p#})"
proof -
  have rel: "active_count (release_inflight p s) q
      = (if q = p then sat_sub (active_count s p) 1 else active_count s q)"
    if "pi_limits s p \<noteq> None" for q
    using that by (auto simp: release_inflight_def active_count_def sat_sub_def split: option.splits)
  show ?thesis
    unfolding inflight_inv_def
  proof (intro allI impI)
    fix q limit
    assume "pi_limits (fst (release_inflight p s, h - {#p#})) q = Some limit"
    then have lim: "pi_limits s q = Some limit"
      by simp
    show "count (snd (release_inflight p s, h - {#p#})) q
        = unat (active_count (fst (release_inflight p s, h - {#p#})) q)
        \<and> unat (active_count (fst (release_inflight p s, h - {#p#})) q) \<le> unat limit"
      using inflight_invD [OF assms(1) lim] rel [of q] lim
      by (cases "pi_limits s p") (auto simp: sat_sub_unat release_inflight_def)
  qed
qed

lemma inflight_run_inv:
  "inflight_inv sh \<Longrightarrow> holders_release ops sh \<Longrightarrow> inflight_inv (inflight_run ops sh)"
proof (induction ops sh rule: inflight_run.induct)
  case (2 p ops s h)
  then show ?case
    using try_acquire_inv [of s h p] by (cases "try_acquire p s") auto
next
  case (3 p ops s h)
  then show ?case
    using release_inflight_inv [of s h p] by auto
qed simp

lemma inflight_run_limits: "pi_limits (fst (inflight_run ops sh)) = pi_limits (fst sh)"
  by (induction ops sh rule: inflight_run.induct)
    (auto simp: Let_def split_beta)

lemma inflight_inv_init: "inflight_inv (pool_inflight_from_config cfg, {#})"
  by (simp add: inflight_inv_def pool_inflight_from_config_def active_count_def)

text \<open>C38: As long as reservations are given back only by those who hold one, a pool with
  \<open>max_inflight\<close> set never has more forwards in flight than that, and a further
  reservation is refused exactly when that many are in flight; a pool without the
  setting is never refused.\<close>

theorem pool_inflight_bounds_holders:
  assumes "holders_release ops (pool_inflight_from_config cfg, {#})"
    and "inflight_run ops (pool_inflight_from_config cfg, {#}) = (s, holders)"
  shows "case pi_limits (pool_inflight_from_config cfg) p of
      Some limit \<Rightarrow> count holders p \<le> unat limit
        \<and> (fst (try_acquire p s) \<longleftrightarrow> count holders p < unat limit)
    | None \<Rightarrow> fst (try_acquire p s)"
proof -
  have inv: "inflight_inv (s, holders)"
    using inflight_run_inv [OF inflight_inv_init assms(1)] assms(2) by simp
  have lim: "pi_limits s = pi_limits (pool_inflight_from_config cfg)"
    using inflight_run_limits [of ops "(pool_inflight_from_config cfg, {#})"] assms(2) by simp
  show ?thesis
    using try_acquire_ok [OF inv, of p] inflight_invD [OF inv, of p] lim
    by (auto split: option.splits)
qed

definition example_limited :: config
  where "example_limited = \<lparr>cfg_pools = [\<lparr>pool_name = ''p'', pool_backends = [], pool_sources_v4 = [],
    pool_sources_v6 = [], pool_max_inflight = Some 1, pool_health = None\<rparr>], cfg_forward = None\<rparr>"

theorem pool_inflight_bounds_holders_witness:
  "fst (try_acquire ''p'' (fst (inflight_run [Acquire ''p'', Acquire ''p'', GiveBack ''p'']
      (pool_inflight_from_config example_limited, {#}))))"
proof -
  have h: "holders_release [Acquire ''p'', Acquire ''p'', GiveBack ''p'']
      (pool_inflight_from_config example_limited, {#})"
    by (simp add: pool_inflight_from_config_def example_limited_def try_acquire_def
        map_filter_simps)
  have r: "snd (inflight_run [Acquire ''p'', Acquire ''p'', GiveBack ''p'']
      (pool_inflight_from_config example_limited, {#})) = {#}"
    by (simp add: pool_inflight_from_config_def example_limited_def try_acquire_def
        map_filter_simps)
  show ?thesis
    using pool_inflight_bounds_holders [OF h prod.collapse [symmetric], where p = "''p''"]
    unfolding r
    by (simp add: pool_inflight_from_config_def example_limited_def map_filter_simps)
qed

end
