(* ===== verification/Io_Backend.thy ===== *)
theory Io_Backend
  imports Txn_Table Txn_Store
begin

text \<open>
  Upstream input and output of \<open>crates/conduit-dataplane/src/forward\<close>: the
  selection of source addresses (\<open>egress.rs\<close>) and the completion of outstanding
  forwards by the I/O shards (\<open>io_backend.rs\<close>).

  A bound UDP socket is represented by the address it is bound to; whether a bind,
  a send or a receive succeeds is decided outside.  The table of outstanding
  queries is shared by all shards, so the operations of a shard take it and return
  it.  The channel of resumes is a list to which \<open>send\<close> appends.
\<close>

section \<open>Source addresses\<close>

definition DEFAULT_BIND_V4 :: u32
  where "DEFAULT_BIND_V4 = 0"

definition DEFAULT_BIND_V6 :: "128 word"
  where "DEFAULT_BIND_V6 = 0"

text \<open>The fields of the snapshot that egress reads.\<close>

record egress_config =
  ec_forward :: compiled_forward
  ec_pool_forward :: "string \<rightharpoonup> compiled_pool_forward"

definition pool_override :: "(compiled_pool_forward \<Rightarrow> 'a list option) \<Rightarrow> egress_config \<Rightarrow> string option \<Rightarrow> 'a list option"
  where "pool_override sources ec pool =
    (case pool of None \<Rightarrow> None
     | Some name \<Rightarrow> (case ec_pool_forward ec name of None \<Rightarrow> None | Some pf \<Rightarrow> sources pf))"

definition sources_v4_for_pool :: "egress_config \<Rightarrow> string option \<Rightarrow> u32 list"
  where "sources_v4_for_pool ec pool =
    (case pool_override cpf_sources_v4 ec pool of
       Some s \<Rightarrow> if s \<noteq> [] then s else cf_sources_v4 (ec_forward ec)
     | None \<Rightarrow> cf_sources_v4 (ec_forward ec))"

definition sources_v6_for_pool :: "egress_config \<Rightarrow> string option \<Rightarrow> 128 word list"
  where "sources_v6_for_pool ec pool =
    (case pool_override cpf_sources_v6 ec pool of
       Some s \<Rightarrow> if s \<noteq> [] then s else cf_sources_v6 (ec_forward ec)
     | None \<Rightarrow> cf_sources_v6 (ec_forward ec))"

text \<open>Hash sets are sets; their order is never observed.\<close>

definition allowed_sources_v4_for_pool :: "egress_config \<Rightarrow> string option \<Rightarrow> u32 set"
  where "allowed_sources_v4_for_pool ec pool =
    set (cf_sources_v4 (ec_forward ec))
    \<union> (case pool_override cpf_sources_v4 ec pool of Some s \<Rightarrow> set s | None \<Rightarrow> {})"

definition allowed_sources_v6_for_pool :: "egress_config \<Rightarrow> string option \<Rightarrow> (128 word) set"
  where "allowed_sources_v6_for_pool ec pool =
    set (cf_sources_v6 (ec_forward ec))
    \<union> (case pool_override cpf_sources_v6 ec pool of Some s \<Rightarrow> set s | None \<Rightarrow> {})"

definition egress_bind_addresses_v4 :: "egress_config \<Rightarrow> u32 set"
  where "egress_bind_addresses_v4 ec =
    set (cf_sources_v4 (ec_forward ec))
    \<union> \<Union> ((\<lambda>pf. case cpf_sources_v4 pf of Some s \<Rightarrow> set s | None \<Rightarrow> {}) ` ran (ec_pool_forward ec))"

definition egress_bind_addresses_v6 :: "egress_config \<Rightarrow> (128 word) set"
  where "egress_bind_addresses_v6 ec =
    set (cf_sources_v6 (ec_forward ec))
    \<union> \<Union> ((\<lambda>pf. case cpf_sources_v6 pf of Some s \<Rightarrow> set s | None \<Rightarrow> {}) ` ran (ec_pool_forward ec))"

record worker_egress =
  eg_sockets_v4 :: "u32 set"
  eg_sockets_v6 :: "(128 word) set"
  eg_forward_sources_v4 :: "u32 list"
  eg_forward_sources_v6 :: "128 word list"
  eg_rr_index_v4 :: u64
  eg_rr_index_v6 :: u64

text \<open>Construction fails on the first address that cannot be bound.\<close>

definition worker_egress_new ::
  "(ip_addr \<Rightarrow> bool) \<Rightarrow> compiled_forward \<Rightarrow> u32 set \<Rightarrow> (128 word) set \<Rightarrow> worker_egress option"
  where "worker_egress_new bind_ok compiled v4 v6 =
    (if (\<forall>a \<in> v4. bind_ok (V4 a)) \<and> (\<forall>a \<in> v6. bind_ok (V6 a))
        \<and> bind_ok (V4 DEFAULT_BIND_V4) \<and> bind_ok (V6 DEFAULT_BIND_V6)
     then Some \<lparr>eg_sockets_v4 = v4, eg_sockets_v6 = v6,
       eg_forward_sources_v4 = cf_sources_v4 compiled,
       eg_forward_sources_v6 = cf_sources_v6 compiled, eg_rr_index_v4 = 0, eg_rr_index_v6 = 0\<rparr>
     else None)"

definition rr_list :: "'a list \<Rightarrow> 'a list \<Rightarrow> 'a list option"
  where "rr_list pool_sources forward_sources =
    (if pool_sources \<noteq> [] then Some pool_sources
     else if forward_sources \<noteq> [] then Some forward_sources else None)"

definition round_robin_v4 :: "u32 list \<Rightarrow> worker_egress \<Rightarrow> u32 \<times> worker_egress"
  where "round_robin_v4 pool_sources eg =
    (case rr_list pool_sources (eg_forward_sources_v4 eg) of
       None \<Rightarrow> (DEFAULT_BIND_V4, eg)
     | Some addrs \<Rightarrow> (addrs ! (unat (eg_rr_index_v4 eg) mod length addrs),
         eg\<lparr>eg_rr_index_v4 := eg_rr_index_v4 eg + 1\<rparr>))"

definition round_robin_v6 :: "128 word list \<Rightarrow> worker_egress \<Rightarrow> 128 word \<times> worker_egress"
  where "round_robin_v6 pool_sources eg =
    (case rr_list pool_sources (eg_forward_sources_v6 eg) of
       None \<Rightarrow> (DEFAULT_BIND_V6, eg)
     | Some addrs \<Rightarrow> (addrs ! (unat (eg_rr_index_v6 eg) mod length addrs),
         eg\<lparr>eg_rr_index_v6 := eg_rr_index_v6 eg + 1\<rparr>))"

definition select_source_v4 ::
  "u32 list \<Rightarrow> u32 option \<Rightarrow> u32 set \<Rightarrow> worker_egress \<Rightarrow> u32 \<times> worker_egress"
  where "select_source_v4 pool_sources override_addr allowed eg =
    (case override_addr of
       Some addr \<Rightarrow> if addr \<in> allowed then (addr, eg) else round_robin_v4 pool_sources eg
     | None \<Rightarrow> round_robin_v4 pool_sources eg)"

definition select_source_v6 ::
  "128 word list \<Rightarrow> 128 word option \<Rightarrow> (128 word) set \<Rightarrow> worker_egress \<Rightarrow> 128 word \<times> worker_egress"
  where "select_source_v6 pool_sources override_addr allowed eg =
    (case override_addr of
       Some addr \<Rightarrow> if addr \<in> allowed then (addr, eg) else round_robin_v6 pool_sources eg
     | None \<Rightarrow> round_robin_v6 pool_sources eg)"

record egress_selection =
  sel_pool_sources_v4 :: "u32 list"
  sel_pool_sources_v6 :: "128 word list"
  sel_backend :: socket_addr
  sel_override_v4 :: "u32 option"
  sel_allowed_v4 :: "u32 set"
  sel_override_v6 :: "128 word option"
  sel_allowed_v6 :: "(128 word) set"

text \<open>The socket, i.e. the address it is bound to.\<close>

definition udp_socket_for :: "egress_selection \<Rightarrow> worker_egress \<Rightarrow> ip_addr \<times> worker_egress"
  where "udp_socket_for sel eg =
    (if sock_is_ipv4 (sel_backend sel)
     then let (addr, eg') = select_source_v4 (sel_pool_sources_v4 sel) (sel_override_v4 sel)
                (sel_allowed_v4 sel) eg in
       (V4 (if addr \<in> eg_sockets_v4 eg then addr else DEFAULT_BIND_V4), eg')
     else let (addr, eg') = select_source_v6 (sel_pool_sources_v6 sel) (sel_override_v6 sel)
                (sel_allowed_v6 sel) eg in
       (V6 (if addr \<in> eg_sockets_v6 eg then addr else DEFAULT_BIND_V6), eg'))"

section \<open>I/O shards\<close>

datatype wait_completion = WcResponse bytes | WcTimeout

record io_resume =
  res_slot :: slot_id
  res_completion :: wait_completion

record pending_forward =
  pf_slot :: slot_id
  pf_deadline :: instant

record io_shard =
  sh_timeout :: duration
  sh_pending :: "(forward_key \<times> pending_forward) list"
  sh_egress :: "worker_egress option"

record io_backend =
  ib_shards :: "io_shard list"
  ib_resumes :: "io_resume list"

definition IDLE_POLL_INTERVAL :: duration
  where "IDLE_POLL_INTERVAL = from_millis 100"

definition io_shard_new :: "u32 \<Rightarrow> worker_egress option \<Rightarrow> io_shard"
  where "io_shard_new timeout_ms eg =
    \<lparr>sh_timeout = from_millis (unat timeout_ms), sh_pending = [], sh_egress = eg\<rparr>"

definition io_backend_from_egresses :: "worker_egress list \<Rightarrow> u32 \<Rightarrow> (string, io_backend) result"
  where "io_backend_from_egresses egresses timeout_ms =
    (if egresses = [] then Err ''io_backend: at least one I/O shard egress is required''
     else Ok \<lparr>ib_shards = map (\<lambda>e. io_shard_new timeout_ms (Some e)) egresses, ib_resumes = []\<rparr>)"

text \<open>A single shard without egress maps.\<close>

definition io_backend_new :: "u32 \<Rightarrow> io_backend"
  where "io_backend_new timeout_ms =
    \<lparr>ib_shards = [io_shard_new timeout_ms None], ib_resumes = []\<rparr>"

definition shard_index :: "slot_id \<Rightarrow> io_backend \<Rightarrow> nat"
  where "shard_index slot io = unat slot mod length (ib_shards io)"

definition upd_shard :: "nat \<Rightarrow> (io_shard \<Rightarrow> io_shard) \<Rightarrow> io_backend \<Rightarrow> io_backend"
  where "upd_shard i f io = io\<lparr>ib_shards := (ib_shards io)[i := f (ib_shards io ! i)]\<rparr>"

definition shard_track_pending :: "instant \<Rightarrow> forward_key \<Rightarrow> slot_id \<Rightarrow> io_shard \<Rightarrow> io_shard"
  where "shard_track_pending now key slot sh =
    sh\<lparr>sh_pending := AList.update key \<lparr>pf_slot = slot, pf_deadline = now + sh_timeout sh\<rparr>
        (sh_pending sh)\<rparr>"

definition track_pending :: "instant \<Rightarrow> forward_key \<Rightarrow> slot_id \<Rightarrow> io_backend \<Rightarrow> io_backend"
  where "track_pending now key slot io =
    upd_shard (shard_index slot io) (shard_track_pending now key slot) io"

definition shard_cancel_pending :: "forward_key \<Rightarrow> io_shard \<Rightarrow> io_shard"
  where "shard_cancel_pending key sh = sh\<lparr>sh_pending := AList.delete key (sh_pending sh)\<rparr>"

text \<open>The search stops at the first shard that had the key.\<close>

fun cancel_in :: "forward_key \<Rightarrow> io_shard list \<Rightarrow> io_shard list"
  where
    "cancel_in key [] = []"
  | "cancel_in key (sh # shs) =
      (if map_of (sh_pending sh) key \<noteq> None then shard_cancel_pending key sh # shs
       else sh # cancel_in key shs)"

definition cancel_pending :: "forward_key \<Rightarrow> io_backend \<Rightarrow> io_backend"
  where "cancel_pending key io = io\<lparr>ib_shards := cancel_in key (ib_shards io)\<rparr>"

definition io_udp_socket_for ::
  "slot_id \<Rightarrow> egress_selection \<Rightarrow> io_backend \<Rightarrow> (string, ip_addr) result \<times> io_backend"
  where "io_udp_socket_for slot sel io =
    (let i = shard_index slot io in
     case sh_egress (ib_shards io ! i) of
       None \<Rightarrow> (Err ''io_backend: shard has no egress map; use IoBackend::from_egresses for submit'', io)
     | Some eg \<Rightarrow>
        (let (addr, eg') = udp_socket_for sel eg in
         (Ok addr, upd_shard i (\<lambda>sh. sh\<lparr>sh_egress := Some eg'\<rparr>) io)))"

text \<open>Completing a key on shard \<open>i\<close>: at most once, because the entry is removed first.\<close>

definition complete_forward ::
  "nat \<Rightarrow> forward_key \<Rightarrow> wait_completion \<Rightarrow> txn_table \<times> io_backend \<Rightarrow> txn_table \<times> io_backend"
  where "complete_forward i key completion s =
    (case s of (tbl, io) \<Rightarrow>
       case map_of (sh_pending (ib_shards io ! i)) key of
         None \<Rightarrow> (tbl, io)
       | Some pending \<Rightarrow>
          (let io1 = upd_shard i (shard_cancel_pending key) io in
           (tt_remove key tbl,
            io1\<lparr>ib_resumes := ib_resumes io1
              @ [\<lparr>res_slot = pf_slot pending, res_completion = completion\<rparr>]\<rparr>)))"

definition next_wait_timeout :: "instant \<Rightarrow> io_shard \<Rightarrow> duration option"
  where "next_wait_timeout now sh =
    (case map (\<lambda>(_, p). elapsed (pf_deadline p) now) (sh_pending sh) of
       [] \<Rightarrow> None
     | d # ds \<Rightarrow> Some (min (foldl min d ds) IDLE_POLL_INTERVAL))"

definition poll_wait :: "instant \<Rightarrow> io_shard \<Rightarrow> duration"
  where "poll_wait now sh =
    (case next_wait_timeout now sh of Some d \<Rightarrow> min d IDLE_POLL_INTERVAL | None \<Rightarrow> IDLE_POLL_INTERVAL)"

definition expired_keys :: "instant \<Rightarrow> io_shard \<Rightarrow> forward_key list"
  where "expired_keys now sh = map fst (filter (\<lambda>(_, p). pf_deadline p \<le> now) (sh_pending sh))"

definition poll_timeouts ::
  "instant \<Rightarrow> nat \<Rightarrow> txn_table \<times> io_backend \<Rightarrow> txn_table \<times> io_backend"
  where "poll_timeouts now i s =
    fold (\<lambda>key. complete_forward i key WcTimeout) (expired_keys now (ib_shards (snd s) ! i)) s"

definition be_u16 :: "u8 \<Rightarrow> u8 \<Rightarrow> u16"
  where "be_u16 hi lo = push_bit 8 (ucast hi) + ucast lo"

definition handle_reply ::
  "nat \<Rightarrow> socket_addr \<Rightarrow> bytes \<Rightarrow> txn_table \<times> io_backend \<Rightarrow> txn_table \<times> io_backend"
  where "handle_reply i peer wire s =
    (if length wire < 12 then s
     else
       let key = \<lparr>fk_backend = peer, fk_dns_id = be_u16 (wire ! 0) (wire ! 1)\<rparr> in
       if map_of (sh_pending (ib_shards (snd s) ! i)) key = None then s
       else complete_forward i key (WcResponse wire) s)"

text \<open>Draining a readable socket: the datagrams up to \<open>WouldBlock\<close>, each cut to the
  4096 bytes of the buffer.\<close>

definition on_readable ::
  "nat \<Rightarrow> (socket_addr \<times> bytes) list \<Rightarrow> txn_table \<times> io_backend \<Rightarrow> txn_table \<times> io_backend"
  where "on_readable i datagrams s = fold (\<lambda>(peer, wire). handle_reply i peer (take 4096 wire)) datagrams s"

text \<open>One turn of \<open>run_loop\<close>: the timeouts, then the sockets that became readable during
  the wait.\<close>

definition run_loop_turn ::
  "instant \<Rightarrow> nat \<Rightarrow> (socket_addr \<times> bytes) list list \<Rightarrow> txn_table \<times> io_backend
    \<Rightarrow> txn_table \<times> io_backend"
  where "run_loop_turn now i readable s = fold (on_readable i) readable (poll_timeouts now i s)"

definition apply_wait_completion :: "instant \<Rightarrow> wait_completion \<Rightarrow> transaction \<Rightarrow> transaction"
  where "apply_wait_completion now completion t =
    (case completion of
       WcResponse wire \<Rightarrow>
         (let t1 = complete_forward_rtt_from_mark now t in
          t1\<lparr>response_wire := Some (rewrite_dns_id (dns_id t1) wire)\<rparr>)
     | WcTimeout \<Rightarrow> set_rcode_name ''SERVFAIL'' (complete_forward_rtt_from_mark now t))"

section \<open>Outstanding forwards of all shards\<close>

definition shard_pending :: "io_backend \<Rightarrow> nat \<Rightarrow> (forward_key \<times> pending_forward) list"
  where "shard_pending io i = sh_pending (ib_shards io ! i)"

definition pend :: "io_backend \<Rightarrow> (forward_key \<times> pending_forward) multiset"
  where "pend io = mset (concat (map sh_pending (ib_shards io)))"

definition io_inv :: "txn_table \<times> io_backend \<Rightarrow> bool"
  where "io_inv s \<longleftrightarrow>
    (case s of (tbl, io) \<Rightarrow>
       tt_inv tbl \<and> ib_shards io \<noteq> []
       \<and> (\<forall>i < length (ib_shards io). distinct (map fst (shard_pending io i)))
       \<and> (\<forall>i < length (ib_shards io). \<forall>j < length (ib_shards io). i \<noteq> j \<longrightarrow>
            fst ` set (shard_pending io i) \<inter> fst ` set (shard_pending io j) = {})
       \<and> (\<forall>i < length (ib_shards io). \<forall>(k, p) \<in> set (shard_pending io i).
            tt_lookup tbl k \<noteq> None \<and> shard_index (pf_slot p) io = i))"

lemma upd_shard_simps [simp]:
  "length (ib_shards (upd_shard i f io)) = length (ib_shards io)"
  "ib_resumes (upd_shard i f io) = ib_resumes io"
  "shard_index slot (upd_shard i f io) = shard_index slot io"
  by (simp_all add: upd_shard_def shard_index_def)

lemma shard_pending_upd:
  "j < length (ib_shards io) \<Longrightarrow>
   shard_pending (upd_shard i f io) j
     = (if i = j then sh_pending (f (ib_shards io ! i)) else shard_pending io j)"
  by (simp add: shard_pending_def upd_shard_def nth_list_update)

lemma shard_pending_resumes [simp]:
  "shard_pending (io\<lparr>ib_resumes := r\<rparr>) = shard_pending io"
  "pend (io\<lparr>ib_resumes := r\<rparr>) = pend io"
  "shard_index slot (io\<lparr>ib_resumes := r\<rparr>) = shard_index slot io"
  by (auto simp: fun_eq_iff shard_pending_def pend_def shard_index_def)

lemma shard_index_less: "ib_shards io \<noteq> [] \<Longrightarrow> shard_index slot io < length (ib_shards io)"
  by (simp add: shard_index_def)

lemma mset_concat_update:
  "i < length xs \<Longrightarrow>
   mset (concat (map f (xs[i := y]))) + mset (f (xs ! i)) = mset (concat (map f xs)) + mset (f y)"
  by (induction xs arbitrary: i) (auto split: nat.splits)

lemma pend_upd:
  "i < length (ib_shards io) \<Longrightarrow>
   pend (upd_shard i f io) + mset (shard_pending io i)
     = pend io + mset (sh_pending (f (ib_shards io ! i)))"
  using mset_concat_update [of i "ib_shards io" sh_pending "f (ib_shards io ! i)"]
  by (simp add: pend_def upd_shard_def shard_pending_def)

lemma mset_delete:
  assumes "distinct (map fst al)" "map_of al k = Some p"
  shows "mset al = add_mset (k, p) (mset (AList.delete k al))"
  using assms
proof (induction al)
  case (Cons e al)
  show ?case
  proof (cases "fst e = k")
    case True
    then have "AList.delete k al = al"
      using Cons.prems(1) by auto
    then show ?thesis
      using True Cons.prems(2) by (cases e) auto
  next
    case False
    then show ?thesis
      using Cons by (cases e) auto
  qed
qed simp

lemma io_invD:
  assumes "io_inv (tbl, io)"
  shows "tt_inv tbl" "ib_shards io \<noteq> []"
    and "i < length (ib_shards io) \<Longrightarrow> distinct (map fst (shard_pending io i))"
    and "i < length (ib_shards io) \<Longrightarrow> j < length (ib_shards io) \<Longrightarrow> i \<noteq> j \<Longrightarrow>
      fst ` set (shard_pending io i) \<inter> fst ` set (shard_pending io j) = {}"
    and "i < length (ib_shards io) \<Longrightarrow> (k, p) \<in> set (shard_pending io i) \<Longrightarrow>
      tt_lookup tbl k \<noteq> None \<and> shard_index (pf_slot p) io = i"
  using assms unfolding io_inv_def by blast+

lemma io_invI:
  assumes "tt_inv tbl" "ib_shards io \<noteq> []"
    and "\<And>i. i < length (ib_shards io) \<Longrightarrow> distinct (map fst (shard_pending io i))"
    and "\<And>i j. i < length (ib_shards io) \<Longrightarrow> j < length (ib_shards io) \<Longrightarrow> i \<noteq> j \<Longrightarrow>
      fst ` set (shard_pending io i) \<inter> fst ` set (shard_pending io j) = {}"
    and "\<And>i k p. i < length (ib_shards io) \<Longrightarrow> (k, p) \<in> set (shard_pending io i) \<Longrightarrow>
      tt_lookup tbl k \<noteq> None \<and> shard_index (pf_slot p) io = i"
  shows "io_inv (tbl, io)"
  using assms unfolding io_inv_def prod.case by blast

lemma set_delete_subset: "set (AList.delete k al) \<subseteq> set al"
  by (induction al) auto

section \<open>Completion\<close>

lemma complete_cases:
  assumes "io_inv (tbl, io)" "i < length (ib_shards io)"
  obtains (absent) "map_of (shard_pending io i) key = None" "complete_forward i key c (tbl, io) = (tbl, io)"
  | (present) p io' where "map_of (shard_pending io i) key = Some p"
      "complete_forward i key c (tbl, io) = (tt_remove key tbl, io')"
      "io_inv (tt_remove key tbl, io')" "length (ib_shards io') = length (ib_shards io)"
      "ib_resumes io' = ib_resumes io @ [\<lparr>res_slot = pf_slot p, res_completion = c\<rparr>]"
      "pend io = add_mset (key, p) (pend io')"
      "\<And>j. j < length (ib_shards io) \<Longrightarrow> shard_pending io' j
        = (if j = i then AList.delete key (shard_pending io i) else shard_pending io j)"
proof (cases "map_of (shard_pending io i) key")
  case None
  then show ?thesis
    by (intro absent) (simp_all add: complete_forward_def shard_pending_def)
next
  case (Some p)
  define io1 where "io1 = upd_shard i (shard_cancel_pending key) io"
  define io' where "io' = io1\<lparr>ib_resumes := ib_resumes io1
      @ [\<lparr>res_slot = pf_slot p, res_completion = c\<rparr>]\<rparr>"
  have pend': "shard_pending io' j
      = (if j = i then AList.delete key (shard_pending io i) else shard_pending io j)"
    if "j < length (ib_shards io)" for j
    using that by (simp add: io'_def io1_def shard_pending_upd shard_cancel_pending_def)
      (simp add: shard_pending_def)
  have len: "length (ib_shards io') = length (ib_shards io)"
    by (simp add: io'_def io1_def)
  have idx: "shard_index slot io' = shard_index slot io" for slot
    by (simp add: io'_def io1_def)
  note dist = io_invD(3) [OF assms]
  have mset: "pend io = add_mset (key, p) (pend io')"
    using pend_upd [OF assms(2), of "shard_cancel_pending key"] mset_delete [OF dist Some]
    by (simp add: io'_def io1_def shard_cancel_pending_def shard_pending_def [symmetric])
  have sub: "set (shard_pending io' j) \<subseteq> set (shard_pending io j)"
    if "j < length (ib_shards io)" for j
    using that set_delete_subset [of key "shard_pending io i"] by (simp add: pend')
  have keyin: "key \<in> fst ` set (shard_pending io i)"
    using Some by (metis map_of_eq_None_iff option.distinct(1))
  have other: "key \<notin> fst ` set (shard_pending io' j)" if "j < length (ib_shards io)" for j
    using that keyin delete_notin_dom [of key "shard_pending io i"]
      io_invD(4) [OF assms(1,2) that] by (cases "j = i") (auto simp: pend')
  have "io_inv (tt_remove key tbl, io')"
  proof (rule io_invI)
    show "tt_inv (tt_remove key tbl)"
      using io_invD(1) [OF assms(1)] by (rule tt_remove_inv)
    show "ib_shards io' \<noteq> []"
      using assms(2) len by auto
  next
    fix j assume "j < length (ib_shards io')"
    then show "distinct (map fst (shard_pending io' j))"
      using io_invD(3) [OF assms(1)] by (simp add: len pend' distinct_delete dist)
  next
    fix j l assume j: "j < length (ib_shards io')" and l: "l < length (ib_shards io')" and "j \<noteq> l"
    then have "fst ` set (shard_pending io j) \<inter> fst ` set (shard_pending io l) = {}"
      by (intro io_invD(4) [OF assms(1)]) (simp_all add: len)
    moreover have "fst ` set (shard_pending io' j) \<inter> fst ` set (shard_pending io' l)
        \<subseteq> fst ` set (shard_pending io j) \<inter> fst ` set (shard_pending io l)"
      using j l len by (intro Int_mono image_mono sub) simp_all
    ultimately show "fst ` set (shard_pending io' j) \<inter> fst ` set (shard_pending io' l) = {}"
      by simp
  next
    fix j k q assume j: "j < length (ib_shards io')" and e: "(k, q) \<in> set (shard_pending io' j)"
    then have "(k, q) \<in> set (shard_pending io j)" "k \<noteq> key"
      using sub [of j] other [of j] len by (auto simp: image_iff)
    then show "tt_lookup (tt_remove key tbl) k \<noteq> None \<and> shard_index (pf_slot q) io' = j"
      using io_invD(5) [OF assms(1), of j k q] j len by (simp add: idx)
  qed
  then show ?thesis
    using Some mset len pend'
    by (intro present [of p io']) (auto simp: complete_forward_def io'_def io1_def shard_pending_def)
qed

section \<open>Timeouts and replies\<close>

definition io_grown :: "io_backend \<Rightarrow> io_backend \<Rightarrow> bool"
  where "io_grown io io' \<longleftrightarrow> length (ib_shards io') = length (ib_shards io)
    \<and> (\<exists>new. ib_resumes io' = ib_resumes io @ new
         \<and> image_mset pf_slot (image_mset snd (pend io))
             = image_mset pf_slot (image_mset snd (pend io')) + mset (map res_slot new))"

lemma io_grown_refl [simp]: "io_grown io io"
  by (simp add: io_grown_def)

lemma io_grown_trans:
  assumes "io_grown io io'" "io_grown io' io''"
  shows "io_grown io io''"
proof -
  obtain new new' where "ib_resumes io' = ib_resumes io @ new" "ib_resumes io'' = ib_resumes io' @ new'"
    "image_mset pf_slot (image_mset snd (pend io))
       = image_mset pf_slot (image_mset snd (pend io')) + mset (map res_slot new)"
    "image_mset pf_slot (image_mset snd (pend io'))
       = image_mset pf_slot (image_mset snd (pend io'')) + mset (map res_slot new')"
    "length (ib_shards io'') = length (ib_shards io)"
    using assms by (auto simp: io_grown_def)
  then show ?thesis
    unfolding io_grown_def by (intro conjI exI [of _ "new @ new'"]) simp_all
qed

lemma complete_grown:
  assumes "io_inv s" "i < length (ib_shards (snd s))"
  shows "io_inv (complete_forward i key c s)" "io_grown (snd s) (snd (complete_forward i key c s))"
proof -
  obtain tbl io where s: "s = (tbl, io)"
    by (cases s)
  have inv: "io_inv (tbl, io)" and i: "i < length (ib_shards io)"
    using assms by (simp_all add: s)
  have "io_inv (complete_forward i key c s) \<and> io_grown (snd s) (snd (complete_forward i key c s))"
    unfolding s
    by (cases rule: complete_cases [OF inv i, where key = key and c = c])
      (auto simp: io_grown_def inv)
  then show "io_inv (complete_forward i key c s)" "io_grown (snd s) (snd (complete_forward i key c s))"
    by simp_all
qed

text \<open>A fold of operations that keep the invariant and the balance keeps both.\<close>

lemma fold_grown:
  assumes step: "\<And>x s. x \<in> set xs \<Longrightarrow> io_inv s \<Longrightarrow> i < length (ib_shards (snd s)) \<Longrightarrow>
      io_inv (f x s) \<and> io_grown (snd s) (snd (f x s))"
    and "io_inv s" "i < length (ib_shards (snd s))"
  shows "io_inv (fold f xs s) \<and> io_grown (snd s) (snd (fold f xs s))"
  using assms
proof (induction xs arbitrary: s)
  case (Cons x xs)
  have x: "io_inv (f x s) \<and> io_grown (snd s) (snd (f x s))"
    using Cons.prems by simp
  then have "i < length (ib_shards (snd (f x s)))"
    using Cons.prems(3) by (simp add: io_grown_def)
  then have "io_inv (fold f xs (f x s)) \<and> io_grown (snd (f x s)) (snd (fold f xs (f x s)))"
    using Cons.IH [of "f x s"] Cons.prems(1) x by simp
  then show ?case
    using x io_grown_trans by auto
qed simp

lemma handle_reply_grown:
  assumes "io_inv s" "i < length (ib_shards (snd s))"
  shows "io_inv (handle_reply i peer wire s) \<and> io_grown (snd s) (snd (handle_reply i peer wire s))"
  using assms complete_grown by (auto simp: handle_reply_def Let_def)

lemma on_readable_grown:
  assumes "io_inv s" "i < length (ib_shards (snd s))"
  shows "io_inv (on_readable i ds s) \<and> io_grown (snd s) (snd (on_readable i ds s))"
  unfolding on_readable_def
  by (rule fold_grown) (use assms handle_reply_grown in \<open>auto split: prod.splits\<close>)

lemma poll_timeouts_grown:
  assumes "io_inv s" "i < length (ib_shards (snd s))"
  shows "io_inv (poll_timeouts now i s) \<and> io_grown (snd s) (snd (poll_timeouts now i s))"
  unfolding poll_timeouts_def
  by (rule fold_grown) (use assms complete_grown in auto)

lemma run_loop_turn_grown:
  assumes "io_inv s" "i < length (ib_shards (snd s))"
  shows "io_inv (run_loop_turn now i readable s)
    \<and> io_grown (snd s) (snd (run_loop_turn now i readable s))"
proof -
  let ?s1 = "poll_timeouts now i s"
  have s1: "io_inv ?s1" "io_grown (snd s) (snd ?s1)"
    using poll_timeouts_grown [OF assms] by auto
  then have "i < length (ib_shards (snd ?s1))"
    using assms by (simp add: io_grown_def)
  then have "io_inv (fold (on_readable i) readable ?s1)
      \<and> io_grown (snd ?s1) (snd (fold (on_readable i) readable ?s1))"
    using s1 on_readable_grown by (intro fold_grown) auto
  then show ?thesis
    using s1 io_grown_trans by (auto simp: run_loop_turn_def)
qed

section \<open>Submission and abort\<close>

text \<open>What the submit path does with the table and the shards: a key is registered,
  then tracked on the shard of the slot; an abort removes both again.\<close>

datatype io_event = EvSubmit instant socket_addr slot_id | EvAbort forward_key
  | EvTurn instant nat "(socket_addr \<times> bytes) list list"

fun io_exec :: "io_event \<Rightarrow> txn_table \<times> io_backend \<Rightarrow> txn_table \<times> io_backend"
  where
    "io_exec (EvSubmit now backend slot) (tbl, io) =
      (case tt_register_unique backend (ucast slot) tbl of
         (Some key, tbl') \<Rightarrow> (tbl', track_pending now key slot io)
       | (None, tbl') \<Rightarrow> (tbl', io))"
  | "io_exec (EvAbort key) (tbl, io) = (tt_remove key tbl, cancel_pending key io)"
  | "io_exec (EvTurn now i readable) s = run_loop_turn now (i mod length (ib_shards (snd s))) readable s"

definition pend_slots :: "io_backend \<Rightarrow> slot_id multiset"
  where "pend_slots io = image_mset pf_slot (image_mset snd (pend io))"

definition key_slots :: "forward_key \<Rightarrow> io_backend \<Rightarrow> slot_id multiset"
  where "key_slots key io = image_mset pf_slot (image_mset snd (filter_mset (\<lambda>e. fst e = key) (pend io)))"

fun io_submitted :: "io_event \<Rightarrow> txn_table \<times> io_backend \<Rightarrow> slot_id multiset"
  where
    "io_submitted (EvSubmit now backend slot) (tbl, io) =
      (if fst (tt_register_unique backend (ucast slot) tbl) = None then {#} else {#slot#})"
  | "io_submitted _ s = {#}"

fun io_aborted :: "io_event \<Rightarrow> txn_table \<times> io_backend \<Rightarrow> slot_id multiset"
  where
    "io_aborted (EvAbort key) (tbl, io) = key_slots key io"
  | "io_aborted _ s = {#}"

fun io_run ::
  "io_event list \<Rightarrow> (txn_table \<times> io_backend) \<times> slot_id multiset \<times> slot_id multiset
    \<Rightarrow> (txn_table \<times> io_backend) \<times> slot_id multiset \<times> slot_id multiset"
  where
    "io_run [] r = r"
  | "io_run (e # es) (s, submitted, aborted) =
      io_run es (io_exec e s, submitted + io_submitted e s, aborted + io_aborted e s)"

lemma cancel_in_none: "\<forall>sh \<in> set shs. map_of (sh_pending sh) key = None \<Longrightarrow> cancel_in key shs = shs"
  by (induction shs) auto

lemma cancel_in_first:
  assumes "i < length shs" "map_of (sh_pending (shs ! i)) key \<noteq> None"
    and "\<And>j. j < i \<Longrightarrow> map_of (sh_pending (shs ! j)) key = None"
  shows "cancel_in key shs = shs[i := shard_cancel_pending key (shs ! i)]"
  using assms
proof (induction shs arbitrary: i)
  case (Cons sh shs)
  show ?case
  proof (cases i)
    case 0
    then show ?thesis
      using Cons.prems by simp
  next
    case (Suc n)
    have "map_of (sh_pending sh) key = None"
      using Cons.prems(3) [of 0] Suc by simp
    moreover have "cancel_in key shs = shs[n := shard_cancel_pending key (shs ! n)]"
      using Cons.prems Suc by (intro Cons.IH) force+
    ultimately show ?thesis
      using Suc by simp
  qed
qed simp

lemma io_inv_resumes [simp]: "io_inv (tbl, io\<lparr>ib_resumes := r\<rparr>) = io_inv (tbl, io)"
  by (simp add: io_inv_def)

text \<open>Cancelling is completing without the resume.\<close>

lemma cancel_pending_complete:
  assumes "io_inv (tbl, io)" "i < length (ib_shards io)" "map_of (shard_pending io i) key \<noteq> None"
  shows "cancel_pending key io = (snd (complete_forward i key c (tbl, io)))\<lparr>ib_resumes := ib_resumes io\<rparr>"
proof -
  have "map_of (shard_pending io j) key = None" if "j < length (ib_shards io)" "j \<noteq> i" for j
    using assms(3) io_invD(4) [OF assms(1), of i j] assms(2) that
    by (metis disjoint_iff map_of_eq_None_iff)
  then have "cancel_in key (ib_shards io)
      = (ib_shards io)[i := shard_cancel_pending key (ib_shards io ! i)]"
    using assms(2,3) by (intro cancel_in_first) (auto simp: shard_pending_def)
  then show ?thesis
    using assms(3)
    by (auto simp: cancel_pending_def complete_forward_def upd_shard_def shard_pending_def Let_def)
qed

lemma pend_mem: "e \<in># pend io \<longleftrightarrow> (\<exists>i < length (ib_shards io). e \<in> set (shard_pending io i))"
proof -
  have "e \<in># pend io \<longleftrightarrow> (\<exists>sh \<in> set (ib_shards io). e \<in> set (sh_pending sh))"
    by (auto simp: pend_def)
  then show ?thesis
    by (metis in_set_conv_nth shard_pending_def)
qed

lemma pend_without_key:
  "(\<And>j. j < length (ib_shards io) \<Longrightarrow> key \<notin> fst ` set (shard_pending io j)) \<Longrightarrow>
   filter_mset (\<lambda>e. fst e = key) (pend io) = {#}"
  by (rule filter_mset_eq_mempty_iff [THEN iffD2]) (metis imageI pend_mem)

lemma abort_balance:
  assumes "io_inv (tbl, io)"
  shows "io_inv (tt_remove key tbl, cancel_pending key io)"
    and "pend_slots io = pend_slots (cancel_pending key io) + key_slots key io"
    and "ib_resumes (cancel_pending key io) = ib_resumes io"
proof -
  have "io_inv (tt_remove key tbl, cancel_pending key io)
      \<and> pend_slots io = pend_slots (cancel_pending key io) + key_slots key io"
  proof (cases "\<exists>i < length (ib_shards io). map_of (shard_pending io i) key \<noteq> None")
    case True
    then obtain i where i: "i < length (ib_shards io)" "map_of (shard_pending io i) key \<noteq> None"
      by blast
    show ?thesis
    proof (cases rule: complete_cases [OF assms i(1), where key = key and c = WcTimeout])
      case 1
      then show ?thesis
        using i by simp
    next
      case (2 p io')
      note present = this
      have io': "cancel_pending key io = io'\<lparr>ib_resumes := ib_resumes io\<rparr>"
        using cancel_pending_complete [OF assms i, of WcTimeout] present by simp
      have "key \<notin> fst ` set (shard_pending io' j)" if "j < length (ib_shards io')" for j
        using io_invD(5) [OF 2(3) that] by fastforce
      then have "filter_mset (\<lambda>e. fst e = key) (pend io') = {#}"
        by (rule pend_without_key)
      then show ?thesis
        using present by (simp add: io' pend_slots_def key_slots_def)
    qed
  next
    case False
    then have none: "map_of (sh_pending sh) key = None" if "sh \<in> set (ib_shards io)" for sh
      using that by (metis in_set_conv_nth shard_pending_def)
    then have same: "cancel_pending key io = io"
      by (simp add: cancel_pending_def cancel_in_none)
    have nokey: "key \<notin> fst ` set (shard_pending io j)" if "j < length (ib_shards io)" for j
      using False that by (metis map_of_eq_None_iff)
    then have "filter_mset (\<lambda>e. fst e = key) (pend io) = {#}"
      by (rule pend_without_key)
    moreover have "io_inv (tt_remove key tbl, io)"
    proof (rule io_invI)
      fix j k p assume "j < length (ib_shards io)" "(k, p) \<in> set (shard_pending io j)"
      then show "tt_lookup (tt_remove key tbl) k \<noteq> None \<and> shard_index (pf_slot p) io = j"
        using io_invD(5) [OF assms, of j k p] nokey [of j] by force
    qed (use io_invD [OF assms] tt_remove_inv in auto)
    ultimately show ?thesis
      by (simp add: same pend_slots_def key_slots_def)
  qed
  then show "io_inv (tt_remove key tbl, cancel_pending key io)"
    "pend_slots io = pend_slots (cancel_pending key io) + key_slots key io"
    by simp_all
  show "ib_resumes (cancel_pending key io) = ib_resumes io"
    by (simp add: cancel_pending_def)
qed

lemma submit_balance:
  assumes "io_inv (tbl, io)" "tt_register_unique b v tbl = (Some key, tbl')"
  shows "io_inv (tbl', track_pending now key slot io)"
    and "pend_slots (track_pending now key slot io) = add_mset slot (pend_slots io)"
    and "key_slots key (track_pending now key slot io) = {#slot#}"
    and "ib_resumes (track_pending now key slot io) = ib_resumes io"
proof -
  define i where "i = shard_index slot io"
  define io' where "io' = track_pending now key slot io"
  note tbl = io_invD(1) [OF assms(1)]
  have i: "i < length (ib_shards io)"
    unfolding i_def by (rule shard_index_less [OF io_invD(2) [OF assms(1)]])
  have new: "tt_lookup tbl key = None" "tt_inv tbl'" "tt_lookup tbl' = (tt_lookup tbl)(key \<mapsto> v)"
    using demux.alloc_Some [OF tbl assms(2)] by auto
  have nokey: "key \<notin> fst ` set (shard_pending io j)" if "j < length (ib_shards io)" for j
    using io_invD(5) [OF assms(1) that] new(1) by fastforce
  then have none: "map_of (shard_pending io i) key = None"
    using i by (simp add: map_of_eq_None_iff)
  define p where "p = \<lparr>pf_slot = slot, pf_deadline = now + sh_timeout (ib_shards io ! i)\<rparr>"
  have p: "pf_slot p = slot"
    "sh_pending (shard_track_pending now key slot (ib_shards io ! i)) = shard_pending io i @ [(key, p)]"
    using none by (simp_all add: p_def shard_track_pending_def shard_pending_def alist_update_new)
  have upd: "io' = upd_shard i (shard_track_pending now key slot) io"
    by (simp add: io'_def track_pending_def i_def)
  have pend': "shard_pending io' j
      = (if j = i then shard_pending io i @ [(key, p)] else shard_pending io j)"
    if "j < length (ib_shards io)" for j
    using that by (auto simp: upd shard_pending_upd p)
  have len: "length (ib_shards io') = length (ib_shards io)"
    and idx: "shard_index l io' = shard_index l io" for l
    by (simp_all add: upd)
  have pend_io': "pend io' = add_mset (key, p) (pend io)"
    using pend_upd [OF i, of "shard_track_pending now key slot"] by (simp add: p upd)
  then show "pend_slots (track_pending now key slot io) = add_mset slot (pend_slots io)"
    by (simp add: pend_slots_def p io'_def)
  have "filter_mset (\<lambda>e. fst e = key) (pend io) = {#}"
    by (rule pend_without_key [OF nokey])
  then show "key_slots key (track_pending now key slot io) = {#slot#}"
    using pend_io' by (simp add: key_slots_def p io'_def)
  show "ib_resumes (track_pending now key slot io) = ib_resumes io"
    by (simp add: track_pending_def)
  have "io_inv (tbl', io')"
  proof (rule io_invI)
    fix j assume "j < length (ib_shards io')"
    then show "distinct (map fst (shard_pending io' j))"
      using io_invD(3) [OF assms(1)] nokey by (auto simp: len pend')
  next
    fix j l assume "j < length (ib_shards io')" "l < length (ib_shards io')" "j \<noteq> l"
    then show "fst ` set (shard_pending io' j) \<inter> fst ` set (shard_pending io' l) = {}"
      using io_invD(4) [OF assms(1), of j l] nokey [of j] nokey [of l]
      by (auto simp: len pend')
  next
    fix j k q assume "j < length (ib_shards io')" "(k, q) \<in> set (shard_pending io' j)"
    then show "tt_lookup tbl' k \<noteq> None \<and> shard_index (pf_slot q) io' = j"
      using io_invD(5) [OF assms(1), of j k q]
      by (auto simp: new len pend' p idx i_def split: if_splits)
  qed (use new io_invD(2) [OF assms(1)] in \<open>auto simp: upd upd_shard_def\<close>)
  then show "io_inv (tbl', track_pending now key slot io)"
    by (simp add: io'_def)
qed

lemma io_inv_table:
  assumes "io_inv (tbl, io)" "tt_inv tbl'" "tt_lookup tbl' = tt_lookup tbl"
  shows "io_inv (tbl', io)"
  using assms by (simp add: io_inv_def)

definition io_balance ::
  "txn_table \<times> io_backend \<Rightarrow> slot_id multiset \<Rightarrow> slot_id multiset \<Rightarrow> bool"
  where "io_balance s submitted aborted \<longleftrightarrow>
    submitted = mset (map res_slot (ib_resumes (snd s))) + pend_slots (snd s) + aborted"

lemma io_exec_balance:
  assumes "io_inv s" "io_balance s sub ab"
  shows "io_inv (io_exec e s)" "io_balance (io_exec e s) (sub + io_submitted e s) (ab + io_aborted e s)"
proof -
  obtain tbl io where s: "s = (tbl, io)"
    by (cases s)
  note inv = assms(1) [unfolded s]
  have "io_inv (io_exec e s) \<and> io_balance (io_exec e s) (sub + io_submitted e s) (ab + io_aborted e s)"
  proof (cases e)
    case (EvSubmit now b slot)
    show ?thesis
    proof (cases "tt_register_unique b (ucast slot) tbl")
      case (Pair r tbl')
      then show ?thesis
        using assms(2) EvSubmit s submit_balance [OF inv, of b "ucast slot" _ tbl']
          demux.alloc_None [OF io_invD(1) [OF inv], of b "ucast slot" tbl'] io_inv_table [OF inv, of tbl']
        by (cases r) (auto simp: io_balance_def)
    qed
  next
    case (EvAbort key)
    then show ?thesis
      using assms(2) s abort_balance [OF inv, of key] by (simp add: io_balance_def)
  next
    case (EvTurn now i readable)
    have "i mod length (ib_shards io) < length (ib_shards io)"
      using io_invD(2) [OF inv] by simp
    then show ?thesis
      using run_loop_turn_grown [OF inv, of "i mod length (ib_shards io)" now readable] assms(2)
      by (auto simp: EvTurn s io_balance_def io_grown_def pend_slots_def)
  qed
  then show "io_inv (io_exec e s)"
    "io_balance (io_exec e s) (sub + io_submitted e s) (ab + io_aborted e s)"
    by simp_all
qed

lemma io_run_balance:
  "io_inv s \<Longrightarrow> io_balance s sub ab \<Longrightarrow> io_run es (s, sub, ab) = (s', sub', ab') \<Longrightarrow>
   io_inv s' \<and> io_balance s' sub' ab'"
proof (induction es arbitrary: s sub ab)
  case (Cons e es)
  show ?case
    by (rule Cons.IH [OF io_exec_balance [OF Cons.prems(1,2)]]) (use Cons.prems(3) in simp)
qed simp

lemma io_inv_init:
  "egresses \<noteq> [] \<Longrightarrow> io_inv (txn_table_new capacity limit,
     \<lparr>ib_shards = map (\<lambda>e. io_shard_new timeout_ms (Some e)) egresses, ib_resumes = []\<rparr>)"
  by (rule io_invI) (auto simp: shard_pending_def io_shard_new_def)

text \<open>C33: Over any sequence of submissions, aborts and turns of the poll loops, with any
  datagrams arriving, every submitted forward is accounted for exactly once: it was
  resumed once, or was aborted, or is still pending.  A key is pending on one shard
  only, the one of its slot, and every pending key is registered in the table.\<close>

theorem io_backend_exactly_once:
  "case io_backend_from_egresses egresses timeout_ms of
     Inl e \<Rightarrow> egresses = []
   | Inr io \<Rightarrow>
      (let (s, submitted, aborted) =
             io_run events ((txn_table_new capacity limit, io), {#}, {#}) in
       io_inv s
       \<and> submitted = mset (map res_slot (ib_resumes (snd s))) + pend_slots (snd s) + aborted)"
proof (cases "egresses = []")
  case False
  define io where "io = \<lparr>ib_shards = map (\<lambda>e. io_shard_new timeout_ms (Some e)) egresses,
      ib_resumes = []\<rparr>"
  have init: "io_balance (txn_table_new capacity limit, io) {#} {#}"
    by (auto simp: io_balance_def pend_slots_def pend_def io_def io_shard_new_def)
  obtain s sub ab where run: "io_run events ((txn_table_new capacity limit, io), {#}, {#}) = (s, sub, ab)"
    by (metis prod_cases3)
  have "io_inv s \<and> io_balance s sub ab"
    using io_run_balance [OF _ init run] io_inv_init [OF False] by (simp add: io_def)
  then show ?thesis
    using False run by (simp add: io_backend_from_egresses_def io_def io_balance_def)
qed (simp add: io_backend_from_egresses_def)

section \<open>Timeouts in detail\<close>

lemma distinct_keys_eq: "distinct (map fst al) \<Longrightarrow> e \<in> set al \<Longrightarrow> e' \<in> set al \<Longrightarrow> fst e = fst e' \<Longrightarrow> e = e'"
  by (metis eq_key_imp_eq_value prod.collapse)

lemma filter_expired:
  assumes "distinct (map fst al)"
  shows "filter (\<lambda>e. fst e \<notin> set (map fst (filter P al))) al = filter (\<lambda>e. \<not> P e) al"
  using distinct_keys_eq [OF assms] by (intro filter_cong) auto

lemma fold_complete:
  assumes "io_inv (tbl, io)" "i < length (ib_shards io)" "distinct ks"
    and "\<And>k. k \<in> set ks \<Longrightarrow> map_of (shard_pending io i) k \<noteq> None"
  shows "\<exists>tbl' io'. fold (\<lambda>k. complete_forward i k c) ks (tbl, io) = (tbl', io')
    \<and> io_inv (tbl', io') \<and> length (ib_shards io') = length (ib_shards io)
    \<and> shard_pending io' i = fold AList.delete ks (shard_pending io i)
    \<and> (\<forall>j < length (ib_shards io). j \<noteq> i \<longrightarrow> shard_pending io' j = shard_pending io j)
    \<and> ib_resumes io' = ib_resumes io @ map (\<lambda>k.
        \<lparr>res_slot = pf_slot (the (map_of (shard_pending io i) k)), res_completion = c\<rparr>) ks
    \<and> tt_lookup tbl' = tt_lookup tbl |` (- set ks)"
  using assms
proof (induction ks arbitrary: tbl io)
  case (Cons k ks)
  show ?case
  proof (cases rule: complete_cases [OF Cons.prems(1,2), where key = k and c = c])
    case 1
    then show ?thesis
      using Cons.prems(4) [of k] by simp
  next
    case (2 p io1)
    have pend1: "map_of (shard_pending io1 i) k' = map_of (shard_pending io i) k'" if "k' \<in> set ks" for k'
      using that Cons.prems(2,3) 2(7) [of i] by (auto simp: delete_conv')
    obtain tbl' io' where step:
      "fold (\<lambda>k. complete_forward i k c) ks (tt_remove k tbl, io1) = (tbl', io')"
      "io_inv (tbl', io')" "length (ib_shards io') = length (ib_shards io)"
      "shard_pending io' i = fold AList.delete ks (shard_pending io1 i)"
      "\<forall>j < length (ib_shards io). j \<noteq> i \<longrightarrow> shard_pending io' j = shard_pending io1 j"
      "ib_resumes io' = ib_resumes io1 @ map (\<lambda>k.
        \<lparr>res_slot = pf_slot (the (map_of (shard_pending io1 i) k)), res_completion = c\<rparr>) ks"
      "tt_lookup tbl' = tt_lookup (tt_remove k tbl) |` (- set ks)"
      using Cons.IH [OF 2(3), of] Cons.prems(2-4) 2(4) pend1 by fastforce
    have "map (\<lambda>k. \<lparr>res_slot = pf_slot (the (map_of (shard_pending io1 i) k)), res_completion = c\<rparr>) ks
        = map (\<lambda>k. \<lparr>res_slot = pf_slot (the (map_of (shard_pending io i) k)), res_completion = c\<rparr>) ks"
      using pend1 by simp
    then show ?thesis
      using step 2 Cons.prems(2)
      by (intro exI [of _ tbl'] exI [of _ io'])
        (simp add: restrict_map_def fun_eq_iff)
  qed
qed (auto simp: restrict_map_def)

lemma foldl_min: "foldl min d ds \<le> (d :: nat) \<and> (\<forall>x \<in> set ds. foldl min d ds \<le> x)"
proof (induction ds arbitrary: d)
  case (Cons y ds)
  then show ?case
    using Cons.IH [of "min d y"] by auto
qed simp

lemma poll_wait_le:
  "poll_wait now sh \<le> IDLE_POLL_INTERVAL"
  "(k, p) \<in> set (sh_pending sh) \<Longrightarrow> poll_wait now sh \<le> pf_deadline p - now"
proof -
  show "poll_wait now sh \<le> IDLE_POLL_INTERVAL"
    by (simp add: poll_wait_def split: option.splits)
  assume mem: "(k, p) \<in> set (sh_pending sh)"
  let ?ws = "map (\<lambda>(_, p). elapsed (pf_deadline p) now) (sh_pending sh)"
  have "pf_deadline p - now \<in> set ?ws"
    using mem by (force simp: elapsed_def)
  then obtain d ds where ws: "?ws = d # ds" "pf_deadline p - now \<in> set (d # ds)"
    by (cases ?ws) auto
  then have "foldl min d ds \<le> pf_deadline p - now"
    using foldl_min [of d ds] by auto
  then show "poll_wait now sh \<le> pf_deadline p - now"
    using ws by (simp add: poll_wait_def next_wait_timeout_def)
qed

text \<open>C36: A poll of the timeouts resumes exactly the forwards whose deadline has passed,
  each with the timeout outcome and in the order of the pending entries, frees their
  identifiers, and leaves every other forward and every other shard as it was.  The
  wait that follows, computed from a later reading of the clock, ends no later than the
  next deadline, or at once if that has passed by then.\<close>

theorem poll_timeouts_spec:
  assumes "io_inv (tbl, io)" "i < length (ib_shards io)"
  shows "let (tbl', io') = poll_timeouts now i (tbl, io);
             due = filter (\<lambda>(_, p). pf_deadline p \<le> now) (shard_pending io i) in
    shard_pending io' i = filter (\<lambda>(_, p). now < pf_deadline p) (shard_pending io i)
    \<and> (\<forall>j < length (ib_shards io). j \<noteq> i \<longrightarrow> shard_pending io' j = shard_pending io j)
    \<and> ib_resumes io' = ib_resumes io
        @ map (\<lambda>(_, p). \<lparr>res_slot = pf_slot p, res_completion = WcTimeout\<rparr>) due
    \<and> tt_lookup tbl' = tt_lookup tbl |` (- set (map fst due))
    \<and> (\<forall>(_, p) \<in> set (shard_pending io' i). \<forall>later \<ge> now.
         now < pf_deadline p \<and> later + poll_wait later (ib_shards io' ! i) \<le> max later (pf_deadline p))"
proof -
  let ?al = "shard_pending io i"
  let ?due = "filter (\<lambda>(_, p). pf_deadline p \<le> now) ?al"
  note dist = io_invD(3) [OF assms]
  have keys: "expired_keys now (ib_shards io ! i) = map fst ?due"
    by (simp add: expired_keys_def shard_pending_def)
  have dk: "distinct (map fst ?due)"
    using dist by (simp add: distinct_map_filter)
  have have_keys: "map_of ?al k \<noteq> None" if "k \<in> set (map fst ?due)" for k
    using that by (auto simp: map_of_eq_None_iff)
  obtain tbl' io' where run: "poll_timeouts now i (tbl, io) = (tbl', io')"
    "shard_pending io' i = fold AList.delete (map fst ?due) ?al"
    "\<forall>j < length (ib_shards io). j \<noteq> i \<longrightarrow> shard_pending io' j = shard_pending io j"
    "ib_resumes io' = ib_resumes io @ map (\<lambda>k.
        \<lparr>res_slot = pf_slot (the (map_of ?al k)), res_completion = WcTimeout\<rparr>) (map fst ?due)"
    "tt_lookup tbl' = tt_lookup tbl |` (- set (map fst ?due))"
    using fold_complete [OF assms dk have_keys, of WcTimeout] unfolding poll_timeouts_def snd_conv keys
    by blast
  have "map (\<lambda>k. \<lparr>res_slot = pf_slot (the (map_of ?al k)), res_completion = WcTimeout\<rparr>) (map fst ?due)
      = map (\<lambda>(_, p). \<lparr>res_slot = pf_slot p, res_completion = WcTimeout\<rparr>) ?due"
    using dist by auto
  moreover have rest: "shard_pending io' i = filter (\<lambda>(_, p). now < pf_deadline p) ?al"
    using run(2) filter_expired [OF dist, of "\<lambda>(_, p). pf_deadline p \<le> now"]
    by (simp add: fold_delete case_prod_beta' not_le)
  moreover have "now < pf_deadline p \<and> later + poll_wait later (ib_shards io' ! i) \<le> max later (pf_deadline p)"
    if "(k, p) \<in> set (shard_pending io' i)" for k p later
    using that rest poll_wait_le(2) [of k p "ib_shards io' ! i" later]
    by (auto simp: shard_pending_def max_def)
  ultimately show ?thesis
    using run by (auto simp: Let_def)
qed

definition example_pending :: "txn_table \<times> io_backend"
  where "example_pending =
    (let key = \<lparr>fk_backend = SocketV4 0x01010101 53, fk_dns_id = 0\<rparr> in
     (\<lparr>tt_capacity = 10, tt_per_backend_limit = 10, tt_entries = [(key, 7)],
       tt_per_backend = [(SocketV4 0x01010101 53, 1)], tt_next_dns_id = 1\<rparr>,
      \<lparr>ib_shards = [\<lparr>sh_timeout = from_millis 2000,
         sh_pending = [(key, \<lparr>pf_slot = 7, pf_deadline = 50\<rparr>)], sh_egress = None\<rparr>],
       ib_resumes = []\<rparr>))"

lemma example_pending_inv: "io_inv (fst example_pending, snd example_pending)"
  unfolding example_pending_def Let_def fst_conv snd_conv
  by (rule io_invI)
    (auto simp: shard_pending_def shard_index_def tt_lookup_def tt_inv_def backend_count_alt
      outstanding_def)

theorem poll_timeouts_spec_witness:
  "ib_resumes (snd (poll_timeouts 60 0 example_pending))
     = [\<lparr>res_slot = 7, res_completion = WcTimeout\<rparr>]"
  using poll_timeouts_spec [OF example_pending_inv, of 0 60]
  by (auto simp: Let_def split_beta example_pending_def shard_pending_def)

section \<open>Identifiers on the wire\<close>

lemma rewrite_dns_id_length [simp]: "length (rewrite_dns_id i wire) = length wire"
  by (simp add: rewrite_dns_id_def)

lemma rewrite_dns_id_rest: "2 \<le> k \<Longrightarrow> rewrite_dns_id i wire ! k = wire ! k"
  by (simp add: rewrite_dns_id_def)

lemma be_u16_bytes: "be_u16 (ucast (drop_bit 8 i)) (ucast i) = i"
proof -
  have "push_bit 8 (ucast (ucast (drop_bit 8 i) :: u8)) + ucast (ucast i :: u8) = (i :: u16)"
    by (rule bit_word_eqI, subst disjunctive_add)
      (auto simp: bit_simps bit_or_iff)
  then show ?thesis
    by (simp add: be_u16_def)
qed

section \<open>Egress sockets\<close>

lemma rr_list_nonempty: "rr_list ps fs = Some addrs \<Longrightarrow> addrs \<noteq> [] \<and> (addrs = ps \<or> addrs = fs)"
  by (auto simp: rr_list_def split: if_splits)

lemma io_udp_socket_for_pending [simp]:
  "pend (snd (io_udp_socket_for slot sel io)) = pend io"
  "ib_resumes (snd (io_udp_socket_for slot sel io)) = ib_resumes io"
  "io_inv (tbl, snd (io_udp_socket_for slot sel io)) = io_inv (tbl, io)"
proof -
  have upd: "map sh_pending (ib_shards (upd_shard i (\<lambda>sh. sh\<lparr>sh_egress := e\<rparr>) io)) = map sh_pending (ib_shards io)"
    for i e
  proof (rule nth_equalityI)
    fix j
    show "j < length (map sh_pending (ib_shards (upd_shard i (\<lambda>sh. sh\<lparr>sh_egress := e\<rparr>) io))) \<Longrightarrow>
        map sh_pending (ib_shards (upd_shard i (\<lambda>sh. sh\<lparr>sh_egress := e\<rparr>) io)) ! j
          = map sh_pending (ib_shards io) ! j"
      by (cases "i = j") (auto simp: upd_shard_def)
  qed simp
  have "map sh_pending (ib_shards (snd (io_udp_socket_for slot sel io))) = map sh_pending (ib_shards io)
      \<and> length (ib_shards (snd (io_udp_socket_for slot sel io))) = length (ib_shards io)
      \<and> ib_resumes (snd (io_udp_socket_for slot sel io)) = ib_resumes io"
    using upd by (auto simp: io_udp_socket_for_def Let_def split_beta split: option.splits)
  then have eq: "map sh_pending (ib_shards (snd (io_udp_socket_for slot sel io))) = map sh_pending (ib_shards io)"
    "length (ib_shards (snd (io_udp_socket_for slot sel io))) = length (ib_shards io)"
    "ib_resumes (snd (io_udp_socket_for slot sel io)) = ib_resumes io"
    by auto
  show "pend (snd (io_udp_socket_for slot sel io)) = pend io"
    by (simp add: pend_def eq)
  show "ib_resumes (snd (io_udp_socket_for slot sel io)) = ib_resumes io"
    by (rule eq)
  have sp: "shard_pending (snd (io_udp_socket_for slot sel io)) i = shard_pending io i"
    if "i < length (ib_shards io)" for i
    using that eq(1,2) by (metis nth_map shard_pending_def)
  have "ib_shards (snd (io_udp_socket_for slot sel io)) = [] \<longleftrightarrow> ib_shards io = []"
    using eq(2) by (metis length_0_conv)
  then show "io_inv (tbl, snd (io_udp_socket_for slot sel io)) = io_inv (tbl, io)"
    by (simp add: io_inv_def eq(2) sp shard_index_def cong: conj_cong)
qed

end
