(* ===== verification/Work_Queue.thy ===== *)
theory Work_Queue
  imports Io_Backend
begin

text \<open>
  The work queue and the reply routes of the split I/O runtime
  (\<open>crates/conduit-dataplane/src/runtime/split_io/queue.rs\<close>).  Both are sharded by
  slot, a shard is a critical section of its own, and a run of several threads is a
  sequence of operations on single shards.

  The interface \<open>slot_queue\<close> is what ingress and policy workers rely on: the work of
  a slot is taken in the order in which it was queued.  Condition variables only
  bound how long a worker sleeps and are not modelled.
\<close>

section \<open>The queue\<close>

definition MAX_QUEUE_SHARDS :: nat
  where "MAX_QUEUE_SHARDS = 64"

text \<open>\<open>usize::next_power_of_two\<close>: doubling from \<open>p\<close> until \<open>n\<close> is reached.\<close>

function pow2_from :: "nat \<Rightarrow> nat \<Rightarrow> nat"
  where "pow2_from n p = (if n \<le> p \<or> p = 0 then p else pow2_from n (2 * p))"
  by pat_completeness auto
termination
  by (relation "measure (\<lambda>(n, p). n - p)") auto

declare pow2_from.simps [simp del]

definition next_power_of_two :: "nat \<Rightarrow> nat"
  where "next_power_of_two n = pow2_from n 1"

definition derive_shard_count :: "u32 \<Rightarrow> nat"
  where "derive_shard_count policy_workers =
    (let workers = max (unat policy_workers) 1; n = max workers 4 in
     min (max (next_power_of_two n) 1) MAX_QUEUE_SHARDS)"

datatype policy_work = NewWork slot_id | Resume io_resume | LookupResume slot_id

fun work_slot :: "policy_work \<Rightarrow> slot_id"
  where
    "work_slot (NewWork i) = i"
  | "work_slot (LookupResume i) = i"
  | "work_slot (Resume r) = res_slot r"

record policy_queue =
  pq_shards :: "policy_work list list"

definition queue_with_shards :: "nat \<Rightarrow> policy_queue"
  where "queue_with_shards shard_count = \<lparr>pq_shards = replicate (max shard_count 1) []\<rparr>"

definition queue_shard_for_slot :: "slot_id \<Rightarrow> policy_queue \<Rightarrow> nat"
  where "queue_shard_for_slot slot q = unat slot mod length (pq_shards q)"

definition queue_push :: "policy_work \<Rightarrow> policy_queue \<Rightarrow> policy_queue"
  where "queue_push work q =
    (let idx = queue_shard_for_slot (work_slot work) q in
     q\<lparr>pq_shards := (pq_shards q)[idx := pq_shards q ! idx @ [work]]\<rparr>)"

definition try_pop_shard :: "nat \<Rightarrow> policy_queue \<Rightarrow> policy_work option \<times> policy_queue"
  where "try_pop_shard idx q =
    (case pq_shards q ! idx of
       [] \<Rightarrow> (None, q)
     | work # rest \<Rightarrow> (Some work, q\<lparr>pq_shards := (pq_shards q)[idx := rest]\<rparr>))"

text \<open>One scan of \<open>pop\<close>: the home shard, then the others in turn, from \<open>offset\<close> on.\<close>

function steal_from :: "nat \<Rightarrow> nat \<Rightarrow> policy_queue \<Rightarrow> policy_work option \<times> policy_queue"
  where "steal_from home offset q =
    (if length (pq_shards q) \<le> offset then (None, q)
     else case try_pop_shard ((home + offset) mod length (pq_shards q)) q of
       (Some work, q') \<Rightarrow> (Some work, q')
     | (None, _) \<Rightarrow> steal_from home (offset + 1) q)"
  by pat_completeness auto
termination
  by (relation "measure (\<lambda>(home, offset, q). length (pq_shards q) - offset)") auto

declare steal_from.simps [simp del]

definition pop_scan :: "nat \<Rightarrow> policy_queue \<Rightarrow> policy_work option \<times> policy_queue"
  where "pop_scan home_shard q =
    (let home = home_shard mod length (pq_shards q) in
     case try_pop_shard home q of
       (Some work, q') \<Rightarrow> (Some work, q')
     | (None, _) \<Rightarrow> steal_from home 1 q)"

text \<open>The loop of \<open>pop\<close>, one element of \<open>arrivals\<close> per turn: whether the shutdown flag is
  set, and the work that other threads queue while the worker waits.\<close>

fun pop_loop ::
  "nat \<Rightarrow> (bool \<times> policy_work list) list \<Rightarrow> policy_queue \<Rightarrow> policy_work option \<times> policy_queue"
  where
    "pop_loop home_shard [] q = (None, q)"
  | "pop_loop home_shard ((shutdown, arriving) # turns) q =
      (if shutdown then (None, q)
       else case pop_scan home_shard q of
         (Some work, q') \<Rightarrow> (Some work, q')
       | (None, _) \<Rightarrow> pop_loop home_shard turns (fold queue_push arriving q))"

section \<open>The interface\<close>

datatype 'w queue_act = Push 'w | PopAt nat

text \<open>A run: what was pushed, what was popped, and the queue at the end.\<close>

fun queue_run ::
  "('w \<Rightarrow> 'q \<Rightarrow> 'q) \<Rightarrow> (nat \<Rightarrow> 'q \<Rightarrow> 'w option \<times> 'q) \<Rightarrow> 'w queue_act list \<Rightarrow> 'q
    \<Rightarrow> 'w list \<times> 'w list \<times> 'q"
  where
    "queue_run push pop [] q = ([], [], q)"
  | "queue_run push pop (Push w # acts) q =
      (let (pushed, popped, q') = queue_run push pop acts (push w q) in (w # pushed, popped, q'))"
  | "queue_run push pop (PopAt n # acts) q =
      (let (r, q1) = pop n q; (pushed, popped, q') = queue_run push pop acts q1 in
       (pushed, (case r of Some w \<Rightarrow> w # popped | None \<Rightarrow> popped), q'))"

locale slot_queue =
  fixes inv :: "'q \<Rightarrow> bool"
    and content :: "'q \<Rightarrow> 'i \<Rightarrow> 'w list"
    and slot_of :: "'w \<Rightarrow> 'i"
    and push :: "'w \<Rightarrow> 'q \<Rightarrow> 'q"
    and pop_at :: "nat \<Rightarrow> 'q \<Rightarrow> 'w option \<times> 'q"
  assumes push_inv: "inv q \<Longrightarrow> inv (push w q)"
    and push_content: "inv q \<Longrightarrow>
      content (push w q) i = content q i @ (if slot_of w = i then [w] else [])"
    and pop_inv: "inv q \<Longrightarrow> inv (snd (pop_at n q))"
    and pop_None: "inv q \<Longrightarrow> pop_at n q = (None, q') \<Longrightarrow> content q' = content q"
    and pop_Some: "inv q \<Longrightarrow> pop_at n q = (Some w, q') \<Longrightarrow>
      content q i = (if slot_of w = i then [w] else []) @ content q' i"
begin

lemma run_fifo:
  assumes "inv q" "queue_run push pop_at acts q = (pushed, popped, q')"
  shows "inv q' \<and> content q i @ filter (\<lambda>w. slot_of w = i) pushed
    = filter (\<lambda>w. slot_of w = i) popped @ content q' i"
  using assms
proof (induction acts arbitrary: q pushed popped)
  case (Cons act acts)
  show ?case
  proof (cases act)
    case (Push w)
    obtain pushed1 where run: "queue_run push pop_at acts (push w q) = (pushed1, popped, q')" "pushed = w # pushed1"
      using Cons.prems(2) Push by (auto split: prod.splits)
    show ?thesis
      using Cons.IH [OF push_inv [OF Cons.prems(1)] run(1)] push_content [OF Cons.prems(1), of w i] run(2)
      by auto
  next
    case (PopAt n)
    obtain r q1 popped1 where pop: "pop_at n q = (r, q1)" "queue_run push pop_at acts q1 = (pushed, popped1, q')"
      "popped = (case r of Some w \<Rightarrow> w # popped1 | None \<Rightarrow> popped1)"
      using Cons.prems(2) PopAt by (auto split: prod.splits)
    have "inv q1"
      using pop_inv [OF Cons.prems(1), of n] pop(1) by simp
    then show ?thesis
      using Cons.IH [OF _ pop(2)] pop_None [OF Cons.prems(1)] pop_Some [OF Cons.prems(1), of n _ q1 i] pop
      by (cases r) auto
  qed
qed simp

end

section \<open>The queue implements it\<close>

definition queue_inv :: "policy_queue \<Rightarrow> bool"
  where "queue_inv q \<longleftrightarrow> pq_shards q \<noteq> []
    \<and> (\<forall>i < length (pq_shards q). \<forall>w \<in> set (pq_shards q ! i). queue_shard_for_slot (work_slot w) q = i)"

definition queue_content :: "policy_queue \<Rightarrow> slot_id \<Rightarrow> policy_work list"
  where "queue_content q slot =
    filter (\<lambda>w. work_slot w = slot) (pq_shards q ! queue_shard_for_slot slot q)"

text \<open>A worker pops at an arbitrary index, reduced to the shards there are.\<close>

definition pop_any :: "nat \<Rightarrow> policy_queue \<Rightarrow> policy_work option \<times> policy_queue"
  where "pop_any n q = try_pop_shard (n mod length (pq_shards q)) q"

lemma queue_shard_less: "pq_shards q \<noteq> [] \<Longrightarrow> queue_shard_for_slot slot q < length (pq_shards q)"
  by (simp add: queue_shard_for_slot_def)

lemma queue_shard_upd [simp]:
  "queue_shard_for_slot slot (q\<lparr>pq_shards := (pq_shards q)[i := x]\<rparr>) = queue_shard_for_slot slot q"
  by (simp add: queue_shard_for_slot_def)

interpretation pq: slot_queue queue_inv queue_content work_slot queue_push pop_any
proof
  fix q w
  assume inv: "queue_inv q"
  show "queue_inv (queue_push w q)"
    using inv queue_shard_less [of q "work_slot w"]
    by (auto simp: queue_inv_def queue_push_def Let_def nth_list_update split: if_splits)
  show "queue_content (queue_push w q) i = queue_content q i @ (if work_slot w = i then [w] else [])" for i
    using inv queue_shard_less [of q "work_slot w"]
    by (cases "queue_shard_for_slot (work_slot w) q = queue_shard_for_slot i q")
      (auto simp: queue_inv_def queue_content_def queue_push_def Let_def)
next
  fix q n
  assume inv: "queue_inv q"
  let ?i = "n mod length (pq_shards q)"
  have i: "?i < length (pq_shards q)"
    using inv by (simp add: queue_inv_def)
  show "queue_inv (snd (pop_any n q))"
  proof (cases "pq_shards q ! ?i")
    case (Cons w rest)
    then have "\<forall>v \<in> set rest. queue_shard_for_slot (work_slot v) q = ?i"
      using inv i by (auto simp: queue_inv_def)
    then show ?thesis
      using inv Cons by (auto simp: queue_inv_def pop_any_def try_pop_shard_def nth_list_update
          split: if_splits)
  qed (use inv in \<open>simp add: pop_any_def try_pop_shard_def\<close>)
next
  fix q n q'
  assume "queue_inv q" "pop_any n q = (None, q')"
  then show "queue_content q' = queue_content q"
    by (auto simp: pop_any_def try_pop_shard_def split: list.splits)
next
  fix q n w q' i
  assume inv: "queue_inv q" and pop: "pop_any n q = (Some w, q')"
  let ?i = "n mod length (pq_shards q)"
  have i: "?i < length (pq_shards q)"
    using inv by (simp add: queue_inv_def)
  obtain rest where rest: "pq_shards q ! ?i = w # rest" "q' = q\<lparr>pq_shards := (pq_shards q)[?i := rest]\<rparr>"
    using pop by (auto simp: pop_any_def try_pop_shard_def split: list.splits)
  have "queue_shard_for_slot (work_slot w) q = ?i"
    using inv i rest(1) by (auto simp: queue_inv_def)
  then show "queue_content q i = (if work_slot w = i then [w] else []) @ queue_content q' i"
    using rest i by (cases "queue_shard_for_slot i q = ?i") (auto simp: queue_content_def)
qed

lemma queue_inv_new: "queue_inv (queue_with_shards n)"
  by (auto simp: queue_inv_def queue_with_shards_def)

lemma queue_content_new: "queue_content (queue_with_shards n) slot = []"
  by (simp add: queue_content_def queue_with_shards_def queue_shard_for_slot_def)

text \<open>C37: In every interleaving of producers and workers on the shards of a queue, the work
  of each slot is taken in the order in which it was queued, nothing is lost and
  nothing is taken twice: what was taken of a slot followed by what is still queued
  for it is what was queued.\<close>

theorem policy_queue_fifo_per_slot:
  "case queue_run queue_push pop_any acts (queue_with_shards n) of (pushed, popped, q) \<Rightarrow>
     filter (\<lambda>w. work_slot w = slot) pushed
       = filter (\<lambda>w. work_slot w = slot) popped @ queue_content q slot"
  using pq.run_fifo [OF queue_inv_new, of acts n _ _ _ slot]
  by (auto simp: queue_content_new split: prod.splits)

section \<open>A scan finds work if there is any\<close>

lemma steal_from_Some:
  "steal_from home offset q = (Some w, q') \<Longrightarrow> \<exists>n. pop_any n q = (Some w, q')"
proof (induction home offset q rule: steal_from.induct)
  case (1 home offset q)
  from "1.prems" show ?case
    by (subst (asm) steal_from.simps)
      (use "1.IH" in \<open>auto simp: pop_any_def split: if_splits option.splits prod.splits\<close>)
qed

lemma try_pop_None: "try_pop_shard i q = (None, q') \<longleftrightarrow> pq_shards q ! i = [] \<and> q' = q"
  by (auto simp: try_pop_shard_def split: list.splits)

lemma steal_from_None:
  "steal_from home offset q = (None, q') \<Longrightarrow>
   q' = q \<and> (\<forall>k. offset \<le> k \<and> k < length (pq_shards q)
     \<longrightarrow> pq_shards q ! ((home + k) mod length (pq_shards q)) = [])"
proof (induction home offset q rule: steal_from.induct)
  case (1 home offset q)
  show ?case
  proof (cases "length (pq_shards q) \<le> offset")
    case True
    then show ?thesis
      using "1.prems" by (subst (asm) steal_from.simps) auto
  next
    case False
    obtain q1 where empty: "try_pop_shard ((home + offset) mod length (pq_shards q)) q = (None, q1)"
      and rest: "steal_from home (offset + 1) q = (None, q')"
      using "1.prems" False by (subst (asm) steal_from.simps) (auto split: option.splits prod.splits)
    then have "q' = q \<and> (\<forall>k. offset + 1 \<le> k \<and> k < length (pq_shards q)
        \<longrightarrow> pq_shards q ! ((home + k) mod length (pq_shards q)) = [])"
      using "1.IH" [OF False empty [symmetric] refl rest] by simp
    then show ?thesis
      using empty by (auto simp: try_pop_None le_Suc_eq Suc_le_eq)
        (metis Suc_leI le_neq_implies_less)
  qed
qed

lemma rotation_reaches:
  assumes "home < n" "i < (n :: nat)" "i \<noteq> home"
  shows "\<exists>k. 1 \<le> k \<and> k < n \<and> (home + k) mod n = i"
proof (cases "home < i")
  case True
  then show ?thesis
    using assms by (intro exI [of _ "i - home"]) auto
next
  case False
  then show ?thesis
    using assms by (intro exI [of _ "n + i - home"]) (auto simp: mod_if)
qed

text \<open>A scan of the queue by a worker comes back empty-handed only if no work is queued
  for any slot; otherwise it takes the oldest work of one shard, and of the worker's
  home shard if that has any.\<close>

theorem pop_scan_spec:
  assumes "queue_inv q"
  shows "case pop_scan home q of
      (None, q') \<Rightarrow> q' = q \<and> (\<forall>slot. queue_content q slot = [])
    | (Some w, q') \<Rightarrow> (\<exists>n. pop_any n q = (Some w, q'))
        \<and> (pq_shards q ! (home mod length (pq_shards q)) = []
           \<or> w = hd (pq_shards q ! (home mod length (pq_shards q))))"
proof -
  let ?n = "length (pq_shards q)"
  have n: "0 < ?n"
    using assms by (simp add: queue_inv_def)
  show ?thesis
  proof (cases "pq_shards q ! (home mod ?n)")
    case (Cons w rest)
    then show ?thesis
      by (auto simp: pop_scan_def try_pop_shard_def pop_any_def Let_def intro: exI [of _ home])
  next
    case Nil
    then have scan: "pop_scan home q = steal_from (home mod ?n) 1 q"
      by (simp add: pop_scan_def try_pop_shard_def Let_def)
    show ?thesis
    proof (cases "steal_from (home mod ?n) 1 q")
      case (Pair r q')
      show ?thesis
      proof (cases r)
        case None
        have empty: "pq_shards q ! i = []" if "i < ?n" for i
          using steal_from_None [of "home mod ?n" 1 q q'] rotation_reaches [of "home mod ?n" ?n i]
            that Nil Pair None n
          by (cases "i = home mod ?n") auto
        then have "queue_content q slot = []" for slot
          using queue_shard_less [of q slot] n by (simp add: queue_content_def)
        then show ?thesis
          using scan Pair None steal_from_None [of "home mod ?n" 1 q q'] by simp
      next
        case (Some w)
        then show ?thesis
          using scan Pair Nil steal_from_Some [of "home mod ?n" 1 q w q'] by simp
      qed
    qed
  qed
qed

theorem pop_scan_spec_witness:
  "\<exists>n q'. pop_any n (queue_push (NewWork 4) (queue_with_shards 2)) = (Some (NewWork 4), q')"
proof -
  let ?q = "queue_push (NewWork 4) (queue_with_shards 2)"
  have two: "queue_with_shards 2 = \<lparr>pq_shards = [[], []]\<rparr>"
    by (simp add: queue_with_shards_def numeral_2_eq_2)
  have "fst (pop_scan 1 ?q) = Some (NewWork 4)"
    by (simp add: two queue_push_def queue_shard_for_slot_def pop_scan_def
        try_pop_shard_def steal_from.simps Let_def flip: numeral_2_eq_2)
  then show ?thesis
    using pop_scan_spec [of ?q 1] pq.push_inv [OF queue_inv_new]
    by (cases "pop_scan 1 ?q") auto
qed

section \<open>The number of shards\<close>

lemma pow2_from_spec:
  "p = 2 ^ k \<Longrightarrow> n \<le> pow2_from n p \<and> (\<exists>j. pow2_from n p = 2 ^ j) \<and> p \<le> pow2_from n p"
proof (induction n p arbitrary: k rule: pow2_from.induct)
  case (1 n p)
  show ?case
  proof (cases "n \<le> p")
    case True
    then show ?thesis
      using "1.prems" by (subst (1 2 3) pow2_from.simps) auto
  next
    case False
    have "p \<noteq> 0"
      using "1.prems" by simp
    then have "n \<le> pow2_from n (2 * p) \<and> (\<exists>j. pow2_from n (2 * p) = 2 ^ j) \<and> 2 * p \<le> pow2_from n (2 * p)"
      using "1.IH" [of "Suc k"] False "1.prems" by simp
    then show ?thesis
      using False \<open>p \<noteq> 0\<close> by (subst (1 2 3) pow2_from.simps) auto
  qed
qed

lemma derive_shard_count_bounds:
  "4 \<le> derive_shard_count w" "derive_shard_count w \<le> 64" "\<exists>k. derive_shard_count w = 2 ^ k"
  "min (unat w) 64 \<le> derive_shard_count w"
proof -
  define n where "n = max (max (unat w) 1) 4"
  have p: "n \<le> next_power_of_two n" "\<exists>j. next_power_of_two n = 2 ^ j"
    using pow2_from_spec [of 1 0 n] by (auto simp: next_power_of_two_def)
  have n: "4 \<le> n" "unat w \<le> n"
    by (auto simp: n_def)
  have d: "derive_shard_count w = min (next_power_of_two n) 64"
    using p n unfolding derive_shard_count_def Let_def n_def [symmetric] MAX_QUEUE_SHARDS_def
    by simp
  show "4 \<le> derive_shard_count w" "derive_shard_count w \<le> 64"
    "min (unat w) 64 \<le> derive_shard_count w"
    using p n d by auto
  have "(64 :: nat) = 2 ^ 6"
    by simp
  then show "\<exists>k. derive_shard_count w = 2 ^ k"
    using p(2) d by (metis min_def)
qed

section \<open>Reply routes\<close>

text \<open>A socket and a channel are identified by numbers.\<close>

datatype reply_target = ReplyUdp nat socket_addr | ReplyTcp nat

record reply_routes =
  rr_shards :: "(slot_id \<rightharpoonup> reply_target) list"

definition routes_with_shards :: "nat \<Rightarrow> reply_routes"
  where "routes_with_shards shard_count = \<lparr>rr_shards = replicate (max shard_count 1) Map.empty\<rparr>"

definition routes_shard_for_slot :: "slot_id \<Rightarrow> reply_routes \<Rightarrow> nat"
  where "routes_shard_for_slot slot r = unat slot mod length (rr_shards r)"

definition routes_insert :: "slot_id \<Rightarrow> reply_target \<Rightarrow> reply_routes \<Rightarrow> reply_routes"
  where "routes_insert slot target r =
    (let idx = routes_shard_for_slot slot r in
     r\<lparr>rr_shards := (rr_shards r)[idx := (rr_shards r ! idx)(slot \<mapsto> target)]\<rparr>)"

definition routes_take :: "slot_id \<Rightarrow> reply_routes \<Rightarrow> reply_target option \<times> reply_routes"
  where "routes_take slot r =
    (let idx = routes_shard_for_slot slot r in
     ((rr_shards r ! idx) slot,
      r\<lparr>rr_shards := (rr_shards r)[idx := (rr_shards r ! idx)(slot := None)]\<rparr>))"

text \<open>What is sent to whom.\<close>

definition deliver_reply ::
  "slot_id \<Rightarrow> bytes \<Rightarrow> reply_routes \<Rightarrow> (reply_target \<times> bytes) option \<times> reply_routes"
  where "deliver_reply slot wire r =
    (let (target, r') = routes_take slot r in
     (map_option (\<lambda>tg. (tg, wire)) target, r'))"

definition route_of :: "reply_routes \<Rightarrow> slot_id \<Rightarrow> reply_target option"
  where "route_of r slot = (rr_shards r ! routes_shard_for_slot slot r) slot"

definition routes_inv :: "reply_routes \<Rightarrow> bool"
  where "routes_inv r \<longleftrightarrow> rr_shards r \<noteq> []"

lemma routes_shard_upd [simp]:
  "routes_shard_for_slot slot (r\<lparr>rr_shards := (rr_shards r)[i := x]\<rparr>) = routes_shard_for_slot slot r"
  by (simp add: routes_shard_for_slot_def)

lemma routes_upd:
  assumes "routes_inv r"
  shows "route_of (r\<lparr>rr_shards := (rr_shards r)[routes_shard_for_slot slot r :=
      (rr_shards r ! routes_shard_for_slot slot r)(slot := v)]\<rparr>) = (route_of r)(slot := v)"
proof
  fix i
  have "routes_shard_for_slot slot r < length (rr_shards r)"
    using assms by (simp add: routes_inv_def routes_shard_for_slot_def)
  then show "route_of (r\<lparr>rr_shards := (rr_shards r)[routes_shard_for_slot slot r :=
      (rr_shards r ! routes_shard_for_slot slot r)(slot := v)]\<rparr>) i = ((route_of r)(slot := v)) i"
    by (cases "routes_shard_for_slot i r = routes_shard_for_slot slot r") (auto simp: route_of_def)
qed

text \<open>The sharded routes are one map.\<close>

lemma routes_refine:
  assumes "routes_inv r"
  shows "routes_inv (routes_insert slot tg r)" "route_of (routes_insert slot tg r) = (route_of r)(slot \<mapsto> tg)"
    and "routes_inv (snd (routes_take slot r))" "fst (routes_take slot r) = route_of r slot"
    and "route_of (snd (routes_take slot r)) = (route_of r)(slot := None)"
  using assms routes_upd [OF assms, of slot]
  by (simp_all add: routes_insert_def routes_take_def Let_def routes_inv_def)
    (simp add: route_of_def)

lemma routes_inv_new: "routes_inv (routes_with_shards n)" "route_of (routes_with_shards n) = Map.empty"
  by (auto simp: routes_inv_def routes_with_shards_def route_of_def routes_shard_for_slot_def fun_eq_iff)

end
