(* ===== verification/Cache_Store.thy ===== *)
theory Cache_Store
  imports Transaction
begin

text \<open>
  The in-memory answer cache of \<open>crates/conduit-core/src/lookup/cache\<close>: entries and
  their lifetime (\<open>entry.rs\<close>), and the sharded store with its capacity and its reaper
  (\<open>memory.rs\<close>).

  A shard is a critical section of its own and no operation holds two, so a run is a
  sequence of operations; the loop of \<open>insert\<close> gives up its shard to evict elsewhere
  and starts over.  The hash of a key only picks the shard and is a parameter.  A
  hash map is an association list with distinct keys, iterated in its order; the
  results hold for every list, so for every order of iteration.

  What is shown: the counter of live entries is exact, an insertion returns after at
  most one eviction, stores the entry, keeps the capacity, and drops a fresh entry
  only when the cache is full; a reaper pass drops expired entries only, and all of
  them when it is not cut short.
\<close>

section \<open>Entries\<close>

datatype entry_kind = Positive | NxDomain | NoData | ServFail

definition kind_from_rcode :: "u16 \<Rightarrow> u16 \<Rightarrow> entry_kind"
  where "kind_from_rcode rcode answer_count =
    (if rcode = 0 then (if answer_count = 0 then NoData else Positive)
     else if rcode = 3 then NxDomain
     else if rcode = 2 then ServFail else Positive)"

record cache_entry =
  ce_kind :: entry_kind
  ce_wire :: bytes
  ce_filled_at :: instant
  ce_expires_at :: instant

definition is_fresh :: "instant \<Rightarrow> cache_entry \<Rightarrow> bool"
  where "is_fresh now e = (now < ce_expires_at e)"

definition as_secs_u32 :: "duration \<Rightarrow> u32"
  where "as_secs_u32 d = (let s = d div 1000000000 in if s < 2 ^ 32 then of_nat s else - 1)"

definition ttl_remaining_secs :: "instant \<Rightarrow> cache_entry \<Rightarrow> u32"
  where "ttl_remaining_secs now e =
    (if ce_expires_at e \<le> now then 0 else as_secs_u32 (ce_expires_at e - now))"

definition expires_at_from_ttl :: "instant \<Rightarrow> u32 \<Rightarrow> instant"
  where "expires_at_from_ttl now ttl_secs = now + from_secs (unat ttl_secs)"

section \<open>The store\<close>

type_synonym cache_key = bytes
type_synonym cache_shard = "(cache_key \<times> cache_entry) list"

record memory_cache =
  mc_max_entries :: u64
  mc_live_entries :: u64
  mc_shards :: "cache_shard list"

datatype cache_get_result = GetHit | GetMiss | GetExpired

definition memory_from_config :: "u32 \<Rightarrow> u64 \<Rightarrow> memory_cache"
  where "memory_from_config shard_count max_entries =
    \<lparr>mc_max_entries = max_entries, mc_live_entries = 0,
     mc_shards = replicate (max (unat shard_count) 1) []\<rparr>"

definition mc_shard_index :: "(cache_key \<Rightarrow> u64) \<Rightarrow> cache_key \<Rightarrow> memory_cache \<Rightarrow> nat"
  where "mc_shard_index hash key m = unat (hash key) mod length (mc_shards m)"

definition mc_shard :: "(cache_key \<Rightarrow> u64) \<Rightarrow> cache_key \<Rightarrow> memory_cache \<Rightarrow> cache_shard"
  where "mc_shard hash key m = mc_shards m ! mc_shard_index hash key m"

definition mc_get :: "(cache_key \<Rightarrow> u64) \<Rightarrow> cache_key \<Rightarrow> instant \<Rightarrow> memory_cache \<Rightarrow> cache_entry option"
  where "mc_get hash key now m =
    (case map_of (mc_shard hash key m) key of
       None \<Rightarrow> None
     | Some entry \<Rightarrow> if is_fresh now entry then Some entry else None)"

definition mc_get_result :: "(cache_key \<Rightarrow> u64) \<Rightarrow> cache_key \<Rightarrow> instant \<Rightarrow> memory_cache \<Rightarrow> cache_get_result"
  where "mc_get_result hash key now m =
    (case map_of (mc_shard hash key m) key of
       None \<Rightarrow> GetMiss
     | Some entry \<Rightarrow> if is_fresh now entry then GetHit else GetMiss)"

definition evict_one_in_shard :: "instant \<Rightarrow> cache_shard \<Rightarrow> bool \<times> cache_shard"
  where "evict_one_in_shard now sh =
    (case find (\<lambda>(_, e). \<not> is_fresh now e) sh of
       Some (k, _) \<Rightarrow> (True, AList.delete k sh)
     | None \<Rightarrow> (case sh of
         (k, _) # _ \<Rightarrow> (True, AList.delete k sh)
       | [] \<Rightarrow> (False, [])))"

text \<open>The first shard, but the excluded one, that had something to evict.\<close>

fun evict_first :: "instant \<Rightarrow> nat option \<Rightarrow> cache_shard list \<Rightarrow> bool \<times> cache_shard list"
  where
    "evict_first now skip [] = (False, [])"
  | "evict_first now skip (sh # shs) =
      (let skip' = (case skip of Some (Suc i) \<Rightarrow> Some i | _ \<Rightarrow> None);
           r = (if skip = Some 0 then (False, sh) else evict_one_in_shard now sh) in
       if fst r then (True, snd r # shs)
       else let r' = evict_first now skip' shs in (fst r', sh # snd r'))"

definition evict_one :: "instant \<Rightarrow> memory_cache \<Rightarrow> bool \<times> memory_cache"
  where "evict_one now m =
    (let r = evict_first now None (mc_shards m) in
     if fst r then (True, m\<lparr>mc_shards := snd r, mc_live_entries := mc_live_entries m - 1\<rparr>)
     else (False, m))"

definition evict_one_excluding :: "nat \<Rightarrow> instant \<Rightarrow> memory_cache \<Rightarrow> bool \<times> memory_cache"
  where "evict_one_excluding idx now m =
    (let r = evict_first now (Some idx) (mc_shards m) in
     if fst r then (True, m\<lparr>mc_shards := snd r, mc_live_entries := mc_live_entries m - 1\<rparr>)
     else
       let r' = evict_one_in_shard now (mc_shards m ! idx) in
       if fst r' then (True, m\<lparr>mc_shards := (mc_shards m)[idx := snd r'],
           mc_live_entries := mc_live_entries m - 1\<rparr>)
       else (False, m))"

definition total_entries :: "memory_cache \<Rightarrow> nat"
  where "total_entries m = sum_list (map length (mc_shards m))"

lemma length_delete_mem:
  "map_of sh k \<noteq> None \<Longrightarrow> length (AList.delete k sh) < length sh"
proof (induction sh)
  case (Cons e sh)
  then show ?case
    using length_delete_le [of k sh] by (cases e) (auto simp: less_Suc_eq_le)
qed simp

lemma evict_one_in_shard_cases:
  obtains (empty) "sh = []" "evict_one_in_shard now sh = (False, [])"
  | (evicted) k where "map_of sh k \<noteq> None" "evict_one_in_shard now sh = (True, AList.delete k sh)"
proof (cases "find (\<lambda>(_, e). \<not> is_fresh now e) sh")
  case None
  then show ?thesis
    by (cases sh) (auto intro: empty evicted simp: evict_one_in_shard_def)
next
  case (Some e)
  then have "e \<in> set sh"
    by (rule find_Some_mem [THEN conjunct1])
  then have "map_of sh (fst e) \<noteq> None"
    by (auto simp: map_of_eq_None_iff)
  then show ?thesis
    using Some by (intro evicted [of "fst e"]) (auto simp: evict_one_in_shard_def split_beta)
qed

lemma evict_first_total:
  "fst (evict_first now skip shs) \<Longrightarrow>
   sum_list (map length (snd (evict_first now skip shs))) < sum_list (map length shs)"
proof (induction shs arbitrary: skip)
  case (Cons sh shs)
  show ?case
  proof (cases "skip = Some 0 \<or> \<not> fst (evict_one_in_shard now sh)")
    case True
    then show ?thesis
      using Cons by (auto simp: Let_def)
  next
    case False
    then show ?thesis
      using Cons.prems length_delete_mem [of sh]
      by (cases rule: evict_one_in_shard_cases [of sh now]) (auto simp: Let_def)
  qed
qed simp

lemma evict_one_total: "fst (evict_one now m) \<Longrightarrow> total_entries (snd (evict_one now m)) < total_entries m"
  by (auto simp: evict_one_def total_entries_def evict_first_total Let_def split: if_splits)

text \<open>The loops that trim to the cap.\<close>

function trim_loop :: "instant \<Rightarrow> memory_cache \<Rightarrow> nat \<Rightarrow> memory_cache \<times> nat"
  where "trim_loop now m evictions =
    (if mc_max_entries m < mc_live_entries m \<and> fst (evict_one now m)
     then trim_loop now (snd (evict_one now m)) (evictions + 1)
     else (m, evictions))"
  by pat_completeness auto
termination
  by (relation "measure (\<lambda>(now, m, evictions). total_entries m)") (auto simp: evict_one_total)

declare trim_loop.simps [simp del]

definition trim_to_max :: "instant \<Rightarrow> memory_cache \<Rightarrow> memory_cache"
  where "trim_to_max now m =
    (if mc_max_entries m = 0 then m else fst (trim_loop now m 0))"

definition set_max_entries :: "instant \<Rightarrow> u64 \<Rightarrow> memory_cache \<Rightarrow> memory_cache"
  where "set_max_entries now max_entries m =
    (let prev = mc_max_entries m; m1 = m\<lparr>mc_max_entries := max_entries\<rparr> in
     if 0 < max_entries \<and> (max_entries < prev \<or> prev = 0) \<and> max_entries < mc_live_entries m1
     then trim_to_max now m1 else m1)"

definition put_shard :: "nat \<Rightarrow> cache_shard \<Rightarrow> memory_cache \<Rightarrow> memory_cache"
  where "put_shard idx sh m = m\<lparr>mc_shards := (mc_shards m)[idx := sh]\<rparr>"

text \<open>The last part of an insertion, after room has been made.\<close>

definition insert_finish ::
  "nat \<Rightarrow> cache_key \<Rightarrow> cache_entry \<Rightarrow> instant \<Rightarrow> memory_cache \<Rightarrow> nat \<Rightarrow> memory_cache \<times> nat"
  where "insert_finish idx key entry now m evictions =
    (let m1 = (put_shard idx (AList.update key entry (mc_shards m ! idx)) m)
           \<lparr>mc_live_entries := mc_live_entries m + 1\<rparr> in
     if 0 < mc_max_entries m1 then trim_loop now m1 evictions else (m1, evictions))"

text \<open>The stale entry of the key and, with a cap, all stale entries of the shard go first.\<close>

definition drop_stale_key :: "nat \<Rightarrow> cache_key \<Rightarrow> memory_cache \<Rightarrow> memory_cache"
  where "drop_stale_key idx key m =
    (if map_of (mc_shards m ! idx) key \<noteq> None
     then (put_shard idx (AList.delete key (mc_shards m ! idx)) m)
       \<lparr>mc_live_entries := mc_live_entries m - 1\<rparr>
     else m)"

definition retain_fresh :: "nat \<Rightarrow> instant \<Rightarrow> memory_cache \<Rightarrow> memory_cache"
  where "retain_fresh idx now m =
    (let sh = mc_shards m ! idx; kept = filter (\<lambda>(_, e). is_fresh now e) sh;
         dropped = length sh - length kept;
         m1 = put_shard idx kept m in
     if 0 < dropped then m1\<lparr>mc_live_entries := mc_live_entries m1 - of_nat dropped\<rparr> else m1)"

partial_function (option) insert_loop ::
  "(cache_key \<Rightarrow> u64) \<Rightarrow> cache_key \<Rightarrow> cache_entry \<Rightarrow> instant \<Rightarrow> memory_cache \<Rightarrow> nat
    \<Rightarrow> (memory_cache \<times> nat) option"
  where "insert_loop hash key entry now m evictions =
    (let idx = mc_shard_index hash key m in
     if (case map_of (mc_shards m ! idx) key of Some e \<Rightarrow> is_fresh now e | None \<Rightarrow> False)
     then Some (put_shard idx (AList.update key entry (mc_shards m ! idx)) m, evictions)
     else
       let m1 = drop_stale_key idx key m in
       if 0 < mc_max_entries m1
       then
         let m2 = retain_fresh idx now m1 in
         if mc_max_entries m2 \<le> mc_live_entries m2
         then
           let r = evict_one_in_shard now (mc_shards m2 ! idx) in
           if fst r
           then Some (insert_finish idx key entry now
                 ((put_shard idx (snd r) m2)\<lparr>mc_live_entries := mc_live_entries m2 - 1\<rparr>) (evictions + 1))
           else
             let r' = evict_one_excluding idx now m2 in
             if fst r' then insert_loop hash key entry now (snd r') (evictions + 1)
             else insert_loop hash key entry now (snd r') evictions
         else Some (insert_finish idx key entry now m2 evictions)
       else Some (insert_finish idx key entry now m1 evictions))"

definition mc_insert ::
  "(cache_key \<Rightarrow> u64) \<Rightarrow> cache_key \<Rightarrow> cache_entry \<Rightarrow> instant \<Rightarrow> memory_cache \<Rightarrow> (memory_cache \<times> nat) option"
  where "mc_insert hash key entry now m = insert_loop hash key entry now m 0"

definition mc_remove :: "(cache_key \<Rightarrow> u64) \<Rightarrow> cache_key \<Rightarrow> memory_cache \<Rightarrow> bool \<times> memory_cache"
  where "mc_remove hash key m =
    (let idx = mc_shard_index hash key m in
     if map_of (mc_shards m ! idx) key \<noteq> None
     then (True, (put_shard idx (AList.delete key (mc_shards m ! idx)) m)
       \<lparr>mc_live_entries := mc_live_entries m - 1\<rparr>)
     else (False, m))"

section \<open>The reaper\<close>

record reap_outcome =
  ro_removed :: u64
  ro_incomplete :: bool

text \<open>The scan of a shard.  \<open>late n\<close> tells whether the clock, sampled at every 64th entry,
  has passed the deadline of the lock at entry \<open>n\<close>.\<close>

fun reap_scan ::
  "(nat \<Rightarrow> bool) \<Rightarrow> nat \<Rightarrow> instant \<Rightarrow> nat \<Rightarrow> cache_key list \<Rightarrow> cache_shard \<Rightarrow> cache_key list \<times> bool"
  where
    "reap_scan late max_keys now examined to_remove [] = (to_remove, True)"
  | "reap_scan late max_keys now examined to_remove ((key, entry) # rest) =
      (if examined mod 64 = 0 \<and> late examined then (to_remove, False)
       else if \<not> is_fresh now entry
       then let to_remove' = to_remove @ [key] in
         if max_keys \<le> length to_remove' then (to_remove', False)
         else reap_scan late max_keys now (examined + 1) to_remove' rest
       else reap_scan late max_keys now (examined + 1) to_remove rest)"

definition reap_shard_budgeted ::
  "(nat \<Rightarrow> bool) \<Rightarrow> nat \<Rightarrow> nat \<Rightarrow> instant \<Rightarrow> memory_cache \<Rightarrow> u64 \<times> bool \<times> memory_cache"
  where "reap_shard_budgeted late max_keys idx now m =
    (let (to_remove, finished) = reap_scan late max_keys now 0 [] (mc_shards m ! idx);
         removed = of_nat (length to_remove);
         m1 = put_shard idx (fold AList.delete to_remove (mc_shards m ! idx)) m in
     (removed, finished,
      if 0 < removed then m1\<lparr>mc_live_entries := mc_live_entries m1 - removed\<rparr> else m1))"

text \<open>The ring of shards, from the cursor on; the result has the new cursor.\<close>

fun reap_ring ::
  "(nat \<Rightarrow> nat \<Rightarrow> bool) \<Rightarrow> nat \<Rightarrow> instant \<Rightarrow> nat \<Rightarrow> nat list \<Rightarrow> u64 \<Rightarrow> nat \<Rightarrow> memory_cache
    \<Rightarrow> reap_outcome \<times> nat \<times> memory_cache"
  where
    "reap_ring late max_keys now start [] removed cursor m =
      (\<lparr>ro_removed = removed, ro_incomplete = False\<rparr>, cursor, m)"
  | "reap_ring late max_keys now start (offset # offsets) removed cursor m =
      (let n = length (mc_shards m); idx = (start + offset) mod n;
           (shard_removed, finished, m1) = reap_shard_budgeted (late idx) max_keys idx now m;
           removed' = removed + shard_removed in
       if \<not> finished then (\<lparr>ro_removed = removed', ro_incomplete = True\<rparr>, idx, m1)
       else reap_ring late max_keys now start offsets removed' ((idx + 1) mod n) m1)"

definition reap_expired_budgeted ::
  "(nat \<Rightarrow> nat \<Rightarrow> bool) \<Rightarrow> nat \<Rightarrow> instant \<Rightarrow> nat \<Rightarrow> memory_cache \<Rightarrow> reap_outcome \<times> nat \<times> memory_cache"
  where "reap_expired_budgeted late max_keys now cursor m =
    (let n = length (mc_shards m) in
     if n = 0 then (\<lparr>ro_removed = 0, ro_incomplete = False\<rparr>, cursor, m)
     else reap_ring late max_keys now (cursor mod n) [0..<n] 0 cursor m)"

section \<open>Invariant and content\<close>

definition mc_inv :: "(cache_key \<Rightarrow> u64) \<Rightarrow> memory_cache \<Rightarrow> bool"
  where "mc_inv hash m \<longleftrightarrow> mc_shards m \<noteq> [] \<and> unat (mc_live_entries m) = total_entries m
    \<and> (\<forall>i < length (mc_shards m). distinct (map fst (mc_shards m ! i))
         \<and> (\<forall>k \<in> fst ` set (mc_shards m ! i). mc_shard_index hash k m = i))"

definition content :: "(cache_key \<Rightarrow> u64) \<Rightarrow> memory_cache \<Rightarrow> cache_key \<rightharpoonup> cache_entry"
  where "content hash m key = map_of (mc_shard hash key m) key"

definition set_shard :: "nat \<Rightarrow> cache_shard \<Rightarrow> u64 \<Rightarrow> memory_cache \<Rightarrow> memory_cache"
  where "set_shard i sh live m = (put_shard i sh m)\<lparr>mc_live_entries := live\<rparr>"

lemma set_shard_fields [simp]:
  "mc_max_entries (set_shard i sh live m) = mc_max_entries m"
  "mc_live_entries (set_shard i sh live m) = live"
  "mc_shards (set_shard i sh live m) = (mc_shards m)[i := sh]"
  "mc_shard_index hash key (set_shard i sh live m) = mc_shard_index hash key m"
  by (simp_all add: set_shard_def put_shard_def mc_shard_index_def)

lemma total_set_shard:
  assumes "i < length (mc_shards m)"
  shows "total_entries (set_shard i sh live m) + length (mc_shards m ! i) = total_entries m + length sh"
proof -
  have "length (mc_shards m ! i) \<le> sum_list (map length (mc_shards m))"
    using assms by (simp add: elem_le_sum_list [of i "map length (mc_shards m)", simplified])
  then show ?thesis
    using assms by (simp add: total_entries_def map_update sum_list_update)
qed

lemma mc_shard_index_less: "mc_inv hash m \<Longrightarrow> mc_shard_index hash key m < length (mc_shards m)"
  by (simp add: mc_inv_def mc_shard_index_def)

lemma content_set_shard:
  assumes "mc_inv hash m"
  shows "content hash (set_shard i sh live m) key
    = (if mc_shard_index hash key m = i then map_of sh key else content hash m key)"
  using mc_shard_index_less [OF assms, of key] by (simp add: content_def mc_shard_def)

lemma mc_inv_set_shard:
  assumes "mc_inv hash m" "i < length (mc_shards m)" "distinct (map fst sh)"
    and "\<And>k. k \<in> fst ` set sh \<Longrightarrow> mc_shard_index hash k m = i"
    and "unat live + length (mc_shards m ! i) = total_entries m + length sh"
  shows "mc_inv hash (set_shard i sh live m)"
  using assms total_set_shard [OF assms(2), of sh live]
  by (auto simp: mc_inv_def nth_list_update)

lemma mc_invD:
  assumes "mc_inv hash m"
  shows "unat (mc_live_entries m) = total_entries m"
    and "i < length (mc_shards m) \<Longrightarrow> distinct (map fst (mc_shards m ! i))"
    and "i < length (mc_shards m) \<Longrightarrow> k \<in> fst ` set (mc_shards m ! i) \<Longrightarrow> mc_shard_index hash k m = i"
  using assms by (auto simp: mc_inv_def)

lemma shard_le_total: "i < length (mc_shards m) \<Longrightarrow> length (mc_shards m ! i) \<le> total_entries m"
  by (simp add: total_entries_def elem_le_sum_list [of i "map length (mc_shards m)", simplified])

text \<open>Dropping one key.\<close>

definition dropped_key :: "(cache_key \<Rightarrow> u64) \<Rightarrow> memory_cache \<Rightarrow> memory_cache \<Rightarrow> cache_key \<Rightarrow> bool"
  where "dropped_key hash m m' k \<longleftrightarrow> mc_inv hash m' \<and> mc_max_entries m' = mc_max_entries m
    \<and> length (mc_shards m') = length (mc_shards m)
    \<and> content hash m k \<noteq> None \<and> content hash m' = (content hash m)(k := None)
    \<and> total_entries m = total_entries m' + 1"

lemma dropped_key_delete:
  assumes "mc_inv hash m" "i < length (mc_shards m)" "map_of (mc_shards m ! i) k \<noteq> None"
  shows "dropped_key hash m (set_shard i (AList.delete k (mc_shards m ! i)) (mc_live_entries m - 1) m) k"
proof -
  let ?sh = "AList.delete k (mc_shards m ! i)"
  let ?m' = "set_shard i ?sh (mc_live_entries m - 1) m"
  note dist = mc_invD(2) [OF assms(1,2)]
  have len: "length (mc_shards m ! i) = length ?sh + 1"
    by (rule length_delete_distinct [OF dist assms(3)])
  have k: "mc_shard_index hash k m = i"
    using mc_invD(3) [OF assms(1,2), of k] assms(3) by (metis map_of_eq_None_iff)
  have pos: "0 < unat (mc_live_entries m)"
    using shard_le_total [OF assms(2)] len mc_invD(1) [OF assms(1)] by simp
  then have live: "unat (mc_live_entries m - 1) = unat (mc_live_entries m) - 1"
    by (simp add: unat_sub_if' word_le_nat_alt unat_gt_0 del: unat_gt_0)
  have "mc_inv hash ?m'"
  proof (rule mc_inv_set_shard [OF assms(1,2)])
    show "distinct (map fst ?sh)"
      using dist by (rule distinct_delete)
    show "mc_shard_index hash k' m = i" if "k' \<in> fst ` set ?sh" for k'
      using that dom_delete_subset [of k "mc_shards m ! i"] mc_invD(3) [OF assms(1,2)] by blast
    show "unat (mc_live_entries m - 1) + length (mc_shards m ! i) = total_entries m + length ?sh"
      using live pos mc_invD(1) [OF assms(1)] len by simp
  qed
  moreover have "content hash ?m' = (content hash m)(k := None)"
  proof
    show "content hash ?m' key = ((content hash m)(k := None)) key" for key
      using k unfolding content_set_shard [OF assms(1)] by (auto simp: delete_conv' content_def mc_shard_def)
  qed
  moreover have "content hash m k \<noteq> None"
    using assms(3) k by (simp add: content_def mc_shard_def)
  ultimately show ?thesis
    using total_set_shard [OF assms(2), of ?sh "mc_live_entries m - 1"] len
    by (simp add: dropped_key_def)
qed

lemma evict_first_Some:
  "fst (evict_first now skip shs) \<Longrightarrow>
   \<exists>j k. j < length shs \<and> map_of (shs ! j) k \<noteq> None
     \<and> snd (evict_first now skip shs) = shs[j := AList.delete k (shs ! j)]"
proof (induction shs arbitrary: skip)
  case (Cons sh shs)
  show ?case
  proof (cases "skip = Some 0 \<or> \<not> fst (evict_one_in_shard now sh)")
    case True
    let ?r = "evict_first now (case skip of Some (Suc i) \<Rightarrow> Some i | _ \<Rightarrow> None) shs"
    have r: "evict_first now skip (sh # shs) = (fst ?r, sh # snd ?r)"
      using True by (auto simp: Let_def)
    then obtain j k where "j < length shs" "map_of (shs ! j) k \<noteq> None"
      "snd ?r = shs[j := AList.delete k (shs ! j)]"
      using Cons.IH [of "case skip of Some (Suc i) \<Rightarrow> Some i | _ \<Rightarrow> None"] Cons.prems by auto
    then show ?thesis
      using r by (intro exI [of _ "Suc j"] exI [of _ k]) simp
  next
    case False
    then show ?thesis
      by (cases rule: evict_one_in_shard_cases [of sh now]) (auto simp: Let_def intro!: exI [of _ 0], blast)
  qed
qed simp

lemma evict_first_None:
  "\<not> fst (evict_first now skip shs) \<Longrightarrow> j < length shs \<Longrightarrow> skip \<noteq> Some j \<Longrightarrow> shs ! j = []"
proof (induction shs arbitrary: skip j)
  case (Cons sh shs)
  have sh: "sh = []" if "skip \<noteq> Some 0"
    using that Cons.prems(1) by (cases rule: evict_one_in_shard_cases [of sh now]) (auto simp: Let_def)
  let ?skip = "case skip of Some (Suc i) \<Rightarrow> Some i | _ \<Rightarrow> None"
  have rest: "\<not> fst (evict_first now ?skip shs)"
    using Cons.prems(1) by (auto simp: Let_def split: if_splits)
  show ?case
  proof (cases j)
    case 0
    then show ?thesis
      using sh Cons.prems(3) by simp
  next
    case (Suc i)
    then show ?thesis
      using Cons.IH [OF rest, of i] Cons.prems by (auto split: option.splits nat.splits)
  qed
qed simp

section \<open>Making room\<close>

lemma evict_result:
  assumes "mc_inv hash m" "j < length (mc_shards m)" "map_of (mc_shards m ! j) k \<noteq> None"
  shows "dropped_key hash m (m\<lparr>mc_shards := (mc_shards m)[j := AList.delete k (mc_shards m ! j)],
    mc_live_entries := mc_live_entries m - 1\<rparr>) k"
  using dropped_key_delete [OF assms] by (simp add: set_shard_def put_shard_def)

lemma total_zero: "(\<And>j. j < length (mc_shards m) \<Longrightarrow> mc_shards m ! j = []) \<Longrightarrow> total_entries m = 0"
  by (auto simp: total_entries_def in_set_conv_nth)

lemma evict_one_spec:
  assumes "mc_inv hash m"
  shows "(fst (evict_one now m) \<longrightarrow> (\<exists>k. dropped_key hash m (snd (evict_one now m)) k))
    \<and> (\<not> fst (evict_one now m) \<longrightarrow> total_entries m = 0)"
  using evict_first_Some [of now None "mc_shards m"] evict_first_None [of now None "mc_shards m"]
    evict_result [OF assms] total_zero [of m]
  by (auto simp: evict_one_def Let_def) blast

lemma evict_one_excluding_spec:
  assumes "mc_inv hash m" "i < length (mc_shards m)" "0 < total_entries m"
  shows "fst (evict_one_excluding i now m)
    \<and> (\<exists>k. dropped_key hash m (snd (evict_one_excluding i now m)) k)"
proof (cases "fst (evict_first now (Some i) (mc_shards m))")
  case True
  obtain j k where "j < length (mc_shards m)" "map_of (mc_shards m ! j) k \<noteq> None"
    "snd (evict_first now (Some i) (mc_shards m)) = (mc_shards m)[j := AList.delete k (mc_shards m ! j)]"
    using evict_first_Some [OF True] by blast
  then show ?thesis
    using True evict_result [OF assms(1), of j k] by (auto simp: evict_one_excluding_def Let_def)
next
  case False
  have "mc_shards m ! i \<noteq> []"
    using evict_first_None [OF False] total_zero [of m] assms(3) by (metis less_irrefl option.inject)
  then obtain k where "map_of (mc_shards m ! i) k \<noteq> None"
    "evict_one_in_shard now (mc_shards m ! i) = (True, AList.delete k (mc_shards m ! i))"
    by (cases rule: evict_one_in_shard_cases [of "mc_shards m ! i" now]) auto
  then show ?thesis
    using False evict_result [OF assms(1,2)] by (auto simp: evict_one_excluding_def Let_def)
qed

text \<open>A step that makes room: nothing is added, and of the fresh entries only those of \<open>L\<close> go.\<close>

definition makes_room ::
  "(cache_key \<Rightarrow> u64) \<Rightarrow> instant \<Rightarrow> cache_key set \<Rightarrow> memory_cache \<Rightarrow> memory_cache \<Rightarrow> bool"
  where "makes_room hash now L m m' \<longleftrightarrow> mc_inv hash m' \<and> mc_max_entries m' = mc_max_entries m
    \<and> length (mc_shards m') = length (mc_shards m) \<and> total_entries m' \<le> total_entries m
    \<and> (\<forall>k. content hash m' k = content hash m k \<or> content hash m' k = None)
    \<and> (\<forall>k e. k \<notin> L \<and> content hash m k = Some e \<and> is_fresh now e \<longrightarrow> content hash m' k = Some e)"

lemma makes_room_refl: "mc_inv hash m \<Longrightarrow> makes_room hash now L m m"
  by (simp add: makes_room_def)

lemma makes_room_trans:
  assumes "makes_room hash now L1 m m1" "makes_room hash now L2 m1 m2" "L1 \<subseteq> L" "L2 \<subseteq> L"
  shows "makes_room hash now L m m2"
proof -
  have "content hash m2 k = content hash m k \<or> content hash m2 k = None" for k
    using assms(1,2) unfolding makes_room_def by metis
  moreover have "content hash m2 k = Some e"
    if "k \<notin> L" "content hash m k = Some e" "is_fresh now e" for k e
  proof -
    have "content hash m1 k = Some e"
      using that assms(1,3) unfolding makes_room_def by blast
    then show ?thesis
      using that assms(2,4) unfolding makes_room_def by blast
  qed
  ultimately show ?thesis
    using assms(1,2) by (simp add: makes_room_def)
qed

lemma makes_room_dropped: "dropped_key hash m m' k \<Longrightarrow> k \<in> L \<Longrightarrow> makes_room hash now L m m'"
  by (auto simp: makes_room_def dropped_key_def)

lemma makes_roomD:
  assumes "makes_room hash now L m m'"
  shows "mc_inv hash m'" "mc_max_entries m' = mc_max_entries m" "total_entries m' \<le> total_entries m"
    "mc_shard_index hash k m' = mc_shard_index hash k m"
    "content hash m k = None \<Longrightarrow> content hash m' k = None"
  using assms by (auto simp: makes_room_def mc_shard_index_def) (metis option.distinct(1))

lemma drop_stale_key_spec:
  fixes key :: cache_key
  assumes "mc_inv hash m"
  defines "m' \<equiv> drop_stale_key (mc_shard_index hash key m) key m"
  shows "makes_room hash now {key} m m' \<and> content hash m' key = None
    \<and> (content hash m key \<noteq> None \<longrightarrow> total_entries m = total_entries m' + 1)"
proof (cases "content hash m key")
  case None
  then show ?thesis
    using makes_room_refl [OF assms(1)] by (simp add: m'_def drop_stale_key_def content_def mc_shard_def)
next
  case (Some e)
  then have "m' = set_shard (mc_shard_index hash key m)
      (AList.delete key (mc_shards m ! mc_shard_index hash key m)) (mc_live_entries m - 1) m"
    by (simp add: m'_def drop_stale_key_def content_def mc_shard_def set_shard_def)
  then have "dropped_key hash m m' key"
    using dropped_key_delete [OF assms(1) mc_shard_index_less [OF assms(1)], of key key] Some
    by (simp add: content_def mc_shard_def)
  then show ?thesis
    using makes_room_dropped [of hash m m' key "{key}" now] by (auto simp: dropped_key_def)
qed

text \<open>Filtering one shard, as the insertion and the reaper do.\<close>

definition filter_shard :: "nat \<Rightarrow> (cache_key \<times> cache_entry \<Rightarrow> bool) \<Rightarrow> memory_cache \<Rightarrow> memory_cache"
  where "filter_shard i P m = set_shard i (filter P (mc_shards m ! i))
    (mc_live_entries m - of_nat (length (mc_shards m ! i) - length (filter P (mc_shards m ! i)))) m"

lemma filter_shard_spec:
  assumes "mc_inv hash m" "i < length (mc_shards m)"
    and fresh: "\<And>k e. (k, e) \<in> set (mc_shards m ! i) \<Longrightarrow> is_fresh now e \<Longrightarrow> P (k, e)"
  shows "makes_room hash now {} m (filter_shard i P m)
    \<and> total_entries (filter_shard i P m)
        + (length (mc_shards m ! i) - length (filter P (mc_shards m ! i))) = total_entries m"
proof -
  let ?sh = "mc_shards m ! i"
  let ?live = "mc_live_entries m - of_nat (length ?sh - length (filter P ?sh))"
  let ?m' = "set_shard i (filter P ?sh) ?live m"
  note dist = mc_invD(2) [OF assms(1,2)]
  have len: "length (filter P ?sh) \<le> length ?sh" "length ?sh \<le> total_entries m"
    using shard_le_total [OF assms(2)] by simp_all
  have live: "unat ?live + length ?sh = total_entries m + length (filter P ?sh)"
    using len mc_invD(1) [OF assms(1)] by (subst unat_minus_of_nat) simp_all
  have inv: "mc_inv hash ?m'"
  proof (rule mc_inv_set_shard [OF assms(1,2) _ _ live])
    show "distinct (map fst (filter P ?sh))"
      using dist by (rule distinct_map_filter)
    show "mc_shard_index hash k m = i" if "k \<in> fst ` set (filter P ?sh)" for k
      using that mc_invD(3) [OF assms(1,2), of k] by auto
  qed
  have "content hash ?m' k = (case content hash m k of
         Some e \<Rightarrow> if mc_shard_index hash k m = i \<and> \<not> P (k, e) then None else Some e
       | None \<Rightarrow> None)" for k
    unfolding content_set_shard [OF assms(1)] map_of_filter_distinct [OF dist]
    by (auto simp: content_def mc_shard_def split: option.splits)
  moreover have "P (k, e)" if "content hash m k = Some e" "is_fresh now e" "mc_shard_index hash k m = i" for k e
    using that fresh [of k e] by (auto simp: content_def mc_shard_def dest: map_of_SomeD)
  moreover have "total_entries ?m' + (length ?sh - length (filter P ?sh)) = total_entries m"
    using total_set_shard [OF assms(2), of "filter P ?sh" ?live] len by linarith
  moreover from this have "total_entries ?m' \<le> total_entries m"
    by linarith
  ultimately show ?thesis
    using inv unfolding filter_shard_def makes_room_def by (auto split: option.splits)
qed

lemma retain_fresh_eq:
  "retain_fresh i now m = filter_shard i (\<lambda>(_, e). is_fresh now e) m"
  using length_filter_le [of "\<lambda>(_, e). is_fresh now e" "mc_shards m ! i"]
  by (cases m) (auto simp: retain_fresh_def filter_shard_def set_shard_def Let_def put_shard_def
      simp del: of_nat_diff length_filter_le)

lemma retain_fresh_spec:
  assumes "mc_inv hash m" "i < length (mc_shards m)"
  shows "makes_room hash now {} m (retain_fresh i now m)"
  using filter_shard_spec [OF assms, of now "\<lambda>(_, e). is_fresh now e"] by (simp add: retain_fresh_eq)

section \<open>Insertion\<close>

lemma trim_loop_idle: "\<not> mc_max_entries m < mc_live_entries m \<Longrightarrow> trim_loop now m ev = (m, ev)"
  by (simp add: trim_loop.simps)

lemma put_update_spec:
  fixes entry :: cache_entry
  assumes "mc_inv hash m" "unat live = total_entries m + (if content hash m key = None then 1 else 0)"
  defines "i \<equiv> mc_shard_index hash key m"
  defines "m' \<equiv> set_shard i (AList.update key entry (mc_shards m ! i)) live m"
  shows "mc_inv hash m' \<and> content hash m' = (content hash m)(key \<mapsto> entry)
    \<and> total_entries m' = total_entries m + (if content hash m key = None then 1 else 0)"
proof -
  note i = mc_shard_index_less [OF assms(1), of key, folded i_def]
  have len: "length (AList.update key entry (mc_shards m ! i))
      = length (mc_shards m ! i) + (if content hash m key = None then 1 else 0)"
    by (simp add: length_alist_update content_def mc_shard_def i_def)
  have "mc_inv hash m'"
    unfolding m'_def
  proof (rule mc_inv_set_shard [OF assms(1) i])
    show "distinct (map fst (AList.update key entry (mc_shards m ! i)))"
      using mc_invD(2) [OF assms(1) i] by (rule distinct_update)
    show "mc_shard_index hash k m = i" if "k \<in> fst ` set (AList.update key entry (mc_shards m ! i))" for k
      using that mc_invD(3) [OF assms(1) i, of k] by (auto simp: dom_update i_def)
    show "unat live + length (mc_shards m ! i)
        = total_entries m + length (AList.update key entry (mc_shards m ! i))"
      using len assms(2) by simp
  qed
  moreover have "content hash m' = (content hash m)(key \<mapsto> entry)"
  proof
    show "content hash m' k = ((content hash m)(key \<mapsto> entry)) k" for k
      unfolding m'_def content_set_shard [OF assms(1)]
      by (auto simp: update_conv' content_def mc_shard_def i_def)
  qed
  ultimately show ?thesis
    using total_set_shard [OF i, of "AList.update key entry (mc_shards m ! i)" live] len
    by (simp add: m'_def)
qed

lemma insert_finish_spec:
  assumes "mc_inv hash m" "content hash m key = None"
    and "mc_max_entries m = 0 \<Longrightarrow> mc_live_entries m \<noteq> - 1"
    and "0 < mc_max_entries m \<Longrightarrow> mc_live_entries m < mc_max_entries m"
  shows "\<exists>m'. insert_finish (mc_shard_index hash key m) key entry now m ev = (m', ev)
    \<and> mc_inv hash m' \<and> mc_max_entries m' = mc_max_entries m
    \<and> content hash m' = (content hash m)(key \<mapsto> entry) \<and> total_entries m' = total_entries m + 1"
proof -
  let ?i = "mc_shard_index hash key m"
  let ?m' = "set_shard ?i (AList.update key entry (mc_shards m ! ?i)) (mc_live_entries m + 1) m"
  have "mc_live_entries m + 1 \<noteq> 0"
    using assms(3,4) by (metis add_eq_0_iff2 max_word_max not_le word_gt_0 word_not_simps(1))
  then have live: "unat (mc_live_entries m + 1) = total_entries m + 1"
    using mc_invD(1) [OF assms(1)] unatSuc [of "mc_live_entries m"] by (simp add: add.commute)
  note spec = put_update_spec [OF assms(1), of "mc_live_entries m + 1" key entry]
  have "\<not> mc_max_entries m < mc_live_entries m + 1" if "0 < mc_max_entries m"
    using assms(4) [OF that] by (meson inc_le not_le)
  then have "insert_finish ?i key entry now m ev = (?m', ev)"
    by (simp add: insert_finish_def trim_loop_idle set_shard_def Let_def put_shard_def)
  then show ?thesis
    using spec live assms(2) by auto
qed

lemma evict_in_shard_spec:
  assumes "mc_inv hash m" "i < length (mc_shards m)" "fst (evict_one_in_shard now (mc_shards m ! i))"
  shows "\<exists>k. dropped_key hash m ((put_shard i (snd (evict_one_in_shard now (mc_shards m ! i))) m)
      \<lparr>mc_live_entries := mc_live_entries m - 1\<rparr>) k"
  using assms(3)
proof (cases rule: evict_one_in_shard_cases [of "mc_shards m ! i" now])
  case (evicted k)
  then show ?thesis
    using dropped_key_delete [OF assms(1,2), of k] by (auto simp: set_shard_def)
qed simp

definition inserted ::
  "(cache_key \<Rightarrow> u64) \<Rightarrow> instant \<Rightarrow> cache_key \<Rightarrow> cache_entry \<Rightarrow> cache_key set \<Rightarrow> memory_cache \<Rightarrow> memory_cache \<Rightarrow> bool"
  where "inserted hash now key entry L m m' \<longleftrightarrow>
    mc_inv hash m' \<and> mc_max_entries m' = mc_max_entries m
    \<and> (0 < mc_max_entries m' \<longrightarrow> mc_live_entries m' \<le> mc_max_entries m')
    \<and> content hash m' key = Some entry
    \<and> (\<forall>k. k \<noteq> key \<longrightarrow> content hash m' k = content hash m k \<or> content hash m' k = None)
    \<and> (\<forall>k e. k \<noteq> key \<and> k \<notin> L \<and> content hash m k = Some e \<and> is_fresh now e \<longrightarrow> content hash m' k = Some e)"

lemma insert_after_room:
  assumes room: "makes_room hash now (insert key L) m m1" "content hash m1 key = None"
    and "mc_max_entries m = 0 \<Longrightarrow> mc_live_entries m1 \<noteq> - 1"
    and "0 < mc_max_entries m \<Longrightarrow> mc_live_entries m1 < mc_max_entries m"
  shows "\<exists>m'. insert_finish (mc_shard_index hash key m) key entry now m1 ev = (m', ev)
    \<and> inserted hash now key entry L m m'"
proof -
  note mx = makes_roomD(2) [OF room(1)]
  obtain m' where m': "insert_finish (mc_shard_index hash key m) key entry now m1 ev = (m', ev)"
    "mc_inv hash m'" "mc_max_entries m' = mc_max_entries m1"
    "content hash m' = (content hash m1)(key \<mapsto> entry)" "total_entries m' = total_entries m1 + 1"
    using insert_finish_spec [OF makes_roomD(1) [OF room(1)] room(2)] assms(3,4)
    unfolding mx makes_roomD(4) [OF room(1)] by metis
  have "mc_live_entries m' \<le> mc_max_entries m'" if "0 < mc_max_entries m"
    using assms(4) [OF that] m'(3,5) mc_invD(1) [OF m'(2)] mc_invD(1) [OF makes_roomD(1) [OF room(1)]] mx
    by (simp add: word_le_nat_alt word_less_nat_alt)
  then show ?thesis
    using m' mx room(1) by (intro exI [of _ m']) (auto simp: inserted_def makes_room_def)
qed

text \<open>The shard of the key after the stale entries went.\<close>

definition swept :: "(cache_key \<Rightarrow> u64) \<Rightarrow> cache_key \<Rightarrow> instant \<Rightarrow> memory_cache \<Rightarrow> memory_cache"
  where "swept hash key now m =
    (let idx = mc_shard_index hash key m in retain_fresh idx now (drop_stale_key idx key m))"

abbreviation fresh_prior :: "(cache_key \<Rightarrow> u64) \<Rightarrow> cache_key \<Rightarrow> instant \<Rightarrow> memory_cache \<Rightarrow> bool"
  where "fresh_prior hash key now m \<equiv>
    (case content hash m key of Some e \<Rightarrow> is_fresh now e | None \<Rightarrow> False)"

lemma swept_spec:
  assumes "mc_inv hash m"
  shows "makes_room hash now {key} m (swept hash key now m) \<and> content hash (swept hash key now m) key = None"
proof -
  let ?i = "mc_shard_index hash key m"
  let ?m1 = "drop_stale_key ?i key m"
  have m1: "makes_room hash now {key} m ?m1" "content hash ?m1 key = None"
    using drop_stale_key_spec [OF assms] by blast+
  have "?i < length (mc_shards ?m1)"
    using mc_shard_index_less [OF makes_roomD(1) [OF m1(1)], of key] makes_roomD(4) [OF m1(1)] by simp
  note m2 = retain_fresh_spec [OF makes_roomD(1) [OF m1(1)] this, of now]
  show ?thesis
    using makes_room_trans [OF m1(1) m2, of "{key}"] makes_roomD(5) [OF m2] m1(2)
    by (simp add: swept_def Let_def)
qed

text \<open>The three ways an iteration goes when the key is not there fresh.\<close>

lemma insert_loop_unfold:
  assumes "mc_inv hash m" "\<not> fresh_prior hash key now m"
  defines "i \<equiv> mc_shard_index hash key m" and "m2 \<equiv> swept hash key now m"
  shows "insert_loop hash key entry now m ev =
    (if mc_max_entries m = 0 then Some (insert_finish i key entry now (drop_stale_key i key m) ev)
     else if mc_live_entries m2 < mc_max_entries m then Some (insert_finish i key entry now m2 ev)
     else if fst (evict_one_in_shard now (mc_shards m2 ! i))
     then Some (insert_finish i key entry now
       ((put_shard i (snd (evict_one_in_shard now (mc_shards m2 ! i))) m2)
          \<lparr>mc_live_entries := mc_live_entries m2 - 1\<rparr>) (ev + 1))
     else if fst (evict_one_excluding i now m2)
     then insert_loop hash key entry now (snd (evict_one_excluding i now m2)) (ev + 1)
     else insert_loop hash key entry now (snd (evict_one_excluding i now m2)) ev)"
proof -
  have mx: "mc_max_entries (drop_stale_key i key m) = mc_max_entries m" "mc_max_entries m2 = mc_max_entries m"
    using makes_roomD(2) drop_stale_key_spec [OF assms(1)] swept_spec [OF assms(1)]
    unfolding i_def m2_def by blast+
  have m2: "retain_fresh i now (drop_stale_key i key m) = m2"
    by (simp add: m2_def i_def swept_def Let_def)
  show ?thesis
    using assms(2)
    by (subst insert_loop.simps)
      (auto simp: i_def [symmetric] content_def mc_shard_def mx m2 Let_def word_neq_0_conv not_less)
qed

lemma insert_below_cap:
  assumes "mc_inv hash m" "\<not> fresh_prior hash key now m"
    and "0 < mc_max_entries m" "mc_live_entries (swept hash key now m) < mc_max_entries m"
  shows "\<exists>m'. insert_loop hash key entry now m ev = Some (m', ev) \<and> inserted hash now key entry {} m m'"
  using swept_spec [OF assms(1), of now key] assms(3,4)
    insert_after_room [of hash now key "{}" m "swept hash key now m" entry ev]
  by (auto simp: insert_loop_unfold [OF assms(1,2)])

lemma makes_room_live_le:
  assumes "makes_room hash now L m m'" "mc_inv hash m"
  shows "mc_live_entries m' \<le> mc_live_entries m"
  using makes_roomD(1,3) [OF assms(1)] mc_invD(1) [OF assms(2)] mc_invD(1) [of hash m']
  by (simp add: word_le_nat_alt)

lemma dropped_key_live:
  assumes "dropped_key hash m m' k" "mc_inv hash m"
  shows "mc_live_entries m' < mc_live_entries m"
  using assms mc_invD(1) [of hash m'] mc_invD(1) [OF assms(2)] by (simp add: dropped_key_def word_less_nat_alt)

lemma inserted_after_room:
  assumes "makes_room hash now (insert key L) m m1" "inserted hash now key entry {} m1 m'"
  shows "inserted hash now key entry L m m'"
proof -
  have "content hash m' k = content hash m k \<or> content hash m' k = None" if "k \<noteq> key" for k
    using assms that unfolding makes_room_def inserted_def by metis
  moreover have "content hash m' k = Some e"
    if "k \<noteq> key" "k \<notin> L" "content hash m k = Some e" "is_fresh now e" for k e
  proof -
    have "content hash m1 k = Some e"
      using that assms(1) unfolding makes_room_def by blast
    then show ?thesis
      using that assms(2) unfolding inserted_def by blast
  qed
  ultimately show ?thesis
    using assms by (auto simp: makes_room_def inserted_def)
qed

lemma insert_at_cap:
  assumes "mc_inv hash m" "\<not> fresh_prior hash key now m"
    and "0 < mc_max_entries m" "mc_live_entries m \<le> mc_max_entries m"
    and "\<not> mc_live_entries (swept hash key now m) < mc_max_entries m"
  shows "\<exists>m' k. insert_loop hash key entry now m ev = Some (m', ev + 1)
    \<and> inserted hash now key entry {k} m m'"
proof -
  let ?i = "mc_shard_index hash key m"
  let ?m2 = "swept hash key now m"
  have m2: "makes_room hash now {key} m ?m2" "content hash ?m2 key = None"
    using swept_spec [OF assms(1)] by blast+
  note inv2 = makes_roomD(1) [OF m2(1)]
  have live2: "mc_live_entries ?m2 = mc_max_entries m"
    using makes_room_live_le [OF m2(1) assms(1)] assms(4,5) by simp
  have i: "?i < length (mc_shards ?m2)"
    using mc_shard_index_less [OF inv2, of key] makes_roomD(4) [OF m2(1)] by simp
  have room: "makes_room hash now (insert key {k}) m m3 \<and> content hash m3 key = None
      \<and> mc_live_entries m3 < mc_max_entries m" if "dropped_key hash ?m2 m3 k" for m3 k
    using makes_room_trans [OF m2(1) makes_room_dropped [OF that, of "{k}" now], of "insert key {k}"]
      dropped_key_live [OF that inv2] live2 that m2(2) by (auto simp: dropped_key_def)
  show ?thesis
  proof (cases "fst (evict_one_in_shard now (mc_shards ?m2 ! ?i))")
    case True
    let ?m3 = "(put_shard ?i (snd (evict_one_in_shard now (mc_shards ?m2 ! ?i))) ?m2)
      \<lparr>mc_live_entries := mc_live_entries ?m2 - 1\<rparr>"
    obtain k where "dropped_key hash ?m2 ?m3 k"
      using evict_in_shard_spec [OF inv2 i True] by blast
    note r = room [OF this]
    have "mc_max_entries m \<noteq> 0"
      using assms(3) by auto
    then obtain m' where "insert_finish ?i key entry now ?m3 (ev + 1) = (m', ev + 1)"
      "inserted hash now key entry {k} m m'"
      using insert_after_room [OF conjunct1 [OF r], of entry "ev + 1"] conjunct2 [OF r] by metis
    then show ?thesis
      using True assms(5) \<open>mc_max_entries m \<noteq> 0\<close>
      by (intro exI [of _ m'] exI [of _ k]) (simp add: insert_loop_unfold [OF assms(1,2)])
  next
    case False
    have "0 < total_entries ?m2"
      using mc_invD(1) [OF inv2] live2 assms(3) by (simp add: word_less_nat_alt)
    then obtain k where ex: "fst (evict_one_excluding ?i now ?m2)"
      "dropped_key hash ?m2 (snd (evict_one_excluding ?i now ?m2)) k"
      using evict_one_excluding_spec [OF inv2 i] by blast
    let ?m3 = "snd (evict_one_excluding ?i now ?m2)"
    note r = room [OF ex(2)]
    then have r1: "makes_room hash now (insert key {k}) m ?m3" ..
    note inv3 = makes_roomD(1) [OF r1]
    have "mc_live_entries (swept hash key now ?m3) < mc_max_entries ?m3"
      using makes_room_live_le [OF conjunct1 [OF swept_spec [OF inv3, of now key]] inv3] r makes_roomD(2) [OF r1]
      by (metis order.strict_trans1)
    then obtain m' where "insert_loop hash key entry now ?m3 (ev + 1) = Some (m', ev + 1)"
      "inserted hash now key entry {} ?m3 m'"
      using insert_below_cap [OF inv3, where key = key and now = now and entry = entry and ev = "ev + 1"] r assms(3) makes_roomD(2) [OF r1] by auto
    then show ?thesis
      using False ex(1) assms(3,5) inserted_after_room [OF r1]
      by (auto simp: insert_loop_unfold [OF assms(1,2)])
  qed
qed

lemma insert_fresh:
  assumes "mc_inv hash m" "fresh_prior hash key now m"
    and "0 < mc_max_entries m \<Longrightarrow> mc_live_entries m \<le> mc_max_entries m"
  shows "\<exists>m'. insert_loop hash key entry now m ev = Some (m', ev) \<and> inserted hash now key entry {} m m'"
proof -
  let ?i = "mc_shard_index hash key m"
  let ?m' = "set_shard ?i (AList.update key entry (mc_shards m ! ?i)) (mc_live_entries m) m"
  have "insert_loop hash key entry now m ev = Some (?m', ev)"
    using assms(2)
    by (subst insert_loop.simps) (cases m, simp add: content_def mc_shard_def set_shard_def put_shard_def Let_def)
  moreover have "content hash m key \<noteq> None"
    using assms(2) by (auto split: option.splits)
  ultimately show ?thesis
    using put_update_spec [OF assms(1), of "mc_live_entries m" key entry] mc_invD(1) [OF assms(1)] assms(3)
    by (auto simp: inserted_def)
qed

text \<open>A full cache of two shards, the only entry in the other shard than the key.\<close>

definition example_hash :: "cache_key \<Rightarrow> u64"
  where "example_hash key = (if key = [1] then 0 else 1)"

definition example_entry :: "nat \<Rightarrow> cache_entry"
  where "example_entry expires =
    \<lparr>ce_kind = Positive, ce_wire = [], ce_filled_at = 0, ce_expires_at = expires\<rparr>"

definition example_cache :: memory_cache
  where "example_cache = \<lparr>mc_max_entries = 1, mc_live_entries = 1, mc_shards = [[([1], example_entry 5)], []]\<rparr>"

lemma example_cache_inv: "mc_inv example_hash example_cache"
  by (simp add: mc_inv_def example_cache_def total_entries_def mc_shard_index_def example_hash_def
      nth_Cons split: nat.splits)

lemma mc_insert_returns:
  assumes "mc_inv hash m"
    and "mc_max_entries m = 0 \<Longrightarrow> mc_live_entries m \<noteq> - 1"
    and "0 < mc_max_entries m \<Longrightarrow> mc_live_entries m \<le> mc_max_entries m"
  shows "\<exists>m' ev L. mc_insert hash key entry now m = Some (m', ev)
    \<and> inserted hash now key entry L m m' \<and> finite L \<and> card L \<le> ev \<and> ev \<le> 1
    \<and> (ev = 1 \<longrightarrow> mc_live_entries m = mc_max_entries m)"
proof (cases "fresh_prior hash key now m")
  case True
  then show ?thesis
    using insert_fresh [OF assms(1) True assms(3), of entry 0] by (auto simp: mc_insert_def intro!: exI [of _ "{} :: cache_key set"])
next
  case False
  let ?m1 = "drop_stale_key (mc_shard_index hash key m) key m"
  let ?m2 = "swept hash key now m"
  have m1: "makes_room hash now {key} m ?m1" "content hash ?m1 key = None"
    using drop_stale_key_spec [OF assms(1)] by blast+
  consider "mc_max_entries m = 0" | "0 < mc_max_entries m" "mc_live_entries ?m2 < mc_max_entries m"
    | "0 < mc_max_entries m" "\<not> mc_live_entries ?m2 < mc_max_entries m"
    by (metis word_gt_0)
  then show ?thesis
  proof cases
    case 1
    have "mc_live_entries ?m1 \<noteq> - 1"
      using makes_room_live_le [OF m1(1) assms(1)] assms(2) [OF 1] by (metis antisym max_word_max)
    then show ?thesis
      using insert_after_room [of hash now key "{}" m ?m1 entry 0] m1 1
      by (auto simp: mc_insert_def insert_loop_unfold [OF assms(1) False] intro!: exI [of _ "{} :: cache_key set"])
  next
    case 2
    then show ?thesis
      using insert_below_cap [OF assms(1) False 2, of entry 0] by (auto simp: mc_insert_def intro!: exI [of _ "{} :: cache_key set"])
  next
    case 3
    obtain m' k where "insert_loop hash key entry now m 0 = Some (m', 0 + 1)" "inserted hash now key entry {k} m m'"
      using insert_at_cap [OF assms(1) False 3(1) assms(3) [OF 3(1)] 3(2)] by blast
    moreover have "mc_live_entries m = mc_max_entries m"
      using makes_room_live_le [OF conjunct1 [OF swept_spec [OF assms(1), of now key]] assms(1)] 3 assms(3)
      by (meson antisym not_less order.trans)
    ultimately show ?thesis
      by (intro exI [of _ m'] exI [of _ 1] exI [of _ "{k}"]) (simp add: mc_insert_def)
  qed
qed

text \<open>C3: An insertion into the in-memory cache always returns.  The retry loop ends after at most
  one eviction, the entry is then found under its key, nothing else is added, the counter of live
  entries is exact and within the cap, and of the other fresh entries at most the evicted one is
  lost, and only when the cache was full.\<close>

theorem mc_insert_spec:
  assumes "mc_inv hash m"
    and "mc_max_entries m = 0 \<Longrightarrow> mc_live_entries m \<noteq> - 1"
    and "0 < mc_max_entries m \<Longrightarrow> mc_live_entries m \<le> mc_max_entries m"
  shows "\<exists>m' ev L. mc_insert hash key entry now m = Some (m', ev)
    \<and> inserted hash now key entry L m m' \<and> finite L \<and> card L \<le> ev \<and> ev \<le> 1
    \<and> (ev = 1 \<longrightarrow> mc_live_entries m = mc_max_entries m)"
  using assms by (rule mc_insert_returns)

theorem mc_insert_spec_witness:
  "\<exists>m' ev L. mc_insert example_hash [2] (example_entry 9) 3 example_cache = Some (m', ev)
    \<and> inserted example_hash 3 [2] (example_entry 9) L example_cache m' \<and> finite L \<and> card L \<le> ev \<and> ev \<le> 1
    \<and> (ev = 1 \<longrightarrow> mc_live_entries example_cache = mc_max_entries example_cache)"
  by (rule mc_insert_spec [OF example_cache_inv]) (simp_all add: example_cache_def)

section \<open>Reaping\<close>

lemma reap_scan_spec:
  assumes "distinct (map fst sh)"
  shows "\<exists>ks fin. reap_scan late max_keys now examined acc sh = (acc @ ks, fin) \<and> distinct ks
    \<and> set ks \<subseteq> {k. \<exists>e. (k, e) \<in> set sh \<and> \<not> is_fresh now e}
    \<and> (fin \<longrightarrow> set ks = {k. \<exists>e. (k, e) \<in> set sh \<and> \<not> is_fresh now e})
    \<and> (\<not> fin \<longrightarrow> (\<exists>n. late n) \<or> acc @ ks \<noteq> [])"
  using assms
proof (induction sh arbitrary: examined acc)
  case (Cons x sh)
  obtain key entry where x: "x = (key, entry)"
    by fastforce
  consider "examined mod 64 = 0 \<and> late examined"
    | "\<not> (examined mod 64 = 0 \<and> late examined)" "is_fresh now entry"
    | "\<not> (examined mod 64 = 0 \<and> late examined)" "\<not> is_fresh now entry" "max_keys \<le> length (acc @ [key])"
    | "\<not> (examined mod 64 = 0 \<and> late examined)" "\<not> is_fresh now entry" "\<not> max_keys \<le> length (acc @ [key])"
    by blast
  then show ?case
  proof cases
    case 1
    then show ?thesis
      by (auto simp: x)
  next
    case 2
    then show ?thesis
      using Cons.IH [of "examined + 1" acc] Cons.prems by (fastforce simp: x)
  next
    case 3
    then show ?thesis
      by (auto simp: x)
  next
    case 4
    obtain ks fin where ks: "reap_scan late max_keys now (examined + 1) (acc @ [key]) sh = ((acc @ [key]) @ ks, fin)"
      "distinct ks" "set ks \<subseteq> {k. \<exists>e. (k, e) \<in> set sh \<and> \<not> is_fresh now e}"
      "fin \<longrightarrow> set ks = {k. \<exists>e. (k, e) \<in> set sh \<and> \<not> is_fresh now e}"
      using Cons.IH [of "examined + 1" "acc @ [key]"] Cons.prems by auto
    have "key \<notin> set ks"
      using ks(3) Cons.prems by (force simp: x)
    then show ?thesis
      using 4 ks by (intro exI [of _ "key # ks"] exI [of _ fin]) (auto simp: x)
  qed
qed auto

text \<open>One shard under the budget.\<close>

lemma reap_shard_spec:
  assumes "mc_inv hash m" "i < length (mc_shards m)"
    and r: "reap_shard_budgeted late max_keys i now m = (removed, fin, m')"
  shows "makes_room hash now {} m m' \<and> removed = of_nat (total_entries m - total_entries m')
    \<and> mc_shards m' = (mc_shards m)[i := mc_shards m' ! i] \<and> set (mc_shards m' ! i) \<subseteq> set (mc_shards m ! i)
    \<and> (fin \<longrightarrow> (\<forall>e \<in> snd ` set (mc_shards m' ! i). is_fresh now e))
    \<and> (\<not> fin \<longrightarrow> (\<exists>n. late n) \<or> total_entries m' < total_entries m)"
proof -
  let ?sh = "mc_shards m ! i"
  note dist = mc_invD(2) [OF assms(1,2)]
  obtain ks fin' where ks: "reap_scan late max_keys now 0 [] ?sh = (ks, fin')" "distinct ks"
    "set ks \<subseteq> {k. \<exists>e. (k, e) \<in> set ?sh \<and> \<not> is_fresh now e}"
    "fin' \<longrightarrow> set ks = {k. \<exists>e. (k, e) \<in> set ?sh \<and> \<not> is_fresh now e}"
    "\<not> fin' \<longrightarrow> (\<exists>n. late n) \<or> ks \<noteq> []"
    using reap_scan_spec [OF dist, of late max_keys now 0 "[]"] unfolding append_Nil by blast
  let ?P = "\<lambda>x. fst x \<notin> set ks"
  have keep: "?P (k, e)" if "(k, e) \<in> set ?sh" "is_fresh now e" for k e
    using that ks(3) dist by (auto dest: eq_key_imp_eq_value)
  have "set ks \<subseteq> set (map fst ?sh)"
    using ks(3) by force
  then have "set (filter (\<lambda>k. k \<in> set ks) (map fst ?sh)) = set ks"
    by auto
  then have "length (filter (\<lambda>k. k \<in> set ks) (map fst ?sh)) = length ks"
    using distinct_card [OF ks(2)] distinct_card [OF distinct_filter [OF dist], of "\<lambda>k. k \<in> set ks"] by simp
  then have len: "length ks = length ?sh - length (filter ?P ?sh)"
    using sum_length_filter_compl [of ?P ?sh] by (simp add: filter_map comp_def)
  note spec = filter_shard_spec [OF assms(1,2), of now ?P, OF keep]
  have "length ks < 2 ^ 64"
    using len shard_le_total [OF assms(2)] mc_invD(1) [OF assms(1)] unat_u64_less [of "mc_live_entries m"]
    by simp
  then have "(0 :: u64) < of_nat (length ks) \<longleftrightarrow> ks \<noteq> []"
    using nat_dvd_not_less [of "length ks" "2 ^ 64"]
    by (cases "ks = []") (simp_all add: word_gt_0 word_of_nat_eq_0_iff)
  then have "reap_shard_budgeted late max_keys i now m = (of_nat (length ks), fin', filter_shard i ?P m)"
    unfolding reap_shard_budgeted_def ks(1) fold_delete filter_shard_def len [symmetric]
    by (cases m; cases "ks = []") (simp_all add: set_shard_def put_shard_def Let_def)
  then have m': "m' = filter_shard i ?P m" "removed = of_nat (length ks)" "fin = fin'"
    using r by simp_all
  have tot: "total_entries m' + length ks = total_entries m"
    using spec len m'(1) by simp
  have sh: "mc_shards m' = (mc_shards m)[i := filter ?P ?sh]"
    by (simp add: m'(1) filter_shard_def)
  show ?thesis
  proof (intro conjI impI)
    show "makes_room hash now {} m m'"
      using spec m'(1) by simp
    show "removed = of_nat (total_entries m - total_entries m')"
      using tot m'(2) by (metis add_diff_cancel_left')
    show "mc_shards m' = (mc_shards m)[i := mc_shards m' ! i]" "set (mc_shards m' ! i) \<subseteq> set (mc_shards m ! i)"
      using assms(2) by (auto simp: sh)
    show "\<forall>e \<in> snd ` set (mc_shards m' ! i). is_fresh now e" if fin
      using that ks(4) m'(3) assms(2) by (auto simp: sh)
    show "(\<exists>n. late n) \<or> total_entries m' < total_entries m" if "\<not> fin"
      using that ks(5) m'(3) tot by (cases ks) auto
  qed
qed

text \<open>The pass over the ring.\<close>

lemma reap_ring_spec:
  assumes "mc_inv hash m"
    and "reap_ring late max_keys now start offsets removed cursor m = (out, cursor', m')"
  shows "makes_room hash now {} m m'
    \<and> ro_removed out = removed + of_nat (total_entries m - total_entries m')
    \<and> (\<forall>j < length (mc_shards m). set (mc_shards m' ! j) \<subseteq> set (mc_shards m ! j))
    \<and> (\<not> ro_incomplete out \<longrightarrow>
        cursor' = (if offsets = [] then cursor else (start + last offsets + 1) mod length (mc_shards m))
        \<and> (\<forall>j \<in> (\<lambda>d. (start + d) mod length (mc_shards m)) ` set offsets.
              \<forall>e \<in> snd ` set (mc_shards m' ! j). is_fresh now e))
    \<and> (ro_incomplete out \<longrightarrow> (\<exists>i n. late i n) \<or> total_entries m' < total_entries m)"
  using assms
proof (induction offsets arbitrary: removed cursor m)
  case Nil
  then show ?case
    by (auto intro: makes_room_refl)
next
  case (Cons d ds)
  let ?n = "length (mc_shards m)"
  let ?i = "(start + d) mod ?n"
  obtain shard_removed fin m1 where r: "reap_shard_budgeted (late ?i) max_keys ?i now m = (shard_removed, fin, m1)"
    by (metis prod_cases3)
  have i: "?i < ?n"
    using Cons.prems(1) by (simp add: mc_inv_def)
  note s1 = reap_shard_spec [OF Cons.prems(1) i r]
  then have mr: "makes_room hash now {} m m1" and n1: "length (mc_shards m1) = ?n"
    by (auto simp: makes_room_def)
  have sub: "set (mc_shards m1 ! j) \<subseteq> set (mc_shards m ! j)" if "j < ?n" for j
    using s1 that i by (metis nth_list_update_neq order_refl)
  show ?case
  proof (cases fin)
    case False
    then have "out = \<lparr>ro_removed = removed + shard_removed, ro_incomplete = True\<rparr>" "m' = m1"
      using Cons.prems(2) r by (auto simp: Let_def)
    then show ?thesis
      using s1 sub False by auto
  next
    case True
    then have ring: "reap_ring late max_keys now start ds (removed + shard_removed) ((?i + 1) mod ?n) m1
        = (out, cursor', m')"
      using Cons.prems(2) r by (simp add: Let_def)
    note s2 = Cons.IH [OF makes_roomD(1) [OF mr] ring, unfolded n1]
    have tot: "total_entries m' \<le> total_entries m1" "total_entries m1 \<le> total_entries m"
      using s2 mr by (auto simp: makes_room_def)
    show ?thesis
    proof (intro conjI impI)
      show "makes_room hash now {} m m'"
        using makes_room_trans [OF mr, of "{}" m' "{}"] s2 by simp
      have "total_entries m - total_entries m'
          = (total_entries m - total_entries m1) + (total_entries m1 - total_entries m')"
        using tot by simp
      then show "ro_removed out = removed + of_nat (total_entries m - total_entries m')"
        using s1 s2 by (metis (no_types, opaque_lifting) add.assoc of_nat_add)
      show "\<forall>j < ?n. set (mc_shards m' ! j) \<subseteq> set (mc_shards m ! j)"
        using s2 sub by blast
      show "(\<exists>i n. late i n) \<or> total_entries m' < total_entries m" if "ro_incomplete out"
        using that s2 tot by (meson less_le_trans)
    next
      assume complete: "\<not> ro_incomplete out"
      show "cursor' = (if d # ds = [] then cursor else (start + last (d # ds) + 1) mod ?n)"
        using s2 complete by (auto simp: mod_Suc_eq)
      show "\<forall>j \<in> (\<lambda>d. (start + d) mod ?n) ` set (d # ds). \<forall>e \<in> snd ` set (mc_shards m' ! j). is_fresh now e"
        using s1 s2 complete True i by (auto; blast)
    qed
  qed
qed

lemma ring_cover: "(c :: nat) < n \<Longrightarrow> j < n \<Longrightarrow> \<exists>d < n. j = (c + d) mod n"
  by (cases "c \<le> j") (auto intro: exI [of _ "j - c"] exI [of _ "n - c + j"])

text \<open>C25: A pass of the reaper removes nothing but expired entries, counts what it removed, and
  keeps the counter of live entries exact.  A pass that was not cut short leaves no expired entry
  and the cursor on the shard it started with; a pass cut short by the key budget alone has
  removed something, so repeated passes end.\<close>

theorem reap_expired_spec:
  assumes "mc_inv hash m"
    and "reap_expired_budgeted late max_keys now cursor m = (out, cursor', m')"
  shows "makes_room hash now {} m m'
    \<and> unat (ro_removed out) + total_entries m' = total_entries m
    \<and> (\<not> ro_incomplete out \<longrightarrow> cursor' = cursor mod length (mc_shards m)
        \<and> (\<forall>k e. content hash m' k = Some e \<longrightarrow> is_fresh now e))
    \<and> (ro_incomplete out \<longrightarrow> (\<exists>i n. late i n) \<or> total_entries m' < total_entries m)"
proof -
  let ?n = "length (mc_shards m)"
  have n: "0 < ?n"
    using assms(1) by (simp add: mc_inv_def)
  then have "reap_ring late max_keys now (cursor mod ?n) [0..<?n] 0 cursor m = (out, cursor', m')"
    using assms(2) by (simp add: reap_expired_budgeted_def Let_def)
  note spec = reap_ring_spec [OF assms(1) this]
  then have mr: "makes_room hash now {} m m'" ..
  have tot: "total_entries m' \<le> total_entries m" "total_entries m < 2 ^ 64"
    using makes_roomD(3) [OF mr] mc_invD(1) [OF assms(1)] unat_u64_less [of "mc_live_entries m"] by simp_all
  have removed: "unat (ro_removed out) + total_entries m' = total_entries m"
    using spec tot by (simp add: unat_of_nat_small del: of_nat_diff)
  have fresh: "is_fresh now e" if "\<not> ro_incomplete out" "content hash m' k = Some e" for k e
  proof -
    let ?j = "mc_shard_index hash k m"
    have j: "?j < ?n"
      by (rule mc_shard_index_less [OF assms(1)])
    have "?j \<in> (\<lambda>d. (cursor mod ?n + d) mod ?n) ` set [0..<?n]"
      using ring_cover [of "cursor mod ?n" ?n ?j] j n by auto
    moreover have "e \<in> snd ` set (mc_shards m' ! ?j)"
      using that(2) makes_roomD(4) [OF mr, of k]
      by (force simp: content_def mc_shard_def dest: map_of_SomeD)
    ultimately show ?thesis
      using spec that(1) by blast
  qed
  have "cursor mod ?n + last [0..<?n] + 1 = cursor mod ?n + ?n"
    using n by simp
  then have "(cursor mod ?n + last [0..<?n] + 1) mod ?n = cursor mod ?n"
    by (simp only: mod_add_self2 mod_mod_trivial)
  then show ?thesis
    using spec removed fresh n by auto
qed

theorem reap_expired_spec_witness:
  "total_entries (snd (snd (reap_expired_budgeted (\<lambda>_ _. False) 1024 7 3 example_cache))) + 1
    = total_entries example_cache"
proof -
  obtain out cursor' m' where r:
    "reap_expired_budgeted (\<lambda>_ _. False) 1024 7 3 example_cache = (out, cursor', m')"
    by (metis prod_cases3)
  have "ro_removed (fst (reap_expired_budgeted (\<lambda>_ _. False) 1024 7 3 example_cache)) = 1"
    by code_simp
  then have "ro_removed out = 1"
    using r by simp
  then show ?thesis
    using reap_expired_spec [OF example_cache_inv r] r by simp
qed

section \<open>Removal, initial state, lowering the cap\<close>

lemma mc_inv_from_config: "mc_inv hash (memory_from_config shard_count max_entries)"
  by (simp add: mc_inv_def memory_from_config_def total_entries_def sum_list_0)

lemma content_from_config: "content hash (memory_from_config shard_count max_entries) key = None"
  by (simp add: content_def mc_shard_def memory_from_config_def mc_shard_index_def)

lemma mc_remove_spec:
  assumes "mc_inv hash m" "mc_remove hash key m = (present, m')"
  shows "mc_inv hash m' \<and> content hash m' = (content hash m)(key := None)
    \<and> mc_max_entries m' = mc_max_entries m \<and> (present \<longleftrightarrow> content hash m key \<noteq> None)"
proof (cases "content hash m key")
  case None
  then show ?thesis
    using assms by (auto simp: mc_remove_def content_def mc_shard_def Let_def fun_eq_iff)
next
  case (Some e)
  let ?i = "mc_shard_index hash key m"
  have "m' = set_shard ?i (AList.delete key (mc_shards m ! ?i)) (mc_live_entries m - 1) m" present
    using Some assms(2) by (auto simp: mc_remove_def set_shard_def content_def mc_shard_def Let_def)
  then show ?thesis
    using Some dropped_key_delete [OF assms(1) mc_shard_index_less [OF assms(1)], of key key]
    by (auto simp: dropped_key_def content_def mc_shard_def)
qed

definition trimmed :: "(cache_key \<Rightarrow> u64) \<Rightarrow> memory_cache \<Rightarrow> memory_cache \<Rightarrow> bool"
  where "trimmed hash m m' \<longleftrightarrow> mc_inv hash m' \<and> mc_max_entries m' = mc_max_entries m
    \<and> mc_live_entries m' \<le> mc_max_entries m
    \<and> (\<forall>k. content hash m' k = content hash m k \<or> content hash m' k = None)"

lemma trimmed_dropped: "dropped_key hash m m1 k \<Longrightarrow> trimmed hash m1 m' \<Longrightarrow> trimmed hash m m'"
  unfolding trimmed_def dropped_key_def by (metis fun_upd_apply)

lemma trim_loop_spec:
  assumes "mc_inv hash m"
  shows "trimmed hash m (fst (trim_loop now m ev))"
  using assms
proof (induction now m ev rule: trim_loop.induct)
  case (1 now m ev)
  show ?case
  proof (cases "mc_max_entries m < mc_live_entries m")
    case False
    then show ?thesis
      using 1(2) by (simp add: trim_loop_idle trimmed_def)
  next
    case over: True
    then have "0 < total_entries m"
      using mc_invD(1) [OF 1(2)] by (simp add: word_less_nat_alt)
    then obtain k where k: "fst (evict_one now m)" "dropped_key hash m (snd (evict_one now m)) k"
      using evict_one_spec [OF 1(2), of now] by auto
    then have "mc_inv hash (snd (evict_one now m))"
      by (simp add: dropped_key_def)
    then show ?thesis
      using 1(1) [OF conjI [OF over k(1)]] trimmed_dropped [OF k(2)] over k(1)
      by (subst trim_loop.simps) simp
  qed
qed

text \<open>Lowering the cap evicts down to it.\<close>

lemma set_max_entries_spec:
  assumes "mc_inv hash m" "mc_max_entries m = 0 \<or> mc_live_entries m \<le> mc_max_entries m"
  shows "mc_inv hash (set_max_entries now n m) \<and> mc_max_entries (set_max_entries now n m) = n
    \<and> (0 < n \<longrightarrow> mc_live_entries (set_max_entries now n m) \<le> n)"
proof -
  let ?m1 = "m\<lparr>mc_max_entries := n\<rparr>"
  have inv: "mc_inv hash ?m1"
    using assms(1) by (simp add: mc_inv_def total_entries_def mc_shard_index_def)
  have "0 < n \<Longrightarrow> \<not> n < mc_max_entries m \<Longrightarrow> mc_max_entries m \<noteq> 0 \<Longrightarrow> mc_live_entries m \<le> n"
    using assms(2) by auto
  then show ?thesis
    using inv trim_loop_spec [OF inv, of now 0]
    by (auto simp: set_max_entries_def trim_to_max_def trimmed_def Let_def not_less)
qed

section \<open>What a client of a store relies on\<close>

text \<open>The contract of a store of answers: an entry that was put in is found while it is fresh, and
  deleting a key affects that key only.\<close>

locale answer_store =
  fixes inv :: "'s \<Rightarrow> bool"
    and room :: "'s \<Rightarrow> bool"
    and get :: "cache_key \<Rightarrow> instant \<Rightarrow> 's \<Rightarrow> cache_entry option"
    and put :: "cache_key \<Rightarrow> cache_entry \<Rightarrow> instant \<Rightarrow> 's \<Rightarrow> 's option"
    and del :: "cache_key \<Rightarrow> 's \<Rightarrow> 's"
  assumes put_get: "inv s \<Longrightarrow> room s \<Longrightarrow>
      \<exists>s'. put k e now s = Some s' \<and> inv s' \<and> (\<forall>now'. get k now' s' = (if is_fresh now' e then Some e else None))"
    and del_inv: "inv s \<Longrightarrow> inv (del k s)"
    and get_del: "inv s \<Longrightarrow> get k' now (del k s) = (if k' = k then None else get k' now s)"
begin

lemma put_del_get:
  assumes "inv s" "room s" "k' \<noteq> k"
  shows "\<exists>s'. put k e now s = Some s' \<and> inv (del k' s')
    \<and> (\<forall>now'. get k now' (del k' s') = (if is_fresh now' e then Some e else None) \<and> get k' now' (del k' s') = None)"
proof -
  obtain s' where "put k e now s = Some s'" "inv s'" "\<forall>now'. get k now' s' = (if is_fresh now' e then Some e else None)"
    using put_get [OF assms(1,2)] by blast
  then show ?thesis
    using assms(3) by (simp add: get_del del_inv)
qed

end

text \<open>The memory store keeps it.\<close>

definition mc_room :: "memory_cache \<Rightarrow> bool"
  where "mc_room m \<longleftrightarrow> (if mc_max_entries m = 0 then mc_live_entries m \<noteq> - 1 else mc_live_entries m \<le> mc_max_entries m)"

lemma mc_get_content:
  "mc_get hash key now m = (case content hash m key of Some e \<Rightarrow> if is_fresh now e then Some e else None | None \<Rightarrow> None)"
  by (simp add: mc_get_def content_def split: option.splits)

interpretation memory_store: answer_store "mc_inv hash" mc_room "mc_get hash"
  "\<lambda>k e now m. map_option fst (mc_insert hash k e now m)" "\<lambda>k m. snd (mc_remove hash k m)" for hash
proof
  fix m k e now
  assume "mc_inv hash m" "mc_room m"
  then obtain m' ev L where "mc_insert hash k e now m = Some (m', ev)" "inserted hash now k e L m m'"
    using mc_insert_returns [of hash m k e now] by (auto simp: mc_room_def split: if_splits)
  then show "\<exists>m'. map_option fst (mc_insert hash k e now m) = Some m' \<and> mc_inv hash m'
      \<and> (\<forall>now'. mc_get hash k now' m' = (if is_fresh now' e then Some e else None))"
    by (auto simp: inserted_def mc_get_content)
next
  fix m k k' now
  assume "mc_inv hash m"
  then show "mc_inv hash (snd (mc_remove hash k m))"
    and "mc_get hash k' now (snd (mc_remove hash k m)) = (if k' = k then None else mc_get hash k' now m)"
    using mc_remove_spec [of hash m k "fst (mc_remove hash k m)" "snd (mc_remove hash k m)"]
    by (auto simp: mc_get_content)
qed

section \<open>Eviction order\<close>

text \<open>An expired entry is preferred within a shard only: a fresh entry of an earlier shard goes
  before an expired entry of a later one.\<close>

lemma evict_one_takes_fresh_before_stale:
  defines "m \<equiv> \<lparr>mc_max_entries = 1, mc_live_entries = 2,
    mc_shards = [[([1], example_entry 9)], [([2], example_entry 3)]]\<rparr>"
  shows "evict_one 5 m = (True, \<lparr>mc_max_entries = 1, mc_live_entries = 1,
    mc_shards = [[], [([2], example_entry 3)]]\<rparr>) \<and> is_fresh 5 (example_entry 9) \<and> \<not> is_fresh 5 (example_entry 3)"
  by (simp add: m_def evict_one_def evict_one_in_shard_def example_entry_def is_fresh_def Let_def)

end
