(* ===== verification/Health.thy ===== *)
theory Health
  imports Config
begin

text \<open>
  The runtime health side table of \<open>crates/conduit-core/src/health\<close>: the state
  machine of one backend (\<open>state.rs\<close>), the registry and its reconciliation on a
  configuration reload, and the operator controls (\<open>control.rs\<close>).

  The counters and flags of a backend are atomics of their own; an event of the
  state machine is modelled as one step, and the wall clock it reads is an
  argument.  A 64-bit float is a real number, and \<open>fl\<close> is the rounding of the
  hardware: the code's expression is evaluated exactly and rounded after each
  operation.
\<close>

section \<open>One backend\<close>

datatype health = Unknown | Up | Down

record backend_health_state =
  observed :: health
  applied :: health
  frozen :: bool
  last_transition_unix_ms :: u64
  consecutive_successes :: u32
  consecutive_failures :: u32
  passive_consecutive_failures :: u32
  latency_ewma_ms :: "real option"
  weight_factor :: real
  transitions_total :: u64

record passive_failure_result =
  pfr_applied :: health
  pfr_consecutive_failures :: u32
  pfr_passive_fall :: u32
  pfr_transitioned :: bool
  pfr_already_down :: bool

definition from_initial_policy :: "initial_health_state \<Rightarrow> backend_health_state"
  where "from_initial_policy initial =
    \<lparr>observed = Unknown,
     applied = (case initial of Optimistic \<Rightarrow> Up | Require1Good \<Rightarrow> Down | RequireFullRise \<Rightarrow> Down),
     frozen = False, last_transition_unix_ms = 0, consecutive_successes = 0,
     consecutive_failures = 0, passive_consecutive_failures = 0, latency_ewma_ms = None,
     weight_factor = 1, transitions_total = 0\<rparr>"

definition note_transition :: "u64 \<Rightarrow> backend_health_state \<Rightarrow> backend_health_state"
  where "note_transition now s =
    s\<lparr>last_transition_unix_ms := now, transitions_total := transitions_total s + 1\<rparr>"

definition set_observed :: "u64 \<Rightarrow> health \<Rightarrow> backend_health_state \<Rightarrow> backend_health_state"
  where "set_observed now v s =
    (let s' = s\<lparr>observed := v\<rparr> in if observed s \<noteq> v then note_transition now s' else s')"

definition set_applied :: "u64 \<Rightarrow> health \<Rightarrow> backend_health_state \<Rightarrow> backend_health_state"
  where "set_applied now v s =
    (let s' = s\<lparr>applied := v\<rparr> in if applied s \<noteq> v then note_transition now s' else s')"

definition damp_weight_factor ::
  "(real \<Rightarrow> real) \<Rightarrow> real \<Rightarrow> real \<Rightarrow> backend_health_state \<Rightarrow> backend_health_state"
  where "damp_weight_factor fl target damping s =
    s\<lparr>weight_factor := fl (weight_factor s + fl (damping * fl (target - weight_factor s)))\<rparr>"

definition update_ewma ::
  "(real \<Rightarrow> real) \<Rightarrow> real \<Rightarrow> real \<Rightarrow> backend_health_state \<Rightarrow> backend_health_state"
  where "update_ewma fl rtt_ms alpha s =
    s\<lparr>latency_ewma_ms := Some (case latency_ewma_ms s of
        None \<Rightarrow> rtt_ms
      | Some prev \<Rightarrow> fl (fl (alpha * rtt_ms) + fl (fl (1 - alpha) * prev)))\<rparr>"

text \<open>What reaching a threshold does: \<open>observed\<close> takes the verdict, and \<open>applied\<close>
  follows unless it is frozen.\<close>

definition apply_verdict :: "u64 \<Rightarrow> health \<Rightarrow> backend_health_state \<Rightarrow> backend_health_state"
  where "apply_verdict now v s =
    (let s' = set_observed now v s in if frozen s' then s' else set_applied now v s')"

definition record_success ::
  "(real \<Rightarrow> real) \<Rightarrow> u64 \<Rightarrow> u32 \<Rightarrow> real \<Rightarrow> real \<Rightarrow> backend_health_state \<Rightarrow> backend_health_state"
  where "record_success fl now rise alpha rtt_ms s =
    (let s1 = update_ewma fl rtt_ms alpha s;
         successes = sat_add (consecutive_successes s1) 1;
         s2 = s1\<lparr>consecutive_failures := 0, consecutive_successes := successes\<rparr> in
     if max rise 1 \<le> successes then apply_verdict now Up s2 else s2)"

definition record_failure :: "u64 \<Rightarrow> u32 \<Rightarrow> backend_health_state \<Rightarrow> backend_health_state"
  where "record_failure now fall s =
    (let failures = sat_add (consecutive_failures s) 1;
         s1 = s\<lparr>consecutive_successes := 0, consecutive_failures := failures\<rparr> in
     if max fall 1 \<le> failures then apply_verdict now Down s1 else s1)"

definition record_passive_failure ::
  "u64 \<Rightarrow> u32 \<Rightarrow> backend_health_state \<Rightarrow> passive_failure_result \<times> backend_health_state"
  where "record_passive_failure now passive_fall s =
    (let failures = sat_add (passive_consecutive_failures s) 1;
         s1 = s\<lparr>passive_consecutive_failures := failures\<rparr>;
         tripped = (max passive_fall 1 \<le> failures);
         s2 = (if tripped then apply_verdict now Down s1 else s1) in
     (\<lparr>pfr_applied = applied s2, pfr_consecutive_failures = failures,
       pfr_passive_fall = passive_fall, pfr_transitioned = (tripped \<and> observed s \<noteq> Down),
       pfr_already_down = (observed s = Down)\<rparr>, s2))"

definition record_passive_success :: "backend_health_state \<Rightarrow> backend_health_state"
  where "record_passive_success s = s\<lparr>passive_consecutive_failures := 0\<rparr>"

definition freeze :: "backend_health_state \<Rightarrow> backend_health_state"
  where "freeze s = s\<lparr>frozen := True\<rparr>"

definition unfreeze :: "u64 \<Rightarrow> backend_health_state \<Rightarrow> backend_health_state"
  where "unfreeze now s = set_applied now (observed s) (s\<lparr>frozen := False\<rparr>)"

definition set_up :: "u64 \<Rightarrow> backend_health_state \<Rightarrow> backend_health_state"
  where "set_up now s = freeze (set_applied now Up s)"

definition set_down :: "u64 \<Rightarrow> backend_health_state \<Rightarrow> backend_health_state"
  where "set_down now s = freeze (set_applied now Down s)"

section \<open>The registry\<close>

type_synonym backend_key = "string \<times> socket_addr"
type_synonym health_table = "backend_key \<rightharpoonup> backend_health_state"

definition probe_semantics_eq :: "compiled_backend_health \<Rightarrow> compiled_backend_health \<Rightarrow> bool"
  where "probe_semantics_eq a b \<longleftrightarrow>
    cbh_probe_qname a = cbh_probe_qname b \<and> cbh_probe_qtype a = cbh_probe_qtype b \<and>
    cbh_probe_source a = cbh_probe_source b"

datatype scope_mode = ScopeInherit | ScopeFrozen | ScopeAutomatic

datatype effective_scope = EffFrozen | EffAutomatic

datatype health_control_scope = ScGlobal | ScPool string | ScBackend string socket_addr

datatype health_control_action = ActFreeze | ActSetUp | ActSetDown | ActResumeAutomatic

record health_control_scopes =
  sc_global :: u8
  sc_pools :: "string \<rightharpoonup> u8"
  sc_backends :: "backend_key \<rightharpoonup> u8"

definition scopes_default :: health_control_scopes
  where "scopes_default = \<lparr>sc_global = 0, sc_pools = Map.empty, sc_backends = Map.empty\<rparr>"

record health_registry =
  hr_table :: health_table
  hr_scopes :: health_control_scopes

text \<open>The backends of the compiled configuration in the order of the two nested
  loops.\<close>

definition compiled_keys :: "compiled_health \<Rightarrow> (string \<times> compiled_pool_health \<times> compiled_backend_health) list"
  where "compiled_keys ch = concat (map (\<lambda>(n, p). map (\<lambda>b. (n, p, b)) (cph_backends p)) ch)"

definition registry_from_compiled :: "compiled_health \<Rightarrow> health_registry"
  where "registry_from_compiled ch =
    \<lparr>hr_table = foldl (\<lambda>t (n, p, b). t((n, cbh_address b) \<mapsto> from_initial_policy (cph_initial_state p)))
       Map.empty (compiled_keys ch),
     hr_scopes = scopes_default\<rparr>"

definition reconciled_state ::
  "compiled_health \<Rightarrow> health_table \<Rightarrow> string \<Rightarrow> compiled_pool_health \<Rightarrow> compiled_backend_health
    \<Rightarrow> backend_health_state"
  where "reconciled_state prev old n p b =
    (let keep = (case health_pool prev n of
         Some pp \<Rightarrow> (case find (\<lambda>b'. cbh_address b' = cbh_address b) (cph_backends pp) of
             Some prev_backend \<Rightarrow> probe_semantics_eq prev_backend b
           | None \<Rightarrow> False)
       | None \<Rightarrow> False) in
     case old (n, cbh_address b) of
       Some existing \<Rightarrow> if keep then existing else from_initial_policy (cph_initial_state p)
     | None \<Rightarrow> from_initial_policy (cph_initial_state p))"

definition reconcile :: "compiled_health \<Rightarrow> compiled_health \<Rightarrow> health_registry \<Rightarrow> health_registry"
  where "reconcile prev new r =
    r\<lparr>hr_table := foldl (\<lambda>t (n, p, b). t((n, cbh_address b) \<mapsto> reconciled_state prev (hr_table r) n p b))
        Map.empty (compiled_keys new)\<rparr>"

definition record_passive_forward_outcome ::
  "u64 \<Rightarrow> compiled_health \<Rightarrow> string \<Rightarrow> socket_addr \<Rightarrow> bool \<Rightarrow> health_registry
    \<Rightarrow> passive_failure_result option \<times> health_registry"
  where "record_passive_forward_outcome now ch pool backend is_failure r =
    (case health_pool ch pool of
       None \<Rightarrow> (None, r)
     | Some cfg \<Rightarrow>
        if \<not> cph_passive_fast_trip cfg then (None, r)
        else case hr_table r (pool, backend) of
          None \<Rightarrow> (None, r)
        | Some s \<Rightarrow>
           if is_failure
           then let (res, s') = record_passive_failure now (cph_passive_fall cfg) s in
             (Some res, r\<lparr>hr_table := (hr_table r)((pool, backend) \<mapsto> s')\<rparr>)
           else (None, r\<lparr>hr_table := (hr_table r)((pool, backend) \<mapsto> record_passive_success s)\<rparr>))"

section \<open>Operator controls\<close>

fun scope_to_u8 :: "scope_mode \<Rightarrow> u8"
  where
    "scope_to_u8 ScopeAutomatic = 0"
  | "scope_to_u8 ScopeInherit = 0"
  | "scope_to_u8 ScopeFrozen = 1"

definition u8_to_scope :: "u8 \<Rightarrow> scope_mode"
  where "u8_to_scope v = (if v = 1 then ScopeFrozen else ScopeAutomatic)"

fun effective_scope_of :: "scope_mode \<Rightarrow> effective_scope"
  where
    "effective_scope_of ScopeFrozen = EffFrozen"
  | "effective_scope_of ScopeInherit = EffAutomatic"
  | "effective_scope_of ScopeAutomatic = EffAutomatic"

fun set_level :: "health_control_scope \<Rightarrow> scope_mode \<Rightarrow> health_control_scopes \<Rightarrow> health_control_scopes"
  where
    "set_level ScGlobal mode sc = sc\<lparr>sc_global := scope_to_u8 mode\<rparr>"
  | "set_level (ScPool pool) mode sc = sc\<lparr>sc_pools := (sc_pools sc)(pool :=
      (case mode of ScopeInherit \<Rightarrow> None | other \<Rightarrow> Some (scope_to_u8 other)))\<rparr>"
  | "set_level (ScBackend pool addr) mode sc = sc\<lparr>sc_backends := (sc_backends sc)((pool, addr) :=
      (case mode of ScopeInherit \<Rightarrow> None | other \<Rightarrow> Some (scope_to_u8 other)))\<rparr>"

definition resolve :: "health_control_scopes \<Rightarrow> string \<Rightarrow> backend_key \<Rightarrow> effective_scope"
  where "resolve sc pool key =
    (case sc_backends sc key of
       Some v \<Rightarrow> effective_scope_of (u8_to_scope v)
     | None \<Rightarrow>
        (case sc_pools sc pool of
           Some v \<Rightarrow> effective_scope_of (u8_to_scope v)
         | None \<Rightarrow> effective_scope_of (u8_to_scope (sc_global sc))))"

definition resolve_scope :: "health_registry \<Rightarrow> string \<Rightarrow> socket_addr \<Rightarrow> effective_scope"
  where "resolve_scope r pool addr = resolve (hr_scopes r) pool (pool, addr)"

definition is_effectively_frozen :: "health_registry \<Rightarrow> string \<Rightarrow> socket_addr \<Rightarrow> bool"
  where "is_effectively_frozen r pool addr \<longleftrightarrow> resolve_scope r pool addr = EffFrozen"

definition update_state ::
  "backend_key \<Rightarrow> (backend_health_state \<Rightarrow> backend_health_state) \<Rightarrow> health_registry \<Rightarrow> health_registry"
  where "update_state key f r = r\<lparr>hr_table := (hr_table r)(key := map_option f (hr_table r key))\<rparr>"

definition sync_one :: "string \<Rightarrow> socket_addr \<Rightarrow> health_registry \<Rightarrow> health_registry"
  where "sync_one pool addr r =
    update_state (pool, addr) (\<lambda>s. s\<lparr>frozen := is_effectively_frozen r pool addr\<rparr>) r"

definition sync_frozen_flags :: "compiled_health \<Rightarrow> health_registry \<Rightarrow> health_registry"
  where "sync_frozen_flags ch r =
    foldl (\<lambda>r (n, p, b). sync_one n (cbh_address b) r) r (compiled_keys ch)"

definition backends_in_scope :: "health_control_scope \<Rightarrow> compiled_health \<Rightarrow> backend_key list"
  where "backends_in_scope scope ch =
    (case scope of
       ScGlobal \<Rightarrow> map (\<lambda>(n, p, b). (n, cbh_address b)) (compiled_keys ch)
     | ScPool pool \<Rightarrow>
        (case health_pool ch pool of
           Some p \<Rightarrow> map (\<lambda>b. (pool, cbh_address b)) (cph_backends p)
         | None \<Rightarrow> [])
     | ScBackend pool addr \<Rightarrow> [(pool, addr)])"

datatype control_error = UnknownPool string | BackendNotInPool socket_addr string | NoBackendsInScope

definition validate_scope ::
  "health_control_scope \<Rightarrow> compiled_health \<Rightarrow> (control_error, unit) result"
  where "validate_scope scope ch =
    (case scope of
       ScGlobal \<Rightarrow> Ok ()
     | ScPool pool \<Rightarrow> if health_pool ch pool \<noteq> None then Ok () else Err (UnknownPool pool)
     | ScBackend pool addr \<Rightarrow>
        (case health_pool ch pool of
           None \<Rightarrow> Err (UnknownPool pool)
         | Some p \<Rightarrow> if list_ex (\<lambda>b. cbh_address b = addr) (cph_backends p) then Ok ()
             else Err (BackendNotInPool addr pool)))"

record health_control_outcome =
  hco_scope :: health_control_scope
  hco_scope_state :: effective_scope
  hco_pool :: string
  hco_backend :: socket_addr
  hco_applied :: health

definition scope_for_backend ::
  "health_control_scope \<Rightarrow> string \<Rightarrow> socket_addr \<Rightarrow> health_control_scope"
  where "scope_for_backend request pool addr =
    (case request of ScBackend _ _ \<Rightarrow> request | _ \<Rightarrow> ScBackend pool addr)"

fun control_mode :: "health_control_action \<Rightarrow> scope_mode"
  where
    "control_mode ActFreeze = ScopeFrozen"
  | "control_mode ActResumeAutomatic = ScopeAutomatic"
  | "control_mode ActSetUp = ScopeFrozen"
  | "control_mode ActSetDown = ScopeFrozen"

text \<open>The action on one backend of the scope.\<close>

definition control_backend ::
  "u64 \<Rightarrow> health_control_scope \<Rightarrow> health_control_action \<Rightarrow> backend_key
    \<Rightarrow> health_control_outcome list \<times> health_registry \<Rightarrow> health_control_outcome list \<times> health_registry"
  where "control_backend now scope action key acc =
    (let (outs, r) = acc; (pool, addr) = key in
     case hr_table r key of
       None \<Rightarrow> (outs, r)
     | Some s \<Rightarrow>
        (let s1 = (case action of
               ActFreeze \<Rightarrow> s
             | ActSetUp \<Rightarrow> set_applied now Up s
             | ActSetDown \<Rightarrow> set_applied now Down s
             | ActResumeAutomatic \<Rightarrow>
                 if resolve_scope r pool addr = EffAutomatic
                 then set_applied now (observed s) s else s);
             r1 = sync_one pool addr (r\<lparr>hr_table := (hr_table r)(key \<mapsto> s1)\<rparr>) in
         (outs @ [\<lparr>hco_scope = scope_for_backend scope pool addr,
                   hco_scope_state = resolve_scope r1 pool addr, hco_pool = pool,
                   hco_backend = addr, hco_applied = applied s1\<rparr>], r1)))"

definition set_health_control ::
  "u64 \<Rightarrow> compiled_health \<Rightarrow> health_control_scope \<Rightarrow> health_control_action \<Rightarrow> health_registry
    \<Rightarrow> (control_error, health_control_outcome list) result \<times> health_registry"
  where "set_health_control now ch scope action r =
    (case validate_scope scope ch of
       Err e \<Rightarrow> (Err e, r)
     | Ok _ \<Rightarrow>
        (let affected = backends_in_scope scope ch in
         if affected = [] then (Err NoBackendsInScope, r)
         else
           let r0 = r\<lparr>hr_scopes := set_level scope (control_mode action) (hr_scopes r)\<rparr>;
               (outs, r') = foldl (\<lambda>acc key. control_backend now scope action key acc)
                 ([], r0) affected in
           (Ok outs, r')))"

section \<open>Sequences of events\<close>

text \<open>The events of the state machine of one backend: probe results, and live
  forwards (passive health), each with the wall clock reading.\<close>

datatype health_event = ProbeSuccess u64 real | ProbeFailure u64 | LiveFailure u64 | LiveSuccess

record health_params =
  hp_rise :: u32
  hp_fall :: u32
  hp_passive_fall :: u32
  hp_alpha :: real

fun health_step ::
  "(real \<Rightarrow> real) \<Rightarrow> health_params \<Rightarrow> health_event \<Rightarrow> backend_health_state \<Rightarrow> backend_health_state"
  where
    "health_step fl hp (ProbeSuccess now rtt) s = record_success fl now (hp_rise hp) (hp_alpha hp) rtt s"
  | "health_step fl hp (ProbeFailure now) s = record_failure now (hp_fall hp) s"
  | "health_step fl hp (LiveFailure now) s = snd (record_passive_failure now (hp_passive_fall hp) s)"
  | "health_step fl hp LiveSuccess s = record_passive_success s"

fun run_events :: "('e \<Rightarrow> 's \<Rightarrow> 's) \<Rightarrow> 'e list \<Rightarrow> 's \<Rightarrow> 's"
  where
    "run_events step [] s = s"
  | "run_events step (e # es) s = run_events step es (step e s)"

section \<open>The contract Route relies on\<close>

text \<open>\<open>applied\<close> is what routing reads.  Probe and traffic events leave the frozen
  flag alone, hold \<open>applied\<close> while it is set, and otherwise move \<open>applied\<close> only to
  the value of \<open>observed\<close>.\<close>

locale tracked_health =
  fixes step :: "'e \<Rightarrow> 's \<Rightarrow> 's"
    and obs :: "'s \<Rightarrow> 'h" and app :: "'s \<Rightarrow> 'h" and frz :: "'s \<Rightarrow> bool"
  assumes flag_kept: "frz (step e s) = frz s"
    and holds: "frz s \<Longrightarrow> app (step e s) = app s"
    and follows: "\<not> frz s \<Longrightarrow> app (step e s) = obs (step e s) \<or>
      app (step e s) = app s \<and> obs (step e s) = obs s"
begin

lemma run_flag: "frz (run_events step es s) = frz s"
  by (induction es arbitrary: s) (auto simp: flag_kept)

lemma run_holds: "frz s \<Longrightarrow> app (run_events step es s) = app s"
  by (induction es arbitrary: s) (auto simp: flag_kept holds)

lemma run_follows: "\<not> frz s \<Longrightarrow> app s = obs s \<Longrightarrow> app (run_events step es s) = obs (run_events step es s)"
proof (induction es arbitrary: s)
  case (Cons e es)
  then show ?case
    using follows [of s e] by (auto simp: flag_kept)
qed simp

lemma run_tracks:
  "\<not> frz s \<Longrightarrow> obs (run_events step es s) \<noteq> obs s \<Longrightarrow>
   app (run_events step es s) = obs (run_events step es s)"
proof (induction es arbitrary: s)
  case (Cons e es)
  show ?case
  proof (cases "app (step e s) = obs (step e s)")
    case True
    then show ?thesis
      using run_follows [of "step e s" es] Cons.prems by (simp add: flag_kept)
  next
    case False
    then show ?thesis
      using follows [OF Cons.prems(1), of e] Cons by (auto simp: flag_kept)
  qed
qed simp

end

lemma apply_verdict_simps [simp]:
  "observed (apply_verdict now v s) = v"
  "frozen (apply_verdict now v s) = frozen s"
  "applied (apply_verdict now v s) = (if frozen s then applied s else v)"
  "consecutive_successes (apply_verdict now v s) = consecutive_successes s"
  "consecutive_failures (apply_verdict now v s) = consecutive_failures s"
  "passive_consecutive_failures (apply_verdict now v s) = passive_consecutive_failures s"
  by (simp_all add: apply_verdict_def set_observed_def set_applied_def note_transition_def Let_def)

lemma set_applied_simps [simp]:
  "applied (set_applied now v s) = v" "observed (set_applied now v s) = observed s"
  "frozen (set_applied now v s) = frozen s"
  by (simp_all add: set_applied_def note_transition_def Let_def)

lemmas [health_defs] = record_success_def record_failure_def record_passive_failure_def
  record_passive_success_def update_ewma_def Let_def

interpretation backend_health: tracked_health "health_step fl hp" observed applied frozen for fl hp
proof
  show "frozen (health_step fl hp e s) = frozen s" for e s
    by (cases e) (simp_all add: health_defs)
  show "frozen s \<Longrightarrow> applied (health_step fl hp e s) = applied s" for e s
    by (cases e) (simp_all add: health_defs)
  show "\<not> frozen s \<Longrightarrow> applied (health_step fl hp e s) = observed (health_step fl hp e s) \<or>
      applied (health_step fl hp e s) = applied s \<and> observed (health_step fl hp e s) = observed s" for e s
    by (cases e) (simp_all add: health_defs)
qed

section \<open>Rise and fall\<close>

text \<open>Whether a sequence of events contains \<open>k\<close> probe successes with no probe
  failure among them, counting \<open>c\<close> that came before it.\<close>

fun rise_reached :: "nat \<Rightarrow> nat \<Rightarrow> health_event list \<Rightarrow> bool"
  where
    "rise_reached k c [] \<longleftrightarrow> False"
  | "rise_reached k c (ProbeSuccess now rtt # es) \<longleftrightarrow> k \<le> Suc c \<or> rise_reached k (Suc c) es"
  | "rise_reached k c (ProbeFailure now # es) \<longleftrightarrow> rise_reached k 0 es"
  | "rise_reached k c (_ # es) \<longleftrightarrow> rise_reached k c es"

fun is_probe_success :: "health_event \<Rightarrow> bool"
  where
    "is_probe_success (ProbeSuccess now rtt) \<longleftrightarrow> True"
  | "is_probe_success _ \<longleftrightarrow> False"

fun is_probe_failure :: "health_event \<Rightarrow> bool"
  where
    "is_probe_failure (ProbeFailure now) \<longleftrightarrow> True"
  | "is_probe_failure _ \<longleftrightarrow> False"

definition threshold :: "u32 \<Rightarrow> nat"
  where "threshold r = max 1 (unat r)"

lemma unat_sat_add_1: "unat (sat_add (c :: u32) 1) = min (unat c + 1) 4294967295"
proof (cases "unat c + 1 < 4294967296")
  case True
  then show ?thesis
    by (simp add: sat_add_def unat_word_ariths)
next
  case False
  then have "sat_add c 1 = - 1"
    by (simp add: sat_add_def)
  moreover have "unat (- 1 :: u32) = 4294967295"
    by (simp add: unsigned_minus_1_eq_mask mask_eq_exp_minus_1)
  ultimately show ?thesis
    using False by simp
qed

lemma threshold_le_iff:
  assumes "unat c = min n 4294967295"
  shows "max r 1 \<le> c \<longleftrightarrow> threshold r \<le> n"
proof -
  have "max r 1 \<le> c \<longleftrightarrow> threshold r \<le> unat c"
    by (auto simp: threshold_def max_def word_le_nat_alt)
  moreover have "threshold r \<le> 4294967295"
    using unat_u32_less [of r] by (simp add: threshold_def)
  ultimately show ?thesis
    using assms by (auto simp: min_def)
qed

lemma success_counter:
  "unat (consecutive_successes s) = min c 4294967295 \<Longrightarrow>
   unat (sat_add (consecutive_successes s) 1) = min (Suc c) 4294967295"
  by (simp add: unat_sat_add_1)

lemma up_needs_rise:
  assumes "observed s \<noteq> Up" "unat (consecutive_successes s) = min c 4294967295"
    and "observed (run_events (health_step fl hp) es s) = Up"
  shows "rise_reached (threshold (hp_rise hp)) c es"
  using assms
proof (induction es arbitrary: s c)
  case (Cons e es)
  show ?case
  proof (cases e)
    case (ProbeSuccess now rtt)
    note n = success_counter [OF Cons.prems(2)]
    have t: "max (hp_rise hp) 1 \<le> sat_add (consecutive_successes s) 1
        \<longleftrightarrow> threshold (hp_rise hp) \<le> Suc c"
      by (rule threshold_le_iff [OF n])
    show ?thesis
    proof (cases "threshold (hp_rise hp) \<le> Suc c")
      case False
      then show ?thesis
        using ProbeSuccess t n Cons.prems
          Cons.IH [of "health_step fl hp e s" "Suc c"] by (simp add: health_defs)
    qed (simp add: ProbeSuccess)
  next
    case (ProbeFailure now)
    then show ?thesis
      using Cons.prems Cons.IH [of "health_step fl hp e s" 0] by (simp add: health_defs split: if_splits)
  next
    case (LiveFailure now)
    then show ?thesis
      using Cons.prems Cons.IH [of "health_step fl hp e s" c] by (simp add: health_defs split: if_splits)
  next
    case LiveSuccess
    then show ?thesis
      using Cons.prems Cons.IH [of "health_step fl hp e s" c] by (simp add: health_defs)
  qed
qed simp

lemma run_successes:
  assumes "list_all is_probe_success es" "unat (consecutive_successes s) = min c 4294967295"
  shows "unat (consecutive_successes (run_events (health_step fl hp) es s)) = min (c + length es) 4294967295 \<and>
    (es \<noteq> [] \<longrightarrow> threshold (hp_rise hp) \<le> c + length es \<longrightarrow>
      observed (run_events (health_step fl hp) es s) = Up \<and>
      (\<not> frozen s \<longrightarrow> applied (run_events (health_step fl hp) es s) = Up))"
  using assms
proof (induction es arbitrary: s c)
  case (Cons e es)
  obtain now rtt where e: "e = ProbeSuccess now rtt"
    using Cons.prems(1) by (cases e) auto
  note n = success_counter [OF Cons.prems(2)]
  let ?s = "health_step fl hp e s"
  have c': "unat (consecutive_successes ?s) = min (Suc c) 4294967295"
    using n by (simp add: e health_defs)
  have up: "threshold (hp_rise hp) \<le> Suc c \<Longrightarrow> observed ?s = Up \<and> (\<not> frozen s \<longrightarrow> applied ?s = Up)"
    using threshold_le_iff [OF n, of "hp_rise hp"] by (simp add: e health_defs)
  show ?case
    using Cons.IH [OF _ c'] Cons.prems(1) up
    by (cases es) (auto simp: backend_health.flag_kept)
qed simp

lemma run_failures:
  assumes "list_all is_probe_failure es" "unat (consecutive_failures s) = min c 4294967295"
  shows "unat (consecutive_failures (run_events (health_step fl hp) es s)) = min (c + length es) 4294967295 \<and>
    (es \<noteq> [] \<longrightarrow> threshold (hp_fall hp) \<le> c + length es \<longrightarrow>
      observed (run_events (health_step fl hp) es s) = Down \<and>
      (\<not> frozen s \<longrightarrow> applied (run_events (health_step fl hp) es s) = Down))"
  using assms
proof (induction es arbitrary: s c)
  case (Cons e es)
  obtain now where e: "e = ProbeFailure now"
    using Cons.prems(1) by (cases e) auto
  have n: "unat (sat_add (consecutive_failures s) 1) = min (Suc c) 4294967295"
    using Cons.prems(2) by (simp add: unat_sat_add_1)
  let ?s = "health_step fl hp e s"
  have c': "unat (consecutive_failures ?s) = min (Suc c) 4294967295"
    using n by (simp add: e health_defs)
  have dn: "threshold (hp_fall hp) \<le> Suc c \<Longrightarrow> observed ?s = Down \<and> (\<not> frozen s \<longrightarrow> applied ?s = Down)"
    using threshold_le_iff [OF n, of "hp_fall hp"] by (simp add: e health_defs)
  show ?case
    using Cons.IH [OF _ c'] Cons.prems(1) dn
    by (cases es) (auto simp: backend_health.flag_kept)
qed simp

lemma counter_min: "unat (c :: u32) = min (unat c) 4294967295"
  using unat_u32_less [of c] by simp

section \<open>Reconciliation and controls\<close>

definition entry_key :: "string \<times> compiled_pool_health \<times> compiled_backend_health \<Rightarrow> backend_key"
  where "entry_key e = (case e of (n, p, b) \<Rightarrow> (n, cbh_address b))"

lemma foldl_upd_notin:
  "k \<notin> key ` set xs \<Longrightarrow> foldl (\<lambda>t x. t(key x \<mapsto> val x)) m xs k = m k"
  by (induction xs arbitrary: m) auto

lemma foldl_upd_distinct:
  "distinct (map key xs) \<Longrightarrow> x \<in> set xs \<Longrightarrow>
   foldl (\<lambda>t x. t(key x \<mapsto> val x)) m xs (key x) = Some (val x)"
  by (induction xs arbitrary: m) (auto simp: foldl_upd_notin)

lemma reconcile_fold:
  "hr_table (reconcile prev new r) =
    foldl (\<lambda>t e. t(entry_key e \<mapsto> (case e of (n, p, b) \<Rightarrow> reconciled_state prev (hr_table r) n p b)))
      Map.empty (compiled_keys new)"
  by (simp add: reconcile_def entry_key_def case_prod_unfold)

lemma reconcile_lookup:
  assumes "distinct (map entry_key (compiled_keys new))" "(n, p, b) \<in> set (compiled_keys new)"
  shows "hr_table (reconcile prev new r) (n, cbh_address b) =
    Some (reconciled_state prev (hr_table r) n p b)"
proof -
  have k: "(n, cbh_address b) = entry_key (n, p, b)"
    by (simp add: entry_key_def)
  show ?thesis
    unfolding reconcile_fold k by (subst foldl_upd_distinct [OF assms]) simp
qed

lemma reconcile_gone:
  "k \<notin> entry_key ` set (compiled_keys new) \<Longrightarrow> hr_table (reconcile prev new r) k = None"
  by (simp add: reconcile_fold foldl_upd_notin)

lemma reconcile_scopes [simp]: "hr_scopes (reconcile prev new r) = hr_scopes r"
  by (simp add: reconcile_def)

lemma sync_one_simps [simp]:
  "hr_scopes (sync_one pool addr r) = hr_scopes r"
  "resolve_scope (sync_one pool addr r) p a = resolve_scope r p a"
  by (simp_all add: sync_one_def update_state_def resolve_scope_def)

lemma resolve_scope_table [simp]: "resolve_scope (r\<lparr>hr_table := t\<rparr>) p a = resolve_scope r p a"
  by (simp add: resolve_scope_def)

lemma control_backend_scopes [simp]:
  "hr_scopes (snd (control_backend now scope action key acc)) = hr_scopes (snd acc)"
  by (cases acc; cases key) (simp add: control_backend_def Let_def split: option.splits)

lemma control_backend_other:
  "k \<noteq> key \<Longrightarrow> hr_table (snd (control_backend now scope action key acc)) k = hr_table (snd acc) k"
  by (cases acc; cases key)
     (simp add: control_backend_def Let_def sync_one_def update_state_def split: option.splits)

lemma control_backend_at:
  assumes "hr_table r (pool, addr) = Some s"
  shows "hr_table (snd (control_backend now scope action (pool, addr) (outs, r))) (pool, addr) =
    Some ((case action of
        ActFreeze \<Rightarrow> s
      | ActSetUp \<Rightarrow> set_applied now Up s
      | ActSetDown \<Rightarrow> set_applied now Down s
      | ActResumeAutomatic \<Rightarrow> if resolve_scope r pool addr = EffAutomatic
          then set_applied now (observed s) s else s)\<lparr>frozen := (resolve_scope r pool addr = EffFrozen)\<rparr>)"
  using assms
  by (cases action) (auto simp: control_backend_def Let_def sync_one_def update_state_def
      is_effectively_frozen_def)

lemma control_fold_scopes [simp]:
  "hr_scopes (snd (foldl (\<lambda>acc key. control_backend now scope action key acc) acc ks)) = hr_scopes (snd acc)"
  by (induction ks arbitrary: acc) simp_all

text \<open>A backend whose resolved scope stays frozen keeps its \<open>applied\<close> health under
  any control that does not set it.\<close>

lemma control_fold_frozen_applied:
  assumes "action = ActFreeze \<or> action = ActResumeAutomatic"
    and "resolve (hr_scopes (snd acc)) pool (pool, addr) = EffFrozen"
    and "hr_table (snd acc) (pool, addr) = Some s"
  shows "\<exists>s'. hr_table (snd (foldl (\<lambda>acc key. control_backend now scope action key acc) acc ks)) (pool, addr)
      = Some s' \<and> applied s' = applied s \<and> observed s' = observed s \<and> (frozen s \<longrightarrow> frozen s')"
  using assms
proof (induction ks arbitrary: acc s)
  case (Cons k ks)
  obtain outs r where acc: "acc = (outs, r)"
    by fastforce
  let ?acc = "control_backend now scope action k acc"
  have sc: "resolve (hr_scopes (snd ?acc)) pool (pool, addr) = EffFrozen"
    using Cons.prems(2) by simp
  obtain s1 where s1: "hr_table (snd ?acc) (pool, addr) = Some s1" "applied s1 = applied s"
      "observed s1 = observed s" "frozen s \<longrightarrow> frozen s1"
  proof (cases "k = (pool, addr)")
    case True
    have "resolve_scope r pool addr = EffFrozen"
      using Cons.prems(2) by (simp add: acc resolve_scope_def)
    then show thesis
      using that Cons.prems(1,3) control_backend_at [of r pool addr s now scope action outs]
      by (auto simp: True acc)
  next
    case False
    then show thesis
      using that Cons.prems(3) control_backend_other [of "(pool, addr)" k now scope action acc] by auto
  qed
  then show ?case
    using Cons.IH [OF Cons.prems(1) sc s1(1)] by auto
qed auto

section \<open>Properties of backend health\<close>

text \<open>C14: a backend that is not observed up becomes so only through as many probe
  successes as the rise threshold (at least one) with no probe failure among
  them, counting those already seen; live traffic alone never brings it back.
  Conversely that many consecutive successes do bring it up, and as many
  consecutive probe failures as the fall threshold take it down; \<open>applied\<close>
  follows unless it is frozen.\<close>

theorem health_rise_and_fall:
  fixes fl :: "real \<Rightarrow> real"
  shows "(observed s \<noteq> Up \<longrightarrow> observed (run_events (health_step fl hp) es s) = Up \<longrightarrow>
      rise_reached (max 1 (unat (hp_rise hp))) (unat (consecutive_successes s)) es) \<and>
    (list_all is_probe_success es \<longrightarrow> max 1 (unat (hp_rise hp)) \<le> length es \<longrightarrow>
      observed (run_events (health_step fl hp) es s) = Up \<and>
      (\<not> frozen s \<longrightarrow> applied (run_events (health_step fl hp) es s) = Up)) \<and>
    (list_all is_probe_failure es \<longrightarrow> max 1 (unat (hp_fall hp)) \<le> length es \<longrightarrow>
      observed (run_events (health_step fl hp) es s) = Down \<and>
      (\<not> frozen s \<longrightarrow> applied (run_events (health_step fl hp) es s) = Down))"
  using up_needs_rise [OF _ counter_min, where s = s and fl = fl and hp = hp and es = es]
    run_successes [OF _ counter_min, where s = s and fl = fl and hp = hp and es = es] run_failures [OF _ counter_min, where s = s and fl = fl and hp = hp and es = es]
  by (cases es) (auto simp: threshold_def)

theorem health_rise_and_fall_witness:
  "observed (run_events (health_step (\<lambda>x. x) \<lparr>hp_rise = 2, hp_fall = 1, hp_passive_fall = 1, hp_alpha = 1 / 5\<rparr>)
      [ProbeSuccess 5 10, ProbeSuccess 6 12] (from_initial_policy RequireFullRise)) = Up \<and>
   observed (run_events (health_step (\<lambda>x. x) \<lparr>hp_rise = 2, hp_fall = 1, hp_passive_fall = 1, hp_alpha = 1 / 5\<rparr>)
      [LiveSuccess, ProbeSuccess 5 10, LiveSuccess] (from_initial_policy RequireFullRise)) \<noteq> Up"
  using health_rise_and_fall [where s = "from_initial_policy RequireFullRise" and fl = "\<lambda>x. x" and
      hp = "\<lparr>hp_rise = 2, hp_fall = 1, hp_passive_fall = 1, hp_alpha = 1 / 5\<rparr>" and
      es = "[ProbeSuccess 5 10, ProbeSuccess 6 12]"]
    health_rise_and_fall [where s = "from_initial_policy RequireFullRise" and fl = "\<lambda>x. x" and
      hp = "\<lparr>hp_rise = 2, hp_fall = 1, hp_passive_fall = 1, hp_alpha = 1 / 5\<rparr>" and
      es = "[LiveSuccess, ProbeSuccess 5 10, LiveSuccess]"]
  by (auto simp: from_initial_policy_def)

text \<open>C24: whatever probes and live traffic report, a frozen backend keeps its
  \<open>applied\<close> health while \<open>observed\<close> moves on; and of a backend that is not
  frozen, \<open>applied\<close> equals \<open>observed\<close> as soon as \<open>observed\<close> has moved at all, and
  from then on.\<close>

theorem health_applied_tracks_observed:
  fixes fl :: "real \<Rightarrow> real"
  shows "(frozen s \<longrightarrow> applied (run_events (health_step fl hp) es s) = applied s) \<and>
    (\<not> frozen s \<longrightarrow>
      observed (run_events (health_step fl hp) es s) \<noteq> observed s \<or> applied s = observed s \<longrightarrow>
      applied (run_events (health_step fl hp) es s) = observed (run_events (health_step fl hp) es s))"
  using backend_health.run_holds [where s = s and fl = fl and hp = hp and es = es] backend_health.run_tracks [where s = s and fl = fl and hp = hp and es = es]
    backend_health.run_follows [where s = s and fl = fl and hp = hp and es = es] by blast

theorem health_applied_tracks_observed_witness:
  "applied (run_events (health_step (\<lambda>x. x) \<lparr>hp_rise = 1, hp_fall = 1, hp_passive_fall = 1, hp_alpha = 1\<rparr>)
      [ProbeSuccess 5 10] (set_down 3 (from_initial_policy Optimistic))) = Down"
  using health_applied_tracks_observed [where s = "set_down 3 (from_initial_policy Optimistic)" and fl = "\<lambda>x. x" and
      hp = "\<lparr>hp_rise = 1, hp_fall = 1, hp_passive_fall = 1, hp_alpha = 1\<rparr>" and
      es = "[ProbeSuccess 5 10]"]
  by (simp add: set_down_def freeze_def)

subsection \<open>Reloads among probes and traffic\<close>

text \<open>What happens to the table over time: an event of one backend, under the thresholds in force, and
  a reload with a new compiled configuration.\<close>

datatype health_op = BackendEvent backend_key health_params health_event | Reload compiled_health

fun exec_health_op ::
  "(real \<Rightarrow> real) \<Rightarrow> health_op \<Rightarrow> compiled_health \<times> health_registry \<Rightarrow> compiled_health \<times> health_registry"
  where
    "exec_health_op fl (BackendEvent key hp e) (ch, r) = (ch, update_state key (health_step fl hp e) r)"
  | "exec_health_op fl (Reload new) (ch, r) = (new, reconcile ch new r)"

text \<open>The same history for one backend, without the reloads and the events of the others.\<close>

fun own_events :: "(real \<Rightarrow> real) \<Rightarrow> backend_key \<Rightarrow> health_op list \<Rightarrow> backend_health_state \<Rightarrow> backend_health_state"
  where
    "own_events fl key [] s = s"
  | "own_events fl key (BackendEvent k hp e # ops) s =
      own_events fl key ops (if k = key then health_step fl hp e s else s)"
  | "own_events fl key (Reload new # ops) s = own_events fl key ops s"

text \<open>Whether every reload keeps the backend, with the probe query and source it had before.\<close>

definition same_probe :: "backend_key \<Rightarrow> compiled_health \<Rightarrow> compiled_health \<Rightarrow> bool"
  where "same_probe key prev new \<longleftrightarrow> distinct (map entry_key (compiled_keys new)) \<and>
    (\<exists>p b pp b'. (fst key, p, b) \<in> set (compiled_keys new) \<and> cbh_address b = snd key \<and>
      health_pool prev (fst key) = Some pp \<and>
      find (\<lambda>x. cbh_address x = snd key) (cph_backends pp) = Some b' \<and> probe_semantics_eq b' b)"

fun reloads_keep :: "backend_key \<Rightarrow> compiled_health \<Rightarrow> health_op list \<Rightarrow> bool"
  where
    "reloads_keep key ch [] \<longleftrightarrow> True"
  | "reloads_keep key ch (BackendEvent k hp e # ops) \<longleftrightarrow> reloads_keep key ch ops"
  | "reloads_keep key ch (Reload new # ops) \<longleftrightarrow> same_probe key ch new \<and> reloads_keep key new ops"

lemma reconcile_same_probe:
  assumes "same_probe key prev new" "hr_table r key = Some s"
  shows "hr_table (reconcile prev new r) key = Some s"
proof -
  obtain p b pp b' where b: "(fst key, p, b) \<in> set (compiled_keys new)" "cbh_address b = snd key"
      "health_pool prev (fst key) = Some pp" "find (\<lambda>x. cbh_address x = snd key) (cph_backends pp) = Some b'"
      "probe_semantics_eq b' b" and dist: "distinct (map entry_key (compiled_keys new))"
    using assms(1) by (auto simp: same_probe_def)
  have "hr_table (reconcile prev new r) (fst key, cbh_address b) = Some (reconciled_state prev (hr_table r) (fst key) p b)"
    by (rule reconcile_lookup [OF dist b(1)])
  then show ?thesis
    using b assms(2) by (simp add: reconciled_state_def)
qed

lemma run_own_events:
  assumes "hr_table r key = Some s" "reloads_keep key ch ops"
  shows "hr_table (snd (fold (exec_health_op fl) ops (ch, r))) key = Some (own_events fl key ops s)"
  using assms
proof (induction fl key ops s arbitrary: ch r rule: own_events.induct)
  case (3 fl key new ops s)
  then show ?case
    using reconcile_same_probe [of key ch new r s] by simp
qed (auto simp: update_state_def)

lemma own_events_holds:
  "frozen s \<Longrightarrow> frozen (own_events fl key ops s) \<and> applied (own_events fl key ops s) = applied s"
  by (induction fl key ops s rule: own_events.induct) (auto simp: backend_health.flag_kept backend_health.holds)

lemma run_scopes: "hr_scopes (snd (fold (exec_health_op fl) ops (ch, r))) = hr_scopes r"
proof (induction ops arbitrary: ch r)
  case (Cons op ops)
  then show ?case
    by (cases op) (simp_all add: update_state_def)
qed simp

text \<open>C30: reloads do not touch the health of a backend that stays.  Through any sequence of probe and
  traffic events, of any backend, and of reloads that keep a backend with its probe query and source,
  the backend ends in the state its own events alone would have given it, counters and latency
  included; the operator scopes stay; and if it is frozen, as by a drain, \<open>applied\<close> never moves.\<close>

theorem reloads_keep_health:
  assumes "hr_table r key = Some s" and "reloads_keep key ch ops"
    and "fold (exec_health_op fl) ops (ch, r) = (ch', r')"
  shows "hr_table r' key = Some (own_events fl key ops s) \<and> hr_scopes r' = hr_scopes r \<and>
    (frozen s \<longrightarrow> (\<exists>s'. hr_table r' key = Some s' \<and> frozen s' \<and> applied s' = applied s))"
  using run_own_events [OF assms(1,2), of fl] run_scopes [of fl ops ch r] own_events_holds [of s fl key ops] assms(3)
  by auto

definition example_backend :: compiled_backend_health
  where "example_backend = \<lparr>cbh_address = SocketV4 0x01020304 53, cbh_name = None, cbh_label = ''a'',
    cbh_probe_qname = ''.'', cbh_probe_qtype = 2, cbh_probe_source = None\<rparr>"

definition example_pool :: compiled_pool_health
  where "example_pool = \<lparr>cph_interval_ms = 1000, cph_timeout_ms = 1000, cph_rise = 3, cph_fall = 2,
    cph_acceptable_rcodes = None, cph_initial_state = Optimistic, cph_latency_weighting = False,
    cph_latency_ewma_alpha = 1 / 5, cph_latency_floor = 1 / 4, cph_min_eligible = 0,
    cph_passive_fast_trip = True, cph_passive_fall = 2, cph_backends = [example_backend]\<rparr>"

text \<open>A drained backend in a pool of two: the pool is reloaded with other thresholds, the probes
  succeed, the pool is reloaded again.\<close>

definition other_backend :: compiled_backend_health
  where "other_backend = example_backend\<lparr>cbh_address := SocketV4 0x01020305 53\<rparr>"

definition reloaded_pool :: compiled_pool_health
  where "reloaded_pool = example_pool\<lparr>cph_rise := 1, cph_backends := [other_backend, example_backend]\<rparr>"

lemma example_same_probe:
  "same_probe (''p'', SocketV4 0x01020304 53) [(''p'', example_pool)] [(''p'', reloaded_pool)]"
  "same_probe (''p'', SocketV4 0x01020304 53) [(''p'', reloaded_pool)] [(''p'', example_pool)]"
proof -
  note defs = same_probe_def compiled_keys_def entry_key_def health_pool_def reloaded_pool_def example_pool_def
    other_backend_def example_backend_def probe_semantics_eq_def
  show "same_probe (''p'', SocketV4 0x01020304 53) [(''p'', example_pool)] [(''p'', reloaded_pool)]"
    unfolding same_probe_def
    by (intro conjI exI [of _ reloaded_pool] exI [of _ example_backend] exI [of _ example_pool]) (simp_all add: defs)
  show "same_probe (''p'', SocketV4 0x01020304 53) [(''p'', reloaded_pool)] [(''p'', example_pool)]"
    unfolding same_probe_def
    by (intro conjI exI [of _ example_pool] exI [of _ example_backend] exI [of _ reloaded_pool]) (simp_all add: defs)
qed

theorem reloads_keep_health_witness:
  "\<exists>s'. hr_table (snd (fold (exec_health_op (\<lambda>x. x))
        [Reload [(''p'', reloaded_pool)],
         BackendEvent (''p'', SocketV4 0x01020304 53) \<lparr>hp_rise = 1, hp_fall = 1, hp_passive_fall = 1, hp_alpha = 1\<rparr> (ProbeSuccess 5 10),
         Reload [(''p'', example_pool)]]
        ([(''p'', example_pool)],
         \<lparr>hr_table = [(''p'', SocketV4 0x01020304 53) \<mapsto> set_down 3 (from_initial_policy Optimistic)], hr_scopes = scopes_default\<rparr>)))
      (''p'', SocketV4 0x01020304 53) = Some s' \<and> frozen s' \<and> applied s' = Down"
proof -
  let ?ops = "[Reload [(''p'', reloaded_pool)],
         BackendEvent (''p'', SocketV4 0x01020304 53) \<lparr>hp_rise = 1, hp_fall = 1, hp_passive_fall = 1, hp_alpha = 1\<rparr> (ProbeSuccess 5 10),
         Reload [(''p'', example_pool)]]"
  let ?key = "(''p'', SocketV4 0x01020304 53)"
  have keep: "reloads_keep ?key [(''p'', example_pool)] ?ops"
    by (simp add: example_same_probe)
  let ?s = "set_down 3 (from_initial_policy Optimistic)"
  let ?r = "\<lparr>hr_table = [?key \<mapsto> ?s], hr_scopes = scopes_default\<rparr>"
  have down: "frozen ?s" "applied ?s = Down"
    by (simp_all add: set_down_def freeze_def)
  obtain ch' r' where run: "fold (exec_health_op (\<lambda>x. x)) ?ops ([(''p'', example_pool)], ?r) = (ch', r')"
    by fastforce
  have "hr_table ?r ?key = Some ?s"
    by simp
  from reloads_keep_health [OF this keep run] show ?thesis
    unfolding run snd_conv using down by auto
qed

text \<open>Draining a backend (\<open>set down\<close> at backend scope) takes it out of rotation
  whatever the probes report afterwards, and \<open>resume\<close> at the same scope puts
  \<open>applied\<close> to what the probes observed meanwhile and returns it to automatic.\<close>

theorem drain_and_resume:
  fixes fl :: "real \<Rightarrow> real"
  assumes "validate_scope (ScBackend pool addr) ch = Ok ()"
    and "hr_table r (pool, addr) = Some s"
    and "r1 = snd (set_health_control now ch (ScBackend pool addr) ActSetDown r)"
    and "r2 = update_state (pool, addr) (run_events (health_step fl hp) es) r1"
    and "r3 = snd (set_health_control now' ch (ScBackend pool addr) ActResumeAutomatic r2)"
  shows "\<exists>s2 s3. hr_table r2 (pool, addr) = Some s2 \<and> applied s2 = Down \<and>
    hr_table r3 (pool, addr) = Some s3 \<and> applied s3 = observed s2 \<and> \<not> frozen s3 \<and>
    resolve_scope r1 pool addr = EffFrozen \<and> resolve_scope r3 pool addr = EffAutomatic"
proof -
  have scope: "resolve_scope r1 pool addr = EffFrozen"
    using assms(1) by (simp add: assms(3) set_health_control_def backends_in_scope_def Let_def
        resolve_scope_def resolve_def u8_to_scope_def case_prod_unfold)
  obtain s1 where s1: "hr_table r1 (pool, addr) = Some s1" "applied s1 = Down" "frozen s1"
    using assms(1,2)
    by (simp add: assms(3) set_health_control_def backends_in_scope_def Let_def case_prod_unfold
        control_backend_at resolve_scope_def resolve_def u8_to_scope_def)
  let ?s2 = "run_events (health_step fl hp) es s1"
  have s2: "hr_table r2 (pool, addr) = Some ?s2" "applied ?s2 = Down"
    using s1 backend_health.run_holds [where s = s1 and fl = fl and hp = hp and es = es] by (simp_all add: assms(4) update_state_def)
  have "\<exists>s3. hr_table r3 (pool, addr) = Some s3 \<and> applied s3 = observed ?s2 \<and> \<not> frozen s3"
    using assms(1) s2
    by (simp add: assms(5) set_health_control_def backends_in_scope_def Let_def case_prod_unfold
        control_backend_at resolve_scope_def resolve_def u8_to_scope_def)
  moreover have "resolve_scope r3 pool addr = EffAutomatic"
    using assms(1) by (simp add: assms(5) set_health_control_def backends_in_scope_def Let_def
        resolve_scope_def resolve_def u8_to_scope_def case_prod_unfold)
  ultimately show ?thesis
    using s2 scope by blast
qed

theorem drain_and_resume_witness:
  "\<exists>s3. hr_table (snd (set_health_control 9 [(''p'', example_pool)]
      (ScBackend ''p'' (cbh_address example_backend)) ActResumeAutomatic
      (update_state (''p'', cbh_address example_backend)
        (run_events (health_step (\<lambda>x. x) \<lparr>hp_rise = 1, hp_fall = 1, hp_passive_fall = 1, hp_alpha = 1\<rparr>)
          [ProbeSuccess 5 10])
        (snd (set_health_control 2 [(''p'', example_pool)]
          (ScBackend ''p'' (cbh_address example_backend)) ActSetDown
          (registry_from_compiled [(''p'', example_pool)]))))))
      (''p'', cbh_address example_backend) = Some s3 \<and> \<not> frozen s3"
  using drain_and_resume [OF _ _ refl refl refl, where pool = "''p''" and
      addr = "cbh_address example_backend" and ch = "[(''p'', example_pool)]" and
      r = "registry_from_compiled [(''p'', example_pool)]" and s = "from_initial_policy Optimistic" and
      fl = "\<lambda>x. x" and hp = "\<lparr>hp_rise = 1, hp_fall = 1, hp_passive_fall = 1, hp_alpha = 1\<rparr>" and
      es = "[ProbeSuccess 5 10]" and now = 2 and now' = 9]
  by (auto simp: validate_scope_def health_pool_def example_pool_def registry_from_compiled_def
      compiled_keys_def)

text \<open>Most specific wins: a global resume leaves a backend that is frozen at its
  own scope exactly as drained as it was; neither its \<open>applied\<close> health nor its
  frozen flag moves.\<close>

theorem global_resume_keeps_drained:
  assumes "sc_backends (hr_scopes r) (pool, addr) = Some 1"
    and "hr_table r (pool, addr) = Some s" and "frozen s"
  shows "\<exists>s'. hr_table (snd (set_health_control now ch ScGlobal ActResumeAutomatic r)) (pool, addr) = Some s'
    \<and> applied s' = applied s \<and> observed s' = observed s \<and> frozen s'"
proof -
  let ?r0 = "r\<lparr>hr_scopes := set_level ScGlobal ScopeAutomatic (hr_scopes r)\<rparr>"
  have "resolve (hr_scopes (snd (([] :: health_control_outcome list), ?r0))) pool (pool, addr) = EffFrozen"
    using assms(1) by (simp add: resolve_def u8_to_scope_def)
  from control_fold_frozen_applied [OF disjI2 [OF refl] this, of s now ScGlobal
      "backends_in_scope ScGlobal ch"]
  show ?thesis
    using assms by (auto simp: set_health_control_def validate_scope_def Let_def case_prod_unfold)
qed

theorem global_resume_keeps_drained_witness:
  "\<exists>s'. hr_table (snd (set_health_control 7 [(''p'', example_pool)] ScGlobal ActResumeAutomatic
      \<lparr>hr_table = [(''p'', cbh_address example_backend) \<mapsto> set_down 3 (from_initial_policy Optimistic)],
       hr_scopes = \<lparr>sc_global = 1, sc_pools = Map.empty,
         sc_backends = [(''p'', cbh_address example_backend) \<mapsto> 1]\<rparr>\<rparr>))
      (''p'', cbh_address example_backend) = Some s' \<and> applied s' = Down"
  using global_resume_keeps_drained [of "\<lparr>hr_table = [(''p'', cbh_address example_backend) \<mapsto>
        set_down 3 (from_initial_policy Optimistic)],
       hr_scopes = \<lparr>sc_global = 1, sc_pools = Map.empty,
         sc_backends = [(''p'', cbh_address example_backend) \<mapsto> 1]\<rparr>\<rparr>" "''p''"
      "cbh_address example_backend" "set_down 3 (from_initial_policy Optimistic)" 7 "[(''p'', example_pool)]"]
  by (auto simp: set_down_def freeze_def)

text \<open>The initial policy \<open>require_1_good\<close> does not do what it is documented to
  do (eligible after one successful probe): it is the same as
  \<open>require_full_rise\<close>, so with a rise of more than one a single successful probe
  leaves the backend ineligible.\<close>

theorem require_1_good_needs_full_rise:
  fixes fl :: "real \<Rightarrow> real"
  shows "from_initial_policy Require1Good = from_initial_policy RequireFullRise \<and>
    (1 < rise \<longrightarrow> applied (record_success fl now rise alpha rtt (from_initial_policy Require1Good)) = Down)"
  by (auto simp: from_initial_policy_def health_defs sat_add_def max_def)

theorem require_1_good_needs_full_rise_witness:
  "applied (record_success (\<lambda>x. x) 4 3 (1 / 5) 20 (from_initial_policy Require1Good)) = Down"
  using require_1_good_needs_full_rise [THEN conjunct2, of 3 "\<lambda>x. x" 4 "1 / 5" 20] by simp

text \<open>A backend that a reload adds to a scope the operator has frozen is
  eligible at once (its pool's initial policy being the default), and because
  its own flag is not set, probe failures still move its \<open>applied\<close> health,
  although its resolved scope is frozen; the documentation says it is not
  eligible until it is set up or resumed.\<close>

theorem new_backend_ignores_frozen_scope:
  fixes fl :: "real \<Rightarrow> real"
  assumes "distinct (map entry_key (compiled_keys new))" and "(n, p, b) \<in> set (compiled_keys new)"
    and "cph_initial_state p = Optimistic" and "hr_table r (n, cbh_address b) = None"
    and "resolve_scope r n (cbh_address b) = EffFrozen"
  shows "\<exists>s. hr_table (reconcile prev new r) (n, cbh_address b) = Some s \<and> applied s = Up \<and>
    resolve_scope (reconcile prev new r) n (cbh_address b) = EffFrozen \<and>
    (list_all is_probe_failure es \<longrightarrow> max 1 (unat (hp_fall hp)) \<le> length es \<longrightarrow>
      applied (run_events (health_step fl hp) es s) = Down)"
proof -
  let ?s = "from_initial_policy Optimistic"
  have "hr_table (reconcile prev new r) (n, cbh_address b) = Some ?s"
    using reconcile_lookup [OF assms(1,2), of prev r] assms(3,4)
    by (simp add: reconciled_state_def Let_def)
  moreover have "resolve_scope (reconcile prev new r) n (cbh_address b) = EffFrozen"
    using assms(5) by (simp add: resolve_scope_def)
  moreover have "list_all is_probe_failure es \<longrightarrow> max 1 (unat (hp_fall hp)) \<le> length es \<longrightarrow>
      applied (run_events (health_step fl hp) es ?s) = Down"
    using run_failures [OF _ counter_min, where s = ?s and fl = fl and hp = hp and es = es]
    by (cases es) (auto simp: threshold_def from_initial_policy_def)
  ultimately show ?thesis
    by (auto simp: from_initial_policy_def)
qed

theorem new_backend_ignores_frozen_scope_witness:
  "\<exists>s. hr_table (reconcile [] [(''p'', example_pool)]
      \<lparr>hr_table = Map.empty, hr_scopes = \<lparr>sc_global = 1, sc_pools = Map.empty, sc_backends = Map.empty\<rparr>\<rparr>)
      (''p'', cbh_address example_backend) = Some s \<and> applied s = Up"
  using new_backend_ignores_frozen_scope [where new = "[(''p'', example_pool)]" and n = "''p''" and
      p = example_pool and b = example_backend and prev = "[]" and fl = "\<lambda>x. x" and
      hp = "\<lparr>hp_rise = 3, hp_fall = 2, hp_passive_fall = 2, hp_alpha = 1 / 5\<rparr>" and
      es = "[ProbeFailure 1, ProbeFailure 2]" and
      r = "\<lparr>hr_table = Map.empty, hr_scopes = \<lparr>sc_global = 1, sc_pools = Map.empty, sc_backends = Map.empty\<rparr>\<rparr>"]
  by (auto simp: compiled_keys_def example_pool_def entry_key_def resolve_scope_def resolve_def
      u8_to_scope_def)

end
