(* ===== verification/Routing.thy ===== *)
theory Routing
  imports Transaction Health
begin

text \<open>
  Backend selection of \<open>crates/conduit-core/src/routing.rs\<close> and the Route stage
  (\<open>stages/route.rs\<close>): candidates of a pool, the eligibility filter with its
  fail-open floor, latency-scaled weights, and the deterministic weighted pick
  by transaction id and snapshot generation.

  Weights are added in 64-bit arithmetic that wraps; the properties assume that
  the total does not, which validated 32-bit weights reach only with more than
  four billion backends.  The rounding \<open>fl\<close> is that of theory \<open>Health\<close>.
\<close>

section \<open>Weights\<close>

definition resolve_backend_weight :: "backend_cfg \<Rightarrow> u32"
  where "resolve_backend_weight b = effective_backend_weight b"

text \<open>\<open>f64::round\<close>: halves away from zero; \<open>as i64\<close>: saturating.\<close>

definition round_half_away :: "real \<Rightarrow> int"
  where "round_half_away x = (if 0 \<le> x then \<lfloor>x + 1 / 2\<rfloor> else \<lceil>x - 1 / 2\<rceil>)"

definition saturate_i64 :: "int \<Rightarrow> int"
  where "saturate_i64 n = max (- (2 ^ 63)) (min (2 ^ 63 - 1) n)"

definition effective_weight :: "(real \<Rightarrow> real) \<Rightarrow> u32 \<Rightarrow> real \<Rightarrow> u64"
  where "effective_weight fl configured factor =
    of_int (max 1 (saturate_i64 (round_half_away (fl (real (unat configured) * factor)))))"

definition backend_eligible :: "health_table \<Rightarrow> string \<Rightarrow> socket_addr \<Rightarrow> bool"
  where "backend_eligible table pool addr =
    (case table (pool, addr) of Some s \<Rightarrow> applied s = Up | None \<Rightarrow> True)"

definition tried_backends_in_pool :: "attempt_record list \<Rightarrow> string \<Rightarrow> socket_addr list"
  where "tried_backends_in_pool as pname = map att_backend (filter (\<lambda>a. att_pool a = pname) as)"

section \<open>Selection\<close>

type_synonym candidate = "backend_cfg \<times> socket_addr"
type_synonym pool_health_view = "compiled_pool_health \<times> health_table"

definition candidates_of :: "u32 \<Rightarrow> socket_addr list \<Rightarrow> pool_cfg \<Rightarrow> candidate list"
  where "candidates_of attempt_no tried pool =
    List.map_filter (\<lambda>b. case parse_socket_addr (be_address b) of
        None \<Rightarrow> None
      | Some addr \<Rightarrow> if 0 < attempt_no \<and> addr \<in> set tried then None else Some (b, addr))
      (pool_backends pool)"

definition fails_open :: "compiled_pool_health \<Rightarrow> pool_cfg \<Rightarrow> candidate list \<Rightarrow> bool"
  where "fails_open cfg pool eligible \<longleftrightarrow>
    length (pool_backends pool) \<le> 1 \<or> length eligible < unat (max (cph_min_eligible cfg) 1)"

definition choose_backends ::
  "string \<Rightarrow> pool_cfg \<Rightarrow> candidate list \<Rightarrow> pool_health_view option \<Rightarrow> candidate list \<times> bool"
  where "choose_backends pname pool candidates health =
    (case health of
       Some (cfg, table) \<Rightarrow>
         (let eligible = filter (\<lambda>(b, addr). backend_eligible table pname addr) candidates in
          if fails_open cfg pool eligible then (candidates, False)
          else (eligible, cph_latency_weighting cfg))
     | None \<Rightarrow> (candidates, False))"

definition weight_of ::
  "(real \<Rightarrow> real) \<Rightarrow> string \<Rightarrow> pool_health_view option \<Rightarrow> bool \<Rightarrow> candidate \<Rightarrow> u64"
  where "weight_of fl pname health use_latency c =
    (case c of (b, addr) \<Rightarrow>
       let configured = resolve_backend_weight b in
       if use_latency then
         (case health of
            Some (cfg, table) \<Rightarrow>
              (case table (pname, addr) of
                 Some s \<Rightarrow> effective_weight fl configured (weight_factor s)
               | None \<Rightarrow> ucast configured)
          | None \<Rightarrow> ucast configured)
       else ucast configured)"

fun pick_loop :: "('c \<Rightarrow> u64) \<Rightarrow> u64 \<Rightarrow> u64 \<Rightarrow> 'c list \<Rightarrow> 'c option"
  where
    "pick_loop w pick acc [] = None"
  | "pick_loop w pick acc (c # cs) =
      (let acc' = acc + w c in if pick < acc' then Some c else pick_loop w pick acc' cs)"

definition select_backend ::
  "(real \<Rightarrow> real) \<Rightarrow> pool_cfg list \<Rightarrow> string \<Rightarrow> u64 \<Rightarrow> u64 \<Rightarrow> u32 \<Rightarrow> socket_addr list
    \<Rightarrow> pool_health_view option \<Rightarrow> (string \<times> socket_addr) option"
  where "select_backend fl pools pname tid generation attempt_no tried health =
    (case find (\<lambda>p. pool_name p = pname) pools of
       None \<Rightarrow> None
     | Some pool \<Rightarrow>
        if pool_backends pool = [] then None
        else let candidates = candidates_of attempt_no tried pool in
          if candidates = [] then None
          else let (chosen, use_latency) = choose_backends pname pool candidates health;
                   w = weight_of fl pname health use_latency;
                   total = foldl (\<lambda>acc c. acc + w c) 0 chosen in
            if total = 0 then None
            else let pick = (tid + generation) mod total in
              map_option (\<lambda>(b, addr). (pname, addr))
                (case pick_loop w pick 0 chosen of
                   Some c \<Rightarrow> Some c
                 | None \<Rightarrow> if chosen = [] then None else Some (last chosen)))"

definition scrape_weight ::
  "(real \<Rightarrow> real) \<Rightarrow> string \<Rightarrow> health_table \<Rightarrow> bool \<Rightarrow> bool \<Rightarrow> candidate \<Rightarrow> u64"
  where "scrape_weight fl pname table fail_open use_latency c =
    (case c of (b, addr) \<Rightarrow>
       let configured = resolve_backend_weight b in
       if fail_open then ucast configured
       else if \<not> backend_eligible table pname addr then 0
       else if use_latency then
         (case table (pname, addr) of
            Some s \<Rightarrow> effective_weight fl configured (weight_factor s)
          | None \<Rightarrow> ucast configured)
       else ucast configured)"

definition effective_weights_for_scrape ::
  "(real \<Rightarrow> real) \<Rightarrow> pool_cfg \<Rightarrow> compiled_pool_health \<Rightarrow> health_table \<Rightarrow> (socket_addr \<rightharpoonup> u64)"
  where "effective_weights_for_scrape fl pool cfg table =
    (let candidates = List.map_filter (\<lambda>b. map_option (\<lambda>a. (b, a)) (parse_socket_addr (be_address b)))
           (pool_backends pool) in
     if candidates = [] then Map.empty
     else
       let eligible = filter (\<lambda>(b, addr). backend_eligible table (pool_name pool) addr) candidates;
           fail_open = fails_open cfg pool eligible;
           use_latency = (\<not> fail_open \<and> cph_latency_weighting cfg) in
       foldl (\<lambda>m c. m(snd c \<mapsto> scrape_weight fl (pool_name pool) table fail_open use_latency c))
         Map.empty candidates)"

definition default_pool_name :: "config \<Rightarrow> string option"
  where "default_pool_name cfg =
    (case find (\<lambda>p. pool_name p = ''default'') (cfg_pools cfg) of
       Some p \<Rightarrow> Some (pool_name p)
     | None \<Rightarrow> (case cfg_pools cfg of p # _ \<Rightarrow> Some (pool_name p) | [] \<Rightarrow> None))"

definition backend_metric_label :: "backend_cfg \<Rightarrow> string"
  where "backend_metric_label b =
    (case be_name b of Some n \<Rightarrow> if n \<noteq> [] then n else be_address b | None \<Rightarrow> be_address b)"

fun find_label :: "socket_addr \<Rightarrow> backend_cfg list \<Rightarrow> string option"
  where
    "find_label addr [] = None"
  | "find_label addr (b # bs) =
      (if parse_socket_addr (be_address b) = Some addr then Some (backend_metric_label b)
       else find_label addr bs)"

definition backend_metric_label_for_addr :: "pool_cfg list \<Rightarrow> string \<Rightarrow> socket_addr \<Rightarrow> string"
  where "backend_metric_label_for_addr pools pname addr =
    (case find (\<lambda>p. pool_name p = pname) pools of
       Some pool \<Rightarrow>
         (case find_label addr (pool_backends pool) of
            Some l \<Rightarrow> l
          | None \<Rightarrow> show_socket_addr addr)
     | None \<Rightarrow> show_socket_addr addr)"

section \<open>The Route stage\<close>

definition route_pool :: "config \<Rightarrow> transaction \<Rightarrow> string option \<times> transaction"
  where "route_pool cfg t =
    (let (r, t') = (if 0 < attempt_count t then take_retry_pool t else (None, t));
         name = (case r of Some n \<Rightarrow> Some n | None \<Rightarrow> selected_pool t') in
     (case name of Some n \<Rightarrow> Some n | None \<Rightarrow> default_pool_name cfg, t'))"

definition route_handle ::
  "(real \<Rightarrow> real) \<Rightarrow> health_table option \<Rightarrow> config \<Rightarrow> compiled_health \<Rightarrow> u64 \<Rightarrow> transaction
    \<Rightarrow> stage_outcome \<times> transaction"
  where "route_handle fl health_tab cfg ch generation t =
    (case route_pool cfg t of
       (None, t1) \<Rightarrow> (Continue Send, set_rcode_name ''SERVFAIL'' t1)
     | (Some pname, t1) \<Rightarrow>
        (let view = (case (health_tab, health_pool ch pname) of
               (Some table, Some c) \<Rightarrow> Some (c, table)
             | _ \<Rightarrow> None);
             tried = tried_backends_in_pool (attempts t1) pname in
         case select_backend fl (cfg_pools cfg) pname (txn_id t1) generation (attempt_count t1) tried view of
           None \<Rightarrow> (Continue Send, set_rcode_name ''SERVFAIL'' t1)
         | Some (pool, backend) \<Rightarrow>
            (Continue Forward,
             record_attempt pool backend
               (backend_metric_label_for_addr (cfg_pools cfg) pool backend) t1)))"

section \<open>The weighted pick against a reference\<close>

text \<open>The pick on natural numbers: the candidate whose interval of the cumulated
  weights contains the number.\<close>

fun nat_pick :: "('c \<Rightarrow> nat) \<Rightarrow> nat \<Rightarrow> 'c list \<Rightarrow> 'c option"
  where
    "nat_pick W n [] = None"
  | "nat_pick W n (c # cs) = (if n < W c then Some c else nat_pick W (n - W c) cs)"

definition total_weight :: "('c \<Rightarrow> u64) \<Rightarrow> 'c list \<Rightarrow> nat"
  where "total_weight w cs = sum_list (map (\<lambda>c. unat (w c)) cs)"

lemma total_weight_simps [simp]:
  "total_weight w [] = 0" "total_weight w (c # cs) = unat (w c) + total_weight w cs"
  by (simp_all add: total_weight_def)

lemma foldl_weights:
  "unat a + total_weight w cs < 2 ^ 64 \<Longrightarrow>
   unat (foldl (\<lambda>acc c. acc + w c) a cs) = unat a + total_weight w cs"
proof (induction cs arbitrary: a)
  case (Cons c cs)
  have "unat (a + w c) = unat a + unat (w c)"
    using Cons.prems by (simp add: unat_word_ariths)
  then show ?case
    using Cons.IH [of "a + w c"] Cons.prems by simp
qed simp

lemma pick_loop_nat:
  "unat acc + total_weight w cs < 2 ^ 64 \<Longrightarrow> acc \<le> pick \<Longrightarrow>
   pick_loop w pick acc cs = nat_pick (\<lambda>c. unat (w c)) (unat pick - unat acc) cs"
proof (induction cs arbitrary: acc)
  case (Cons c cs)
  have e: "unat (acc + w c) = unat acc + unat (w c)"
    using Cons.prems by (simp add: unat_word_ariths)
  have lt: "pick < acc + w c \<longleftrightarrow> unat pick - unat acc < unat (w c)"
    using Cons.prems(2) e by (auto simp: word_less_nat_alt word_le_nat_alt)
  show ?case
  proof (cases "pick < acc + w c")
    case False
    have "pick_loop w pick (acc + w c) cs =
        nat_pick (\<lambda>c. unat (w c)) (unat pick - unat acc - unat (w c)) cs"
      using Cons.IH [of "acc + w c"] Cons.prems(1) e False by simp
    then show ?thesis
      using False lt by (simp add: Let_def)
  qed (simp add: lt Let_def)
qed simp

lemma nat_pick_Some: "n < sum_list (map W cs) \<Longrightarrow> \<exists>c \<in> set cs. nat_pick W n cs = Some c \<and> 0 < W c"
  by (induction cs arbitrary: n) auto

lemma nat_pick_count:
  "card {n. n < sum_list (map W cs) \<and> (\<exists>c. nat_pick W n cs = Some c \<and> P c)} =
   sum_list (map W (filter P cs))"
proof (induction cs)
  case (Cons c cs)
  let ?S = "sum_list (map W cs)"
  let ?B = "{n. n < ?S \<and> (\<exists>d. nat_pick W n cs = Some d \<and> P d)}"
  have split: "{n. n < sum_list (map W (c # cs)) \<and> (\<exists>d. nat_pick W n (c # cs) = Some d \<and> P d)} =
      (if P c then {0..<W c} else {}) \<union> (\<lambda>n. n + W c) ` ?B" (is "?L = ?R")
  proof (rule set_eqI)
    fix n
    show "n \<in> ?L \<longleftrightarrow> n \<in> ?R"
    proof (cases "n < W c")
      case True
      then show ?thesis
        by (auto simp: image_iff)
    next
      case False
      then have "n - W c + W c = n"
        by simp
      then show ?thesis
        using False by (auto simp: image_iff intro!: exI [of _ "n - W c"])
    qed
  qed
  have "card ((\<lambda>n. n + W c) ` ?B) = card ?B"
    by (intro card_image) (auto intro: inj_onI)
  moreover have "{0..<W c} \<inter> (\<lambda>n. n + W c) ` ?B = {}"
    by auto
  ultimately show ?case
    unfolding split using Cons.IH by (auto simp: card_Un_disjoint)
qed simp

lemma mod_shift_card:
  assumes "0 < (T :: nat)"
  shows "card {k. k < T \<and> Q ((b + k) mod T)} = card {n. n < T \<and> Q n}"
proof -
  let ?f = "\<lambda>k. (b + k) mod T"
  have le: "x = y" if "x \<le> y" "y < T" "?f x = ?f y" for x y
  proof -
    have "T dvd (b + y) - (b + x)"
      using iffD1 [OF mod_eq_dvd_iff_nat that(3) [symmetric]] that(1) by simp
    then have "T dvd y - x"
      by simp
    then have "y - x = 0"
      using that(2) by (metis dvd_imp_le less_imp_diff_less linorder_not_less neq0_conv)
    then show ?thesis
      using that(1) by simp
  qed
  have inj: "inj_on ?f {0..<T}"
    using le by (intro inj_onI) (metis atLeastLessThan_iff linear)
  have surj: "?f ` {0..<T} = {0..<T}"
    using inj assms by (intro endo_inj_surj) auto
  have img: "n < T \<longleftrightarrow> (\<exists>k < T. n = ?f k)" for n
  proof -
    have "n \<in> {0..<T} \<longleftrightarrow> n \<in> ?f ` {0..<T}"
      by (simp only: surj)
    then show ?thesis
      by (auto simp: image_iff)
  qed
  have "?f ` {k. k < T \<and> Q (?f k)} = {n. n < T \<and> Q n}"
  proof (intro set_eqI iffI)
    fix n assume "n \<in> ?f ` {k. k < T \<and> Q (?f k)}"
    then show "n \<in> {n. n < T \<and> Q n}"
      using assms by auto
  next
    fix n assume n: "n \<in> {n. n < T \<and> Q n}"
    then obtain k where "k < T" "n = ?f k"
      using img [of n] by blast
    then show "n \<in> ?f ` {k. k < T \<and> Q (?f k)}"
      using n by (intro image_eqI [of _ _ k]) auto
  qed
  moreover have "inj_on ?f {k. k < T \<and> Q (?f k)}"
    by (rule inj_on_subset [OF inj]) auto
  ultimately show ?thesis
    using card_image [of ?f "{k. k < T \<and> Q (?f k)}"] by simp
qed

section \<open>Selection lemmas\<close>

text \<open>The candidates that compete and their total weight, as one pair.\<close>

definition competing ::
  "(real \<Rightarrow> real) \<Rightarrow> string \<Rightarrow> pool_cfg \<Rightarrow> u32 \<Rightarrow> socket_addr list \<Rightarrow> pool_health_view option
    \<Rightarrow> candidate list \<times> (candidate \<Rightarrow> u64)"
  where "competing fl pname pool attempt_no tried health =
    (let (chosen, use_latency) = choose_backends pname pool (candidates_of attempt_no tried pool) health in
     (chosen, weight_of fl pname health use_latency))"

lemma candidates_mem:
  "(b, addr) \<in> set (candidates_of n tried pool) \<longleftrightarrow>
   b \<in> set (pool_backends pool) \<and> parse_socket_addr (be_address b) = Some addr \<and>
   (0 < n \<longrightarrow> addr \<notin> set tried)"
  by (auto simp: candidates_of_def map_filter_mem split: option.splits if_splits)

lemma candidates_nil: "pool_backends pool = [] \<Longrightarrow> candidates_of n tried pool = []"
  by (simp add: candidates_of_def map_filter_simps)

lemma choose_subset:
  "choose_backends pname pool cs health = (chosen, l) \<Longrightarrow> set chosen \<subseteq> set cs"
  by (auto simp: choose_backends_def Let_def split: option.splits prod.splits if_splits)

lemma choose_nonempty:
  assumes "choose_backends pname pool cs health = (chosen, l)" "cs \<noteq> []"
  shows "chosen \<noteq> []"
proof -
  have "max m (1 :: u32) \<noteq> 0" for m
    by (metis max.cobounded2 one_le_word_iff)
  then have nz: "unat (max m (1 :: u32)) \<noteq> 0" for m
    by (simp add: unat_eq_zero)
  show ?thesis
    using assms by (auto simp: choose_backends_def fails_open_def Let_def not_less nz
        split: option.splits prod.splits if_splits)
qed

lemma choose_eligible:
  assumes "choose_backends pname pool cs (Some (cfg, table)) = (chosen, l)"
    and "\<not> fails_open cfg pool (filter (\<lambda>(b, addr). backend_eligible table pname addr) cs)"
    and "(b, addr) \<in> set chosen"
  shows "backend_eligible table pname addr"
  using assms by (auto simp: choose_backends_def Let_def)

lemma select_backend_eq:
  assumes "find (\<lambda>p. pool_name p = pname) pools = Some pool"
    and "competing fl pname pool n tried health = (chosen, w)"
    and "total_weight w chosen < 2 ^ 64"
  shows "select_backend fl pools pname tid gen n tried health =
    (if total_weight w chosen = 0 then None
     else map_option (\<lambda>(b, addr). (pname, addr))
       (nat_pick (\<lambda>c. unat (w c)) (unat (tid + gen) mod total_weight w chosen) chosen))"
proof -
  let ?cs = "candidates_of n tried pool" and ?T = "total_weight w chosen"
  obtain l where ch: "choose_backends pname pool ?cs health = (chosen, l)"
      and w: "w = weight_of fl pname health l"
    using assms(2) by (auto simp: competing_def split: prod.splits)
  have tot: "unat (foldl (\<lambda>acc c. acc + w c) 0 chosen) = ?T"
    using foldl_weights [of 0 w chosen] assms(3) by simp
  show ?thesis
  proof (cases "?cs = []")
    case True
    then have "chosen = []"
      using choose_subset [OF ch] by simp
    then show ?thesis
      using True assms(1) by (auto simp: select_backend_def)
  next
    case False
    then have ne: "pool_backends pool \<noteq> []" "chosen \<noteq> []"
      using candidates_nil choose_nonempty [OF ch] by auto
    let ?total = "foldl (\<lambda>acc c. acc + w c) 0 chosen"
    have zero: "?total = 0 \<longleftrightarrow> ?T = 0"
      using tot by (metis unat_eq_zero)
    have pick: "unat ((tid + gen) mod ?total) = unat (tid + gen) mod ?T"
      by (simp add: unat_mod_distrib tot)
    have loop: "pick_loop w ((tid + gen) mod ?total) 0 chosen =
        nat_pick (\<lambda>c. unat (w c)) (unat (tid + gen) mod ?T) chosen"
      using pick_loop_nat [of 0 w chosen "(tid + gen) mod ?total"] assms(3) pick by simp
    have some: "\<exists>c. nat_pick (\<lambda>c. unat (w c)) (unat (tid + gen) mod ?T) chosen = Some c" if "?T \<noteq> 0"
    proof -
      have "unat (tid + gen) mod ?T < ?T"
        using that by (intro mod_less_divisor) simp
      then show ?thesis
        using nat_pick_Some [of "unat (tid + gen) mod ?T" "\<lambda>c. unat (w c)" chosen]
        unfolding total_weight_def by blast
    qed
    have "select_backend fl pools pname tid gen n tried health =
      (if ?total = 0 then None
       else map_option (\<lambda>(b, addr). (pname, addr))
         (case pick_loop w ((tid + gen) mod ?total) 0 chosen of
            Some c \<Rightarrow> Some c | None \<Rightarrow> if chosen = [] then None else Some (last chosen)))"
      using assms(1) False ne ch by (simp add: select_backend_def w Let_def)
    then show ?thesis
      using some by (auto simp: zero loop)
  qed
qed

lemma pick_loop_mem: "pick_loop w pick acc cs = Some c \<Longrightarrow> c \<in> set cs"
  by (induction cs arbitrary: acc) (auto simp: Let_def split: if_splits)

lemma select_backend_unfold:
  assumes "find (\<lambda>p. pool_name p = pname) pools = Some pool"
    and "choose_backends pname pool (candidates_of n tried pool) health = (chosen, l)"
    and "w = weight_of fl pname health l" and "tot = foldl (\<lambda>acc c. acc + w c) 0 chosen"
  shows "select_backend fl pools pname tid gen n tried health =
    (if pool_backends pool = [] \<or> candidates_of n tried pool = [] \<or> tot = 0 then None
     else map_option (\<lambda>(b, addr). (pname, addr))
       (case pick_loop w ((tid + gen) mod tot) 0 chosen of
          Some c \<Rightarrow> Some c | None \<Rightarrow> if chosen = [] then None else Some (last chosen)))"
  using assms by (simp add: select_backend_def Let_def)

lemma select_backend_SomeD:
  assumes "select_backend fl pools pname tid gen n tried health = Some (pn, addr)"
  obtains pool b chosen l where "find (\<lambda>p. pool_name p = pname) pools = Some pool" "pn = pname"
    "choose_backends pname pool (candidates_of n tried pool) health = (chosen, l)"
    "(b, addr) \<in> set chosen"
proof -
  obtain pool where pool: "find (\<lambda>p. pool_name p = pname) pools = Some pool"
    using assms by (auto simp: select_backend_def split: option.splits)
  obtain chosen l where ch: "choose_backends pname pool (candidates_of n tried pool) health = (chosen, l)"
    by fastforce
  let ?w = "weight_of fl pname health l"
  let ?pick = "(tid + gen) mod foldl (\<lambda>acc c. acc + ?w c) 0 chosen"
  define r where "r = (case pick_loop ?w ?pick 0 chosen of Some c \<Rightarrow> Some c
      | None \<Rightarrow> if chosen = [] then None else Some (last chosen))"
  have "map_option (\<lambda>(b, addr). (pname, addr)) r = Some (pn, addr)"
    using assms unfolding select_backend_unfold [OF pool ch refl refl] r_def
    by (metis option.distinct(1))
  then obtain b where b: "r = Some (b, addr)" "pn = pname"
    by (cases r) (auto split: prod.splits)
  have "(b, addr) \<in> set chosen"
  proof (cases "pick_loop ?w ?pick 0 chosen")
    case None
    then show ?thesis
      using b(1) last_in_set [of chosen] by (cases "chosen = []") (simp_all add: r_def)
  next
    case (Some c)
    then show ?thesis
      using b(1) pick_loop_mem [OF Some] by (simp add: r_def)
  qed
  then show thesis
    using that pool ch b(2) by blast
qed

lemma effective_weight_pos: "1 \<le> effective_weight fl configured factor"
proof -
  let ?x = "max 1 (saturate_i64 (round_half_away (fl (real (unat configured) * factor))))"
  have "1 \<le> ?x" "?x < 2 ^ 64"
    by (simp_all add: saturate_i64_def)
  then have "uint (of_int ?x :: u64) = ?x"
    by (simp add: uint_word_of_int_eq take_bit_int_eq_self)
  then have "(of_int ?x :: u64) \<noteq> 0"
    using \<open>1 \<le> ?x\<close> by auto
  then show ?thesis
    by (simp add: effective_weight_def one_le_word_iff)
qed

lemma weight_of_pos:
  assumes "1 \<le> effective_backend_weight b"
  shows "0 < unat (weight_of fl pname health l (b, addr))"
proof -
  have "0 < unat (ucast (effective_backend_weight b) :: u64)"
    using assms by (simp add: one_le_word_iff unat_gt_0)
  moreover have "0 < unat (effective_weight fl c f)" for c f
    using effective_weight_pos [of fl c f] by (simp add: one_le_word_iff unat_gt_0)
  ultimately show ?thesis
    by (auto simp: weight_of_def resolve_backend_weight_def Let_def split: option.splits)
qed

lemma weight_of_pos_total:
  assumes "c \<in> set cs" "0 < unat (w c)"
  shows "total_weight w cs \<noteq> 0"
  using assms by (auto simp: total_weight_def)

section \<open>Properties of routing\<close>

text \<open>C21: the backend that routing selects is a configured backend of the named
  pool with a valid address; on a retry it is one this transaction has not tried
  in the pool; and with health checking it is an eligible one, unless fewer
  backends are eligible than the fail-open floor or the pool has only one.\<close>

theorem select_backend_sound:
  assumes "select_backend fl pools pname tid gen n tried health = Some (pn, addr)"
  shows "pn = pname \<and> (\<exists>pool b. find (\<lambda>p. pool_name p = pname) pools = Some pool \<and>
      b \<in> set (pool_backends pool) \<and> parse_socket_addr (be_address b) = Some addr \<and>
      (0 < n \<longrightarrow> addr \<notin> set tried) \<and>
      (\<forall>cfg table. health = Some (cfg, table) \<longrightarrow>
        backend_eligible table pname addr \<or>
        length (pool_backends pool) \<le> 1 \<or>
        length (filter (\<lambda>(b, a). backend_eligible table pname a) (candidates_of n tried pool))
          < unat (max (cph_min_eligible cfg) 1)))"
proof -
  obtain pool b chosen l where pool: "find (\<lambda>p. pool_name p = pname) pools = Some pool" "pn = pname"
    and ch: "choose_backends pname pool (candidates_of n tried pool) health = (chosen, l)"
    and mem: "(b, addr) \<in> set chosen"
    using assms by (rule select_backend_SomeD)
  have "(b, addr) \<in> set (candidates_of n tried pool)"
    using choose_subset [OF ch] mem by blast
  moreover have "backend_eligible table pname addr"
    if "health = Some (cfg, table)" "\<not> fails_open cfg pool
        (filter (\<lambda>(b, a). backend_eligible table pname a) (candidates_of n tried pool))" for cfg table
    using choose_eligible [OF _ that(2) mem] ch that(1) by simp
  ultimately show ?thesis
    using pool by (auto simp: candidates_mem fails_open_def)
qed

definition two_backends :: "pool_cfg list"
  where "two_backends = [\<lparr>pool_name = ''default'', pool_backends =
      [\<lparr>be_address = ''192.0.2.1:53'', be_weight = Some 1, be_name = None, be_probe_qname = None,
        be_probe_qtype = None, be_probe_source = None, be_transport = None\<rparr>,
       \<lparr>be_address = ''192.0.2.2:53'', be_weight = Some 2, be_name = None, be_probe_qname = None,
        be_probe_qtype = None, be_probe_source = None, be_transport = None\<rparr>],
     pool_sources_v4 = [], pool_sources_v6 = [], pool_max_inflight = None, pool_health = None\<rparr>]"

lemma two_backends_parse:
  "parse_socket_addr ''192.0.2.1:53'' = Some (SocketV4 0xC0000201 53)"
  "parse_socket_addr ''192.0.2.2:53'' = Some (SocketV4 0xC0000202 53)"
  by (simp_all add: net_eval)

lemmas select_eval = select_backend_def two_backends_def candidates_of_def map_filter_simps
  choose_backends_def weight_of_def resolve_backend_weight_def effective_backend_weight_def
  two_backends_parse Let_def

theorem select_backend_sound_witness:
  "select_backend (\<lambda>x. x) two_backends ''default'' 4 0 0 [] None = Some (''default'', SocketV4 0xC0000202 53)
   \<and> (\<exists>pool b. find (\<lambda>p. pool_name p = ''default'') two_backends = Some pool \<and>
      b \<in> set (pool_backends pool) \<and> parse_socket_addr (be_address b) = Some (SocketV4 0xC0000202 53))"
proof -
  have s: "select_backend (\<lambda>x. x) two_backends ''default'' 4 0 0 [] None
      = Some (''default'', SocketV4 0xC0000202 53)"
    by (simp add: select_eval)
  show ?thesis
    using s select_backend_sound [OF s] by blast
qed

text \<open>C22: routing fails only when it must: if the named pool exists, all its backends have a weight of at
  least one (as validation requires) and some backend with a valid address is left to try, then a
  backend is selected, whatever the health of the backends.  With none eligible the pool fails open,
  also under the default \<open>min_eligible\<close> of 0, since the floor is never below one.  That is what the
  interoperability case \<open>health-fail-open-all-down\<close> expects and what \<open>guides/backend-health.md\<close> denies.\<close>

theorem select_backend_complete:
  assumes "find (\<lambda>p. pool_name p = pname) pools = Some pool"
    and "list_all (\<lambda>b. 1 \<le> effective_backend_weight b) (pool_backends pool)"
    and "competing fl pname pool n tried health = (chosen, w)" and "total_weight w chosen < 2 ^ 64"
    and "b \<in> set (pool_backends pool)" and "parse_socket_addr (be_address b) = Some addr"
    and "addr \<notin> set tried"
  shows "\<exists>a. select_backend fl pools pname tid gen n tried health = Some (pname, a)"
proof -
  obtain l where ch: "choose_backends pname pool (candidates_of n tried pool) health = (chosen, l)"
      and w: "w = weight_of fl pname health l"
    using assms(3) by (auto simp: competing_def split: prod.splits)
  have "(b, addr) \<in> set (candidates_of n tried pool)"
    using assms(5-7) by (simp add: candidates_mem)
  then have "chosen \<noteq> []"
    using choose_nonempty [OF ch] by (metis empty_iff list.set(1))
  then obtain b' a' where c: "(b', a') \<in> set chosen"
    using last_in_set by (metis surj_pair)
  then have "b' \<in> set (pool_backends pool)"
    using choose_subset [OF ch] by (auto simp: candidates_mem)
  then have "0 < unat (w (b', a'))"
    using assms(2) by (auto simp: w list_all_iff intro: weight_of_pos)
  then have nz: "total_weight w chosen \<noteq> 0"
    by (rule weight_of_pos_total [OF c])
  then have "unat (tid + gen) mod total_weight w chosen < total_weight w chosen"
    by (intro mod_less_divisor) simp
  then obtain c where "nat_pick (\<lambda>c. unat (w c)) (unat (tid + gen) mod total_weight w chosen) chosen = Some c"
    using nat_pick_Some [of _ "\<lambda>c. unat (w c)" chosen] unfolding total_weight_def by blast
  then show ?thesis
    using nz by (cases c) (auto simp: select_backend_eq [OF assms(1,3,4)])
qed

text \<open>Every backend is down and \<open>min_eligible\<close> is 0; one has been tried.\<close>

definition all_down :: pool_health_view
  where "all_down = (example_pool, \<lambda>_. Some (set_down 3 (from_initial_policy Optimistic)))"

theorem select_backend_complete_witness:
  "\<not> backend_eligible (snd all_down) ''default'' (SocketV4 0xC0000202 53) \<and> cph_min_eligible (fst all_down) = 0 \<and>
   (\<exists>a. select_backend (\<lambda>x. x) two_backends ''default'' 7 1 1 [SocketV4 0xC0000201 53] (Some all_down) = Some (''default'', a))"
proof -
  let ?pool = "hd two_backends"
  have down: "\<not> backend_eligible (snd all_down) n a" for n a
    by (simp add: all_down_def backend_eligible_def set_down_def freeze_def)
  obtain chosen w where c: "competing (\<lambda>x. x) ''default'' ?pool 1 [SocketV4 0xC0000201 53] (Some all_down) = (chosen, w)"
    by fastforce
  have "total_weight w chosen < 2 ^ 64"
    using c by (auto simp: competing_def select_eval total_weight_def all_down_def fails_open_def example_pool_def
        split: if_splits)
  then have "\<exists>a. select_backend (\<lambda>x. x) two_backends ''default'' 7 1 1 [SocketV4 0xC0000201 53] (Some all_down) = Some (''default'', a)"
    using select_backend_complete [OF _ _ c, of two_backends "last (pool_backends ?pool)"
        "SocketV4 0xC0000202 53" 7 1]
    by (simp add: two_backends_def two_backends_parse effective_backend_weight_def)
  then show ?thesis
    using down by (simp add: all_down_def example_pool_def)
qed

text \<open>C2: the pick is exactly proportional to the weights: of any \<open>T\<close> consecutive
  transaction ids, where \<open>T\<close> is the total weight of the competing backends, each
  backend address is selected as many times as its weight says.\<close>

theorem select_backend_proportional:
  assumes "find (\<lambda>p. pool_name p = pname) pools = Some pool"
    and "competing fl pname pool n tried health = (chosen, w)"
    and "0 < total_weight w chosen" and "total_weight w chosen < 2 ^ 64"
    and "unat base + unat gen + total_weight w chosen \<le> 2 ^ 64"
  shows "card {k. k < total_weight w chosen \<and>
      select_backend fl pools pname (base + of_nat k) gen n tried health = Some (pname, addr)} =
    total_weight w (filter (\<lambda>(b, a). a = addr) chosen)"
proof -
  let ?T = "total_weight w chosen" and ?W = "\<lambda>c. unat (w c)"
  let ?Q = "\<lambda>m. \<exists>c. nat_pick ?W m chosen = Some c \<and> snd c = addr"
  have id: "unat (base + of_nat k + gen) = unat base + unat gen + k" if "k < ?T" for k
  proof -
    have "base + of_nat k + gen = of_nat (unat base + unat gen + k)"
      by simp
    moreover have "unat base + unat gen + k < 2 ^ LENGTH(64)"
      using that assms(5) by simp
    ultimately show ?thesis
      by (simp only: unat_of_nat_small)
  qed
  have sel: "select_backend fl pools pname (base + of_nat k) gen n tried health = Some (pname, addr)
      \<longleftrightarrow> ?Q ((unat base + unat gen + k) mod ?T)" if "k < ?T" for k
    unfolding select_backend_eq [OF assms(1,2,4)] id [OF that] using assms(3)
    by (simp add: map_option_eq_Some case_prod_unfold)
  have "{k. k < ?T \<and> select_backend fl pools pname (base + of_nat k) gen n tried health = Some (pname, addr)}
      = {k. k < ?T \<and> ?Q ((unat base + unat gen + k) mod ?T)}"
    using sel by blast
  also have "card \<dots> = card {m. m < ?T \<and> ?Q m}"
    by (rule mod_shift_card [OF assms(3)])
  also have "\<dots> = total_weight w (filter (\<lambda>c. snd c = addr) chosen)"
    using nat_pick_count [of ?W chosen "\<lambda>c. snd c = addr"] unfolding total_weight_def .
  finally show ?thesis
    by (simp add: case_prod_unfold)
qed

theorem select_backend_proportional_witness:
  "card {k. k < 3 \<and> select_backend (\<lambda>x. x) two_backends ''default'' (10 + of_nat k) 5 0 [] None
      = Some (''default'', SocketV4 0xC0000202 53)} = 2"
proof -
  obtain chosen w where c: "competing (\<lambda>x. x) ''default'' (hd two_backends) 0 [] None = (chosen, w)"
    by fastforce
  have t: "total_weight w chosen = 3"
      "total_weight w (filter (\<lambda>(b, a). a = SocketV4 0xC0000202 53) chosen) = 2"
    using c by (auto simp: competing_def select_eval total_weight_def)
  show ?thesis
    using select_backend_proportional [OF _ c, of two_backends 10 5 "SocketV4 0xC0000202 53"]
    by (simp add: t two_backends_def)
qed

lemma candidates_first:
  "List.map_filter (\<lambda>b. map_option (\<lambda>a. (b, a)) (parse_socket_addr (be_address b))) (pool_backends pool)
   = candidates_of 0 tried pool"
proof -
  have "(\<lambda>b. map_option (\<lambda>a. (b, a)) (parse_socket_addr (be_address b))) =
      (\<lambda>b. case parse_socket_addr (be_address b) of None \<Rightarrow> None
        | Some addr \<Rightarrow> if 0 < (0 :: u32) \<and> addr \<in> set tried then None else Some (b, addr))"
    by (rule ext) (simp split: option.splits)
  then show ?thesis
    unfolding candidates_of_def by (rule arg_cong)
qed

text \<open>The weights exported for scraping are the ones routing uses on a first
  attempt: a competing backend has the weight of its share of the pick, any
  other backend of the pool zero.\<close>

theorem scrape_weights_are_routing_weights:
  assumes "distinct (map snd (candidates_of 0 [] pool))"
    and "competing fl (pool_name pool) pool 0 [] (Some (cfg, table)) = (chosen, w)"
    and "(b, addr) \<in> set (candidates_of 0 [] pool)"
  shows "effective_weights_for_scrape fl pool cfg table addr =
    Some (if (b, addr) \<in> set chosen then w (b, addr) else 0)"
proof -
  let ?cs = "candidates_of 0 [] pool"
  let ?el = "filter (\<lambda>(b, a). backend_eligible table (pool_name pool) a) ?cs"
  obtain l where ch: "choose_backends (pool_name pool) pool ?cs (Some (cfg, table)) = (chosen, l)"
      and w: "w = weight_of fl (pool_name pool) (Some (cfg, table)) l"
    using assms(2) by (auto simp: competing_def split: prod.splits)
  have ne: "?cs \<noteq> []"
    using assms(3) by auto
  let ?ul = "\<not> fails_open cfg pool ?el \<and> cph_latency_weighting cfg"
  have "effective_weights_for_scrape fl pool cfg table addr =
      Some (scrape_weight fl (pool_name pool) table (fails_open cfg pool ?el) ?ul (b, addr))"
    using ne foldl_upd_distinct [OF assms(1,3), where m = Map.empty and
        val = "scrape_weight fl (pool_name pool) table (fails_open cfg pool ?el) ?ul"]
    unfolding effective_weights_for_scrape_def Let_def candidates_first [where tried = "[]"] by simp
  then show ?thesis
    using ch assms(3)
    by (auto simp: w weight_of_def scrape_weight_def choose_backends_def Let_def split: if_splits)
qed

theorem scrape_weights_are_routing_weights_witness:
  "effective_weights_for_scrape (\<lambda>x. x) (hd two_backends) example_pool
     [(''default'', SocketV4 0xC0000202 53) \<mapsto> from_initial_policy Optimistic,
      (''default'', SocketV4 0xC0000201 53) \<mapsto> set_down 1 (from_initial_policy Optimistic)]
     (SocketV4 0xC0000201 53) = Some 0"
proof -
  let ?t = "[(''default'', SocketV4 0xC0000202 53) \<mapsto> from_initial_policy Optimistic,
      (''default'', SocketV4 0xC0000201 53) \<mapsto> set_down 1 (from_initial_policy Optimistic)]"
  obtain chosen w where c: "competing (\<lambda>x. x) (pool_name (hd two_backends)) (hd two_backends) 0 []
      (Some (example_pool, ?t)) = (chosen, w)"
    by fastforce
  have cs: "candidates_of 0 [] (hd two_backends) =
      [(hd (pool_backends (hd two_backends)), SocketV4 0xC0000201 53),
       (last (pool_backends (hd two_backends)), SocketV4 0xC0000202 53)]"
    by (simp add: select_eval)
  have nm: "pool_name (hd two_backends) = ''default''" "length (pool_backends (hd two_backends)) = 2"
    by (simp_all add: two_backends_def)
  have el: "backend_eligible ?t ''default'' (SocketV4 0xC0000202 53)"
      "\<not> backend_eligible ?t ''default'' (SocketV4 0xC0000201 53)"
    by (simp_all add: backend_eligible_def set_down_def freeze_def from_initial_policy_def)
  have "\<not> fails_open example_pool (hd two_backends)
      [(last (pool_backends (hd two_backends)), SocketV4 0xC0000202 53)]"
    by (simp add: fails_open_def nm example_pool_def max_def)
  then have "chosen = [(last (pool_backends (hd two_backends)), SocketV4 0xC0000202 53)]"
    using c el by (simp add: competing_def nm cs choose_backends_def)
  then have "(hd (pool_backends (hd two_backends)), SocketV4 0xC0000201 53) \<notin> set chosen"
    by simp
  then show ?thesis
    using scrape_weights_are_routing_weights [OF _ c, of "hd (pool_backends (hd two_backends))"
        "SocketV4 0xC0000201 53"] by (simp add: cs)
qed

definition attempts_ok :: "transaction \<Rightarrow> bool"
  where "attempts_ok t \<longleftrightarrow>
    distinct (map (\<lambda>a. (att_pool a, att_backend a)) (attempts t)) \<and>
    unat (attempt_count t) = length (attempts t)"

lemma route_pool_fields:
  "route_pool cfg t = (pn, t') \<Longrightarrow> attempts t' = attempts t \<and> attempt_count t' = attempt_count t \<and>
    txn_id t' = txn_id t"
  by (auto simp: route_pool_def take_retry_pool_def Let_def split: if_splits)

text \<open>C23: over all the attempts of a transaction, Route never selects a backend of
  a pool a second time: it keeps the invariant that the attempts are pairwise
  different and counted, and a transaction without an untried backend goes to
  Send with SERVFAIL.\<close>

theorem route_never_repeats:
  assumes "attempts_ok t" and "length (attempts t) + 1 < 2 ^ 32"
    and "route_handle fl health_tab cfg ch gen t = (oc, t')"
  shows "attempts_ok t' \<and>
    (oc = Continue Forward \<and> length (attempts t') = length (attempts t) + 1 \<or>
     oc = Continue Send \<and> attempts t' = attempts t \<and> txn_rcode t' \<noteq> None)"
proof -
  obtain pn t1 where rp: "route_pool cfg t = (pn, t1)"
    by fastforce
  note f = route_pool_fields [OF rp]
  show ?thesis
  proof (cases pn)
    case None
    then show ?thesis
      using assms rp f by (auto simp: route_handle_def set_rcode_name_def attempts_ok_def)
  next
    case (Some pname)
    let ?view = "case (health_tab, health_pool ch pname) of (Some table, Some c) \<Rightarrow> Some (c, table) | _ \<Rightarrow> None"
    let ?sel = "select_backend fl (cfg_pools cfg) pname (txn_id t1) gen (attempt_count t1)
        (tried_backends_in_pool (attempts t1) pname) ?view"
    show ?thesis
    proof (cases ?sel)
      case None
      then show ?thesis
        using assms rp f Some by (auto simp: route_handle_def set_rcode_name_def attempts_ok_def Let_def)
    next
      case sel: (Some r)
      obtain pool backend where r: "r = (pool, backend)"
        by fastforce
      obtain lbl where t': "t' = record_attempt pool backend lbl t1" "oc = Continue Forward"
        using assms(3) rp Some sel r by (auto simp: route_handle_def Let_def)
      have sound: "pool = pname"
          "0 < attempt_count t1 \<longrightarrow> backend \<notin> set (tried_backends_in_pool (attempts t1) pname)"
        using sel unfolding r by (auto elim!: select_backend_SomeD dest!: choose_subset simp: candidates_mem)
      have "(pool, backend) \<notin> (\<lambda>a. (att_pool a, att_backend a)) ` set (attempts t1)"
      proof (cases "attempts t1 = []")
        case False
        then have "0 < attempt_count t1"
          using assms(1) f by (auto simp: attempts_ok_def word_less_nat_alt)
        then show ?thesis
          using sound by (auto simp: tried_backends_in_pool_def)
      qed simp
      moreover have "unat (attempt_count t1 + 1) = length (attempts t) + 1"
        using assms(1,2) f by (simp add: attempts_ok_def unat_plus_1)
      ultimately show ?thesis
        using assms(1) f t' by (auto simp: attempts_ok_def record_attempt_def Let_def)
    qed
  qed
qed

theorem route_never_repeats_witness:
  "attempts_ok (snd (route_handle (\<lambda>x. x) None \<lparr>cfg_pools = two_backends, cfg_forward = None\<rparr> [] 0
      (transaction_new 0 0 7 (SocketV4 1 1) Udp)))"
  using route_never_repeats [of "transaction_new 0 0 7 (SocketV4 1 1) Udp" "\<lambda>x. x" None
      "\<lparr>cfg_pools = two_backends, cfg_forward = None\<rparr>" "[]" 0]
  by (cases "route_handle (\<lambda>x. x) None \<lparr>cfg_pools = two_backends, cfg_forward = None\<rparr> [] 0
      (transaction_new 0 0 7 (SocketV4 1 1) Udp)")
     (simp add: attempts_ok_def transaction_new_def)

end
