(* ===== verification/Forward.thy ===== *)
theory Forward
  imports Io_Backend Routing
begin

text \<open>
  The Forward and WaitResponse stages (\<open>transport.rs\<close>, \<open>wait_stage.rs\<close> and
  \<open>mode.rs\<close> of \<open>crates/conduit-dataplane/src/forward\<close>) and the recording of an
  upstream answer (\<open>crates/conduit-core/src/upstream_response.rs\<close>).

  The network and the DNS message parser of the hickory library are parameters, the
  fields of a \<open>net_env\<close>.  Metrics and log lines are not modelled; the passive
  health reports are.
\<close>

section \<open>Environment and state\<close>

text \<open>What the code reads of a parsed message.\<close>

record dns_message =
  msg_rcode_low :: u8
  msg_answers :: nat
  msg_name_servers :: nat
  msg_additionals :: nat
  msg_truncated :: bool
  msg_authoritative :: bool

record net_env =
  ne_send :: "ip_addr \<Rightarrow> socket_addr \<Rightarrow> bytes \<Rightarrow> bool"
  ne_recv :: "ip_addr \<Rightarrow> (socket_addr \<times> bytes) option"
  ne_tcp :: "socket_addr \<Rightarrow> bytes \<Rightarrow> u32 option \<Rightarrow> 128 word option \<Rightarrow> bytes option"
  ne_message :: "bytes \<Rightarrow> dns_message option"

datatype forward_mode = ModeSync | ModeSubmit

record forward_transport =
  ft_upstream_transport :: upstream_transport
  ft_client_tcp_uses_upstream_tcp :: bool
  ft_mode :: forward_mode

record forward_state =
  fs_egress :: worker_egress
  fs_table :: txn_table
  fs_io :: "io_backend option"
  fs_inflight :: "pool_inflight option"
  fs_health :: "health_registry option"

record forward_snapshot =
  sn_egress :: egress_config
  sn_health :: compiled_health
  sn_needs_response_wire_meta :: bool

text \<open>The clock readings of one stage run: \<open>Instant::now\<close> when it starts and when it
  ends, and the millisecond tick of the health side table.\<close>

record stage_clock =
  ck_started :: instant
  ck_now :: instant
  ck_tick :: u64

section \<open>Recording an upstream answer\<close>

definition u16_or_max :: "nat \<Rightarrow> u16"
  where "u16_or_max n = (if n < 65536 then of_nat n else - 1)"

definition record_upstream_response :: "net_env \<Rightarrow> bytes \<Rightarrow> bool \<Rightarrow> transaction \<Rightarrow> transaction"
  where "record_upstream_response env wire parse_wire_meta t =
    (case ne_message env wire of
       Some msg \<Rightarrow>
         (let t1 = set_rcode (ucast (msg_rcode_low msg)) t in
          if parse_wire_meta
          then t1\<lparr>response_meta := Some \<lparr>meta_answer_count = u16_or_max (msg_answers msg),
            meta_authority_count = u16_or_max (msg_name_servers msg),
            meta_additional_count = u16_or_max (msg_additionals msg),
            meta_truncated = msg_truncated msg, meta_authoritative = msg_authoritative msg\<rparr>\<rparr>
          else t1\<lparr>response_meta := None\<rparr>)
     | None \<Rightarrow> if parse_wire_meta then t\<lparr>response_meta := None\<rparr> else t)"

section \<open>The Forward stage\<close>

definition report_passive_outcome ::
  "stage_clock \<Rightarrow> transaction \<Rightarrow> forward_snapshot \<Rightarrow> socket_addr \<Rightarrow> bool \<Rightarrow> forward_state \<Rightarrow> forward_state"
  where "report_passive_outcome ck t snap backend is_failure st =
    (case fs_health st of
       None \<Rightarrow> st
     | Some registry \<Rightarrow>
        (let pool = (case selected_pool t of Some p \<Rightarrow> p | None \<Rightarrow> ''default'') in
         st\<lparr>fs_health := Some (snd (record_passive_forward_outcome (ck_tick ck) (sn_health snap)
             pool backend is_failure registry))\<rparr>))"

definition passive_failure_reason :: "string \<Rightarrow> bool"
  where "passive_failure_reason reason =
    (reason = ''send_error'' \<or> reason = ''timeout'' \<or> reason = ''tcp_error'')"

definition release_pool_inflight :: "transaction \<Rightarrow> forward_state \<Rightarrow> forward_state"
  where "release_pool_inflight t st =
    (case (fs_inflight st, selected_pool t) of
       (Some inflight, Some pool) \<Rightarrow> st\<lparr>fs_inflight := Some (release_inflight pool inflight)\<rparr>
     | _ \<Rightarrow> st)"

definition record_forward :: "instant \<Rightarrow> instant \<Rightarrow> transaction \<Rightarrow> transaction"
  where "record_forward now started t =
    (complete_forward_rtt now started t)\<lparr>forward_metrics_recorded := True\<rparr>"

definition use_tcp_for_attempt :: "forward_transport \<Rightarrow> transaction \<Rightarrow> bool \<Rightarrow> bool"
  where "use_tcp_for_attempt ft t force_tcp =
    (force_tcp
     \<or> (ft_client_tcp_uses_upstream_tcp ft \<and> protocol t = Tcp)
     \<or> ft_upstream_transport ft = TcpOnly)"

definition finish_response ::
  "net_env \<Rightarrow> stage_clock \<Rightarrow> forward_snapshot \<Rightarrow> forward_key \<Rightarrow> bytes \<Rightarrow> transaction \<Rightarrow> forward_state
    \<Rightarrow> stage_outcome \<times> transaction \<times> forward_state"
  where "finish_response env ck snap key wire t st =
    (let t1 = record_forward (ck_now ck) (ck_started ck) t;
         st1 = report_passive_outcome ck t1 snap (fk_backend key) False st;
         st2 = st1\<lparr>fs_table := tt_remove key (fs_table st1)\<rparr>;
         w = rewrite_dns_id (dns_id t1) wire;
         t2 = record_upstream_response env w (sn_needs_response_wire_meta snap) t1 in
     (Continue ResponseRules, t2\<lparr>response_wire := Some w\<rparr>, st2))"

definition servfail ::
  "stage_clock \<Rightarrow> forward_snapshot \<Rightarrow> forward_key option \<Rightarrow> string \<Rightarrow> instant \<Rightarrow> transaction \<Rightarrow> forward_state
    \<Rightarrow> stage_outcome \<times> transaction \<times> forward_state"
  where "servfail ck snap key reason started t st =
    (let t1 = record_forward (ck_now ck) started t;
         st1 = (case key of
             Some k \<Rightarrow> if passive_failure_reason reason
               then report_passive_outcome ck t1 snap (fk_backend k) True st else st
           | None \<Rightarrow> st);
         st2 = (case key of
             Some k \<Rightarrow> st1\<lparr>fs_table := tt_remove k (fs_table st1),
               fs_io := map_option (cancel_pending k) (fs_io st1)\<rparr>
           | None \<Rightarrow> st1) in
     (Continue Send, set_rcode_name ''SERVFAIL'' t1, st2))"

definition register_forward_key ::
  "stage_clock \<Rightarrow> forward_snapshot \<Rightarrow> socket_addr \<Rightarrow> transaction \<Rightarrow> forward_state
    \<Rightarrow> (stage_outcome \<times> transaction \<times> forward_state, forward_key) result \<times> forward_state"
  where "register_forward_key ck snap backend t st =
    (case tt_register_unique backend (txn_id t) (fs_table st) of
       (Some key, tbl) \<Rightarrow> (Ok key, st\<lparr>fs_table := tbl\<rparr>)
     | (None, tbl) \<Rightarrow>
        (let st1 = st\<lparr>fs_table := tbl\<rparr> in
         (Err (servfail ck snap None ''table_full'' (ck_now ck) t st1), st1)))"

text \<open>Both overrides are taken, then the selection of the egress socket.\<close>

definition egress_selection_of ::
  "forward_snapshot \<Rightarrow> socket_addr \<Rightarrow> transaction \<Rightarrow> egress_selection \<times> transaction"
  where "egress_selection_of snap backend t =
    (let pool = selected_pool t;
         (v4, t1) = take_effective_source_override_v4 t;
         (v6, t2) = take_effective_source_override_v6 t1 in
     (\<lparr>sel_pool_sources_v4 = sources_v4_for_pool (sn_egress snap) pool,
       sel_pool_sources_v6 = sources_v6_for_pool (sn_egress snap) pool, sel_backend = backend,
       sel_override_v4 = v4, sel_allowed_v4 = allowed_sources_v4_for_pool (sn_egress snap) pool,
       sel_override_v6 = v6, sel_allowed_v6 = allowed_sources_v6_for_pool (sn_egress snap) pool\<rparr>, t2))"

definition acquire_pool_inflight :: "transaction \<Rightarrow> forward_state \<Rightarrow> bool \<times> forward_state"
  where "acquire_pool_inflight t st =
    (case fs_inflight st of
       None \<Rightarrow> (True, st)
     | Some inflight \<Rightarrow>
        (let r = try_acquire (case selected_pool t of Some p \<Rightarrow> p | None \<Rightarrow> ''default'') inflight in
         (fst r, st\<lparr>fs_inflight := Some (snd r)\<rparr>)))"

text \<open>The last part of a submission: the pending entry is made before the query is sent.\<close>

definition submit_send ::
  "net_env \<Rightarrow> stage_clock \<Rightarrow> forward_snapshot \<Rightarrow> forward_key \<Rightarrow> socket_addr \<Rightarrow> egress_selection
    \<Rightarrow> io_backend \<Rightarrow> transaction \<Rightarrow> forward_state \<Rightarrow> stage_outcome \<times> transaction \<times> forward_state"
  where "submit_send env ck snap key backend sel io t st =
    (let slot = ucast (txn_id t);
         io1 = track_pending (ck_now ck) key slot io;
         (socket, io2) = io_udp_socket_for slot sel io1;
         st1 = st\<lparr>fs_io := Some io2\<rparr> in
     case socket of
       Inl _ \<Rightarrow> servfail ck snap (Some key) ''no_io_egress'' (ck_started ck) t
         (release_pool_inflight t st1)
     | Inr addr \<Rightarrow>
        if ne_send env addr backend (rewrite_dns_id (fk_dns_id key) (query_wire t))
        then (Suspend WaitResponse, t, st1)
        else servfail ck snap (Some key) ''send_error'' (ck_started ck) t
               (release_pool_inflight t st1))"

definition handle_submit ::
  "net_env \<Rightarrow> forward_transport \<Rightarrow> stage_clock \<Rightarrow> forward_snapshot \<Rightarrow> transaction \<Rightarrow> forward_state
    \<Rightarrow> stage_outcome \<times> transaction \<times> forward_state"
  where "handle_submit env ft ck snap t0 st =
    (let t = mark_forward_started (ck_started ck) t0 in
     case selected_backend t of
       None \<Rightarrow> servfail ck snap None ''no_backend'' (ck_started ck) t st
     | Some backend \<Rightarrow>
     (case register_forward_key ck snap backend t st of
       (Inl outcome, _) \<Rightarrow> outcome
     | (Inr key, st1) \<Rightarrow>
       (let (admitted, st2) = acquire_pool_inflight t st1 in
        if \<not> admitted
        then servfail ck snap None ''pool_inflight_exceeded'' (ck_started ck) t
               (st2\<lparr>fs_table := tt_remove key (fs_table st2)\<rparr>)
        else if use_tcp_for_attempt ft t False
        then servfail ck snap None ''tcp_unsupported'' (ck_started ck) t
               (release_pool_inflight t (st2\<lparr>fs_table := tt_remove key (fs_table st2)\<rparr>))
        else
          let (sel, t1) = egress_selection_of snap backend t in
          case fs_io st2 of
            None \<Rightarrow> servfail ck snap (Some key) ''no_io_backend'' (ck_started ck) t1
              (release_pool_inflight t1 st2)
          | Some io \<Rightarrow> submit_send env ck snap key backend sel io t1 st2)))"

text \<open>The source addresses for TCP are selected before the transport is chosen, so also for
  an attempt over UDP.\<close>

definition bind_sources ::
  "egress_selection \<Rightarrow> worker_egress \<Rightarrow> u32 option \<times> 128 word option \<times> worker_egress"
  where "bind_sources sel eg =
    (if sock_is_ipv4 (sel_backend sel)
     then let (a, eg') = select_source_v4 (sel_pool_sources_v4 sel) (sel_override_v4 sel)
                (sel_allowed_v4 sel) eg in (Some a, None, eg')
     else let (a, eg') = select_source_v6 (sel_pool_sources_v6 sel) (sel_override_v6 sel)
                (sel_allowed_v6 sel) eg in (None, Some a, eg'))"

text \<open>The answer that is used after a UDP reply: with the fallback transport, a truncated
  reply of an IPv4 backend is replaced by the answer over TCP, if that works.\<close>

definition udp_or_fallback ::
  "net_env \<Rightarrow> forward_transport \<Rightarrow> socket_addr \<Rightarrow> bytes \<Rightarrow> u32 option \<Rightarrow> 128 word option \<Rightarrow> bytes \<Rightarrow> bytes"
  where "udp_or_fallback env ft backend upstream_wire bind_v4 bind_v6 wire =
    (if ft_upstream_transport ft = PreferUdpWithTcpFallback \<and> sock_is_ipv4 backend
     then case ne_message env wire of
         Some msg \<Rightarrow> if msg_truncated msg
           then case ne_tcp env backend upstream_wire bind_v4 bind_v6 of
               Some tcp_wire \<Rightarrow> tcp_wire
             | None \<Rightarrow> wire
           else wire
       | None \<Rightarrow> wire
     else wire)"

definition handle_sync ::
  "net_env \<Rightarrow> forward_transport \<Rightarrow> stage_clock \<Rightarrow> forward_snapshot \<Rightarrow> transaction \<Rightarrow> forward_state
    \<Rightarrow> stage_outcome \<times> transaction \<times> forward_state"
  where "handle_sync env ft ck snap t0 st =
    (let t = mark_forward_started (ck_started ck) t0 in
     case selected_backend t of
       None \<Rightarrow> (Continue Send,
         set_rcode_name ''SERVFAIL'' (record_forward (ck_now ck) (ck_started ck) t), st)
     | Some backend \<Rightarrow>
     (case register_forward_key ck snap backend t st of
       (Inl outcome, _) \<Rightarrow> outcome
     | (Inr key, st1) \<Rightarrow>
       (let (sel, t1) = egress_selection_of snap backend t;
            upstream_wire = rewrite_dns_id (fk_dns_id key) (query_wire t1);
            (bind_v4, bind_v6, eg1) = bind_sources sel (fs_egress st1);
            st2 = st1\<lparr>fs_egress := eg1\<rparr> in
        if use_tcp_for_attempt ft t1 False
        then case ne_tcp env backend upstream_wire bind_v4 bind_v6 of
            Some wire \<Rightarrow> finish_response env ck snap key wire t1 st2
          | None \<Rightarrow> servfail ck snap (Some key) ''tcp_error'' (ck_started ck) t1 st2
        else
          let (socket, eg2) = udp_socket_for sel (fs_egress st2);
              st3 = st2\<lparr>fs_egress := eg2\<rparr> in
          if \<not> ne_send env socket backend upstream_wire
          then servfail ck snap (Some key) ''send_error'' (ck_started ck) t1 st3
          else case ne_recv env socket of
            Some (peer, datagram) \<Rightarrow>
              finish_response env ck snap key
                (udp_or_fallback env ft backend upstream_wire bind_v4 bind_v6 (take 4096 datagram))
                t1 st3
          | None \<Rightarrow>
             (let t2 = record_forward (ck_now ck) (ck_started ck) t1;
                  st4 = report_passive_outcome ck t2 snap backend True st3 in
              (Continue ResponseRules, set_rcode_name ''SERVFAIL'' t2,
               st4\<lparr>fs_table := tt_remove key (fs_table st4)\<rparr>)))))"

definition forward_handle ::
  "net_env \<Rightarrow> forward_transport \<Rightarrow> stage_clock \<Rightarrow> forward_snapshot \<Rightarrow> transaction \<Rightarrow> forward_state
    \<Rightarrow> stage_outcome \<times> transaction \<times> forward_state"
  where "forward_handle env ft ck snap t st =
    (case ft_mode ft of
       ModeSync \<Rightarrow> handle_sync env ft ck snap t st
     | ModeSubmit \<Rightarrow> handle_submit env ft ck snap t st)"

section \<open>The WaitResponse stage\<close>

record wait_stage =
  ws_parse_wire_meta :: bool
  ws_metrics_enabled :: bool

text \<open>The passive report hangs on the metrics being enabled and not yet recorded; the
  presence of a response decides about success.\<close>

definition record_forward_outcome ::
  "wait_stage \<Rightarrow> u64 \<Rightarrow> compiled_health \<Rightarrow> transaction \<times> health_registry option
    \<Rightarrow> transaction \<times> health_registry option"
  where "record_forward_outcome ws tick ch s =
    (case s of (t, health) \<Rightarrow>
       if \<not> ws_metrics_enabled ws \<or> forward_metrics_recorded t then s
       else
         let pool = (case selected_pool t of Some p \<Rightarrow> p | None \<Rightarrow> ''unknown'');
             success = (response_wire t \<noteq> None);
             t1 = t\<lparr>forward_metrics_recorded := True\<rparr> in
         case (health, selected_backend t1) of
           (Some registry, Some backend) \<Rightarrow>
             (t1, Some (snd (record_passive_forward_outcome tick ch pool backend (\<not> success) registry)))
         | _ \<Rightarrow> (t1, health))"

definition wait_handle ::
  "net_env \<Rightarrow> wait_stage \<Rightarrow> u64 \<Rightarrow> compiled_health \<Rightarrow> transaction \<times> health_registry option
    \<Rightarrow> stage_outcome \<times> transaction \<times> health_registry option"
  where "wait_handle env ws tick ch s =
    (let (t, health) = record_forward_outcome ws tick ch s;
         t1 = (case response_wire t of
             Some wire \<Rightarrow> record_upstream_response env wire (ws_parse_wire_meta ws) t
           | None \<Rightarrow> t) in
     (Continue ResponseRules, t1, health))"

section \<open>What the stages leave in the table\<close>

lemma report_passive_fields [simp]:
  "fs_table (report_passive_outcome ck t snap b f st) = fs_table st"
  "fs_io (report_passive_outcome ck t snap b f st) = fs_io st"
  "fs_inflight (report_passive_outcome ck t snap b f st) = fs_inflight st"
  "fs_egress (report_passive_outcome ck t snap b f st) = fs_egress st"
  by (simp_all add: report_passive_outcome_def Let_def split: option.splits)

lemma release_pool_fields [simp]:
  "fs_table (release_pool_inflight t st) = fs_table st"
  "fs_io (release_pool_inflight t st) = fs_io st"
  "fs_health (release_pool_inflight t st) = fs_health st"
  by (simp_all add: release_pool_inflight_def split: option.splits)

lemma acquire_pool_fields [simp]:
  "fs_table (snd (acquire_pool_inflight t st)) = fs_table st"
  "fs_io (snd (acquire_pool_inflight t st)) = fs_io st"
  by (simp_all add: acquire_pool_inflight_def Let_def split: option.splits)

lemma servfail_simps [simp]:
  "fst (servfail ck snap key reason started t st) = Continue Send"
  "fs_table (snd (snd (servfail ck snap None reason started t st))) = fs_table st"
  "fs_io (snd (snd (servfail ck snap None reason started t st))) = fs_io st"
  "fs_table (snd (snd (servfail ck snap (Some k) reason started t st))) = tt_remove k (fs_table st)"
  "fs_io (snd (snd (servfail ck snap (Some k) reason started t st)))
     = map_option (cancel_pending k) (fs_io st)"
  "fs_inflight (snd (snd (servfail ck snap key reason started t st))) = fs_inflight st"
  by (simp_all add: servfail_def Let_def split: option.splits)

lemma finish_response_simps [simp]:
  "fst (finish_response env ck snap key wire t st) = Continue ResponseRules"
  "fs_table (snd (snd (finish_response env ck snap key wire t st))) = tt_remove key (fs_table st)"
  "fs_io (snd (snd (finish_response env ck snap key wire t st))) = fs_io st"
  by (simp_all add: finish_response_def Let_def)

lemma register_forward_key_cases:
  assumes "tt_inv (fs_table st)"
  obtains (full) st1 where "register_forward_key ck snap b t st
      = (Err (servfail ck snap None ''table_full'' (ck_now ck) t st1), st1)"
      "tt_lookup (fs_table st1) = tt_lookup (fs_table st)" "tt_inv (fs_table st1)"
      "fs_io st1 = fs_io st"
  | (key) key st1 where "register_forward_key ck snap b t st = (Ok key, st1)"
      "st1 = st\<lparr>fs_table := fs_table st1\<rparr>"
      "tt_register_unique b (txn_id t) (fs_table st) = (Some key, fs_table st1)"
proof (cases "tt_register_unique b (txn_id t) (fs_table st)")
  case (Pair r tbl)
  show ?thesis
  proof (cases r)
    case None
    then show ?thesis
      using Pair demux.alloc_None [OF assms, of b "txn_id t" tbl]
      by (intro full [of "st\<lparr>fs_table := tbl\<rparr>"]) (auto simp: register_forward_key_def Let_def)
  next
    case (Some k)
    then show ?thesis
      using Pair by (intro key [of k "st\<lparr>fs_table := tbl\<rparr>"]) (auto simp: register_forward_key_def)
  qed
qed

text \<open>C35: A forward of the synchronous runtime leaves nothing behind: whatever the network
  does, when the stage returns no identifier is outstanding that was not before, and
  the next phase is Send or ResponseRules, never a suspension.\<close>

theorem handle_sync_leaves_no_key:
  assumes "tt_inv (fs_table st)"
  shows "let (outcome, t', st') = handle_sync env ft ck snap t st in
    tt_lookup (fs_table st') = tt_lookup (fs_table st)
    \<and> (outcome = Continue Send \<or> outcome = Continue ResponseRules)"
proof (cases "selected_backend t")
  case None
  then show ?thesis
    by (simp add: handle_sync_def Let_def mark_forward_started_def)
next
  case (Some b)
  show ?thesis
  proof (cases rule: register_forward_key_cases
      [OF assms, where ck = ck and snap = snap and b = b and t = "mark_forward_started (ck_started ck) t"])
    case (1 st1)
    then show ?thesis
      using Some by (simp add: handle_sync_def Let_def mark_forward_started_def split_beta)
  next
    case (2 key st1)
    have "tt_lookup (tt_remove key (fs_table st1)) = tt_lookup (fs_table st)"
      by (rule demux.alloc_free [OF assms 2(3)])
    then show ?thesis
      using Some 2(1)
      by (auto simp: handle_sync_def Let_def mark_forward_started_def split_beta
          split: option.splits if_splits)
  qed
qed

section \<open>A concrete environment\<close>

definition example_backend_addr :: socket_addr
  where "example_backend_addr = SocketV4 0x01010101 53"

text \<open>A network on which everything is sent and \<open>reply\<close> is received.\<close>

definition example_env :: "(socket_addr \<times> bytes) option \<Rightarrow> net_env"
  where "example_env reply =
    \<lparr>ne_send = \<lambda>_ _ _. True, ne_recv = \<lambda>_. reply, ne_tcp = \<lambda>_ _ _ _. None,
     ne_message = \<lambda>_. None\<rparr>"

definition example_transport :: "forward_mode \<Rightarrow> forward_transport"
  where "example_transport mode =
    \<lparr>ft_upstream_transport = UdpOnly, ft_client_tcp_uses_upstream_tcp = False, ft_mode = mode\<rparr>"

definition example_clock :: stage_clock
  where "example_clock = \<lparr>ck_started = 0, ck_now = 0, ck_tick = 0\<rparr>"

definition example_snapshot :: "u32 list \<Rightarrow> forward_snapshot"
  where "example_snapshot sources =
    \<lparr>sn_egress = \<lparr>ec_forward = \<lparr>cf_sources_v4 = sources, cf_sources_v6 = [],
       cf_source_selection = ''round_robin'', cf_upstream_transport = UdpOnly,
       cf_client_tcp_uses_upstream_tcp = False, cf_timeout_ms = 2000,
       cf_outstanding_per_backend = 100\<rparr>, ec_pool_forward = Map.empty\<rparr>,
     sn_health = [], sn_needs_response_wire_meta = False\<rparr>"

definition example_egress :: "u32 list \<Rightarrow> worker_egress"
  where "example_egress sources =
    \<lparr>eg_sockets_v4 = set sources, eg_sockets_v6 = {}, eg_forward_sources_v4 = sources,
     eg_forward_sources_v6 = [], eg_rr_index_v4 = 0, eg_rr_index_v6 = 0\<rparr>"

definition example_query :: "u16 \<Rightarrow> transaction"
  where "example_query client_id =
    (transaction_new 0 0 7 placeholder_addr Udp)\<lparr>dns_id := client_id,
       query_wire := replicate 12 0, selected_backend := Some example_backend_addr\<rparr>"

definition example_forward_state :: "u32 list \<Rightarrow> forward_state"
  where "example_forward_state sources =
    \<lparr>fs_egress = example_egress sources, fs_table = txn_table_new 10 10,
     fs_io = Some \<lparr>ib_shards = [io_shard_new 2000 (Some (example_egress sources))], ib_resumes = []\<rparr>,
     fs_inflight = None, fs_health = None\<rparr>"

lemmas example_defs = example_backend_addr_def example_env_def example_transport_def
  example_clock_def example_snapshot_def example_egress_def example_query_def
  example_forward_state_def

lemma example_forward_state_table [simp]:
  "fs_table (example_forward_state sources) = txn_table_new 10 10"
  by (simp add: example_forward_state_def)

theorem handle_sync_leaves_no_key_witness:
  "tt_lookup (fs_table (snd (snd (handle_sync (example_env None) (example_transport ModeSync)
      example_clock (example_snapshot []) (example_query 5) (example_forward_state [])))))
     = Map.empty"
  using handle_sync_leaves_no_key [of "example_forward_state []" "example_env None"
      "example_transport ModeSync" example_clock "example_snapshot []" "example_query 5"]
  by (simp add: Let_def split_beta)

section \<open>Submission\<close>

lemma servfail_abort:
  assumes "io_inv (tbl, io)" "tt_register_unique b v tbl = (Some key, tbl')"
  shows "tt_lookup (tt_remove key tbl') = tt_lookup tbl"
    and "io_inv (tt_remove key tbl', cancel_pending key
      (snd (io_udp_socket_for slot' sel (track_pending now key slot io))))"
    and "pend_slots (cancel_pending key
      (snd (io_udp_socket_for slot' sel (track_pending now key slot io)))) = pend_slots io"
    and "ib_resumes (cancel_pending key
      (snd (io_udp_socket_for slot' sel (track_pending now key slot io)))) = ib_resumes io"
proof -
  let ?io2 = "snd (io_udp_socket_for slot' sel (track_pending now key slot io))"
  show "tt_lookup (tt_remove key tbl') = tt_lookup tbl"
    by (rule demux.alloc_free [OF io_invD(1) [OF assms(1)] assms(2)])
  have inv: "io_inv (tbl', ?io2)"
    using submit_balance(1) [OF assms] by simp
  then show "io_inv (tt_remove key tbl', cancel_pending key ?io2)"
    by (rule abort_balance)
  have "pend_slots ?io2 = add_mset slot (pend_slots io)" "key_slots key ?io2 = {#slot#}"
    using submit_balance(2,3) [OF assms, of now slot] by (simp_all add: pend_slots_def key_slots_def)
  then show "pend_slots (cancel_pending key ?io2) = pend_slots io"
    using abort_balance(2) [OF inv, of key] by simp
  show "ib_resumes (cancel_pending key ?io2) = ib_resumes io"
    using abort_balance(3) [OF inv, of key] submit_balance(4) [OF assms, of now slot] by simp
qed

lemma track_socket:
  assumes "io_inv (tbl, io)" "tt_register_unique b v tbl = (Some key, tbl')"
  shows "io_inv (tbl', snd (io_udp_socket_for slot' sel (track_pending now key slot io)))"
    and "pend_slots (snd (io_udp_socket_for slot' sel (track_pending now key slot io)))
      = add_mset slot (pend_slots io)"
  using submit_balance(1,2) [OF assms, of now slot] by (simp_all add: pend_slots_def)

definition submit_ok ::
  "transaction \<Rightarrow> forward_state \<Rightarrow> io_backend \<Rightarrow> stage_outcome \<times> transaction \<times> forward_state \<Rightarrow> bool"
  where "submit_ok t st io r \<longleftrightarrow>
    (case r of (outcome, t', st') \<Rightarrow>
       \<exists>io'. fs_io st' = Some io' \<and> io_inv (fs_table st', io')
         \<and> (case outcome of
              Suspend ph \<Rightarrow> ph = WaitResponse
                \<and> (\<exists>key. selected_backend t = Some (fk_backend key)
                     \<and> tt_lookup (fs_table st) key = None
                     \<and> tt_lookup (fs_table st') = (tt_lookup (fs_table st))(key \<mapsto> txn_id t))
                \<and> pend_slots io' = add_mset (ucast (txn_id t)) (pend_slots io)
            | Continue ph \<Rightarrow> ph = Send \<and> tt_lookup (fs_table st') = tt_lookup (fs_table st)
                \<and> pend_slots io' = pend_slots io
            | Drop \<Rightarrow> False))"

lemma txn_id_mark [simp]: "txn_id (mark_forward_started i t) = txn_id t"
  by (simp add: mark_forward_started_def)

lemma txn_id_selection [simp]: "txn_id (snd (egress_selection_of snap b t)) = txn_id t"
  by (simp add: egress_selection_of_def Let_def split_beta take_effective_source_override_v4_def
      take_effective_source_override_v6_def split: option.splits if_splits)

lemma submit_after_register:
  assumes "io_inv (fs_table st, io)" "fs_io st = Some io" "selected_backend t = Some b"
    and "tt_register_unique b (txn_id t) (fs_table st) = (Some key, tbl)"
    and "fs_table st2 = tbl" "fs_io st2 = Some io" "txn_id t1 = txn_id t"
  shows "submit_ok t st io (submit_send env ck snap key b sel io t1 st2)"
proof -
  define io2 where "io2 = snd (io_udp_socket_for (ucast (txn_id t1)) sel
      (track_pending (ck_now ck) key (ucast (txn_id t1)) io))"
  note abort = servfail_abort(1) [OF assms(1,4)] servfail_abort(2-4) [OF assms(1,4), where now = "ck_now ck" and slot = "ucast (txn_id t1)"
      and slot' = "ucast (txn_id t1)" and sel = sel, folded io2_def]
  note track = track_socket [OF assms(1,4), where now = "ck_now ck" and slot = "ucast (txn_id t1)"
      and slot' = "ucast (txn_id t1)" and sel = sel, folded io2_def]
  have fail: "submit_ok t st io (servfail ck snap (Some key) reason (ck_started ck) t1
      (release_pool_inflight t1 (st2\<lparr>fs_io := Some io2\<rparr>)))" for reason
    using abort assms(5) by (simp add: submit_ok_def split_beta)
  have "fk_backend key = b" "tt_lookup (fs_table st) key = None"
    "tt_lookup tbl = (tt_lookup (fs_table st))(key \<mapsto> txn_id t)"
    using demux.alloc_Some [OF io_invD(1) [OF assms(1)] assms(4)] by auto
  then have ok: "submit_ok t st io (Suspend WaitResponse, t1, st2\<lparr>fs_io := Some io2\<rparr>)"
    using track assms(3,5,7) by (auto simp: submit_ok_def)
  show ?thesis
    using fail ok by (auto simp: submit_send_def Let_def split_beta io2_def split: sum.splits)
qed

text \<open>C34: A submission either suspends, with exactly one new outstanding identifier of the
  selected backend, registered for this transaction and pending on the shard of its
  slot, or answers with SERVFAIL and leaves the table and the pending forwards as they
  were, whichever step failed.\<close>

theorem handle_submit_tracks_or_cleans:
  assumes "io_inv (fs_table st, io)" "fs_io st = Some io"
  shows "submit_ok t st io (handle_submit env ft ck snap t st)"
proof (cases "selected_backend t")
  case None
  then show ?thesis
    using assms by (simp add: handle_submit_def Let_def mark_forward_started_def submit_ok_def split_beta)
next
  case (Some b)
  let ?t = "mark_forward_started (ck_started ck) t"
  have t: "selected_backend ?t = Some b"
    using Some by (simp add: mark_forward_started_def)
  show ?thesis
  proof (cases rule: register_forward_key_cases
      [OF io_invD(1) [OF assms(1)], where ck = ck and snap = snap and b = b and t = ?t])
    case (1 st1)
    then show ?thesis
      using t assms io_inv_table [OF assms(1), of "fs_table st1"]
      by (simp add: handle_submit_def Let_def submit_ok_def split_beta)
  next
    case (2 key st1)
    have reg: "tt_register_unique b (txn_id t) (fs_table st) = (Some key, fs_table st1)"
      using 2(3) by simp
    have io1: "fs_io st1 = Some io"
      using 2(2) assms(2) by (metis forward_state.select_convs(3) forward_state.surjective
          forward_state.update_convs(2))
    have free: "tt_lookup (tt_remove key (fs_table st1)) = tt_lookup (fs_table st)"
      by (rule demux.alloc_free [OF io_invD(1) [OF assms(1)] reg])
    have clean: "io_inv (tt_remove key (fs_table st1), io)"
      using io_inv_table [OF assms(1) _ free] tt_remove_inv demux.alloc_Some [OF io_invD(1) [OF assms(1)] reg]
      by simp
    then have refused: "submit_ok t st io (servfail ck snap None reason started u st')"
      if "fs_table st' = tt_remove key (fs_table st1)" "fs_io st' = Some io" for reason started u st'
      using that free by (simp add: submit_ok_def split_beta)
    show ?thesis
      using t 2(1) io1 refused submit_after_register [OF assms Some reg]
      by (simp add: handle_submit_def Let_def split_beta)
  qed
qed

theorem handle_submit_tracks_or_cleans_witness:
  "fst (handle_submit (example_env None) (example_transport ModeSubmit) example_clock
      (example_snapshot []) (example_query 5) (example_forward_state [])) = Suspend WaitResponse
   \<and> pend_slots (the (fs_io (snd (snd (handle_submit (example_env None) (example_transport ModeSubmit)
      example_clock (example_snapshot []) (example_query 5) (example_forward_state [])))))) = {#7#}"
proof -
  let ?r = "handle_submit (example_env None) (example_transport ModeSubmit) example_clock
      (example_snapshot []) (example_query 5) (example_forward_state [])"
  let ?io = "\<lparr>ib_shards = [io_shard_new 2000 (Some (example_egress []))], ib_resumes = []\<rparr>"
  have inv: "io_inv (fs_table (example_forward_state []), ?io)"
    using io_inv_init [of "[example_egress []]" 10 10 2000] by simp
  have io: "fs_io (example_forward_state []) = Some ?io"
    by (simp add: example_forward_state_def)
  have run: "fst ?r = Suspend WaitResponse"
    by (simp add: handle_submit_def example_defs transaction_new_def mark_forward_started_def
        register_forward_key_def tt_register_unique_def txn_table_new_def entry_or_zero_def
        free_key.simps acquire_pool_inflight_def use_tcp_for_attempt_def egress_selection_of_def
        take_effective_source_override_v4_def take_effective_source_override_v6_def
        submit_send_def io_udp_socket_for_def track_pending_def upd_shard_def shard_index_def
        shard_track_pending_def io_shard_new_def Let_def split_beta)
  have "txn_id (example_query 5) = 7"
    by (simp add: example_query_def transaction_new_def)
  moreover have "pend_slots ?io = {#}"
    by (simp add: pend_slots_def pend_def io_shard_new_def)
  ultimately show ?thesis
    using handle_submit_tracks_or_cleans [OF inv io, of "example_query 5" "example_env None"
        "example_transport ModeSubmit" example_clock "example_snapshot []"] run
    by (auto simp: submit_ok_def split_beta)
qed

section \<open>Observations on the synchronous path\<close>

text \<open>The reply is neither matched against the backend that was asked nor against the
  identifier that was sent: any datagram on the socket answers the query, and the
  client's identifier is written over the one it has.\<close>

lemma sync_accepts_any_reply:
  assumes "selected_backend t = Some b"
    and "fst (tt_register_unique b (txn_id t) (fs_table st)) \<noteq> None"
    and "ft_upstream_transport ft = UdpOnly"
    and "\<not> (ft_client_tcp_uses_upstream_tcp ft \<and> protocol t = Tcp)"
    and "ne_send env = (\<lambda>_ _ _. True)" "ne_recv env = (\<lambda>_. Some (peer, wire))"
  shows "response_wire (fst (snd (handle_sync env ft ck snap t st)))
    = Some (rewrite_dns_id (dns_id t) (take 4096 wire))"
proof -
  have fields: "dns_id (snd (egress_selection_of snap b u)) = dns_id u"
    "protocol (snd (egress_selection_of snap b u)) = protocol u" for u
    by (simp_all add: egress_selection_of_def Let_def split_beta take_effective_source_override_v4_def
        take_effective_source_override_v6_def split: option.splits if_splits)
  obtain key tbl where "tt_register_unique b (txn_id t) (fs_table st) = (Some key, tbl)"
    using assms(2) by (cases "tt_register_unique b (txn_id t) (fs_table st)") auto
  then show ?thesis
    using assms
    by (auto simp: handle_sync_def register_forward_key_def Let_def split_beta mark_forward_started_def
        use_tcp_for_attempt_def finish_response_def udp_or_fallback_def fields record_forward_def
        complete_forward_rtt_def)
qed

text \<open>Two sources, and the round-robin index advanced twice per query: every query of an
  IPv4 backend over UDP leaves from the second one.\<close>

lemma sync_udp_source_stuck:
  assumes "sock_is_ipv4 (sel_backend sel)" "sel_override_v4 sel = None"
    and "sel_pool_sources_v4 sel = [a, b]" "b \<in> eg_sockets_v4 eg" "even (unat (eg_rr_index_v4 eg))"
  shows "let (v4, v6, eg1) = bind_sources sel eg; (socket, eg2) = udp_socket_for sel eg1 in
    socket = V4 b \<and> eg_rr_index_v4 eg2 = eg_rr_index_v4 eg + 2 \<and> even (unat (eg_rr_index_v4 eg2))"
proof -
  have lsb: "even (unat x) \<longleftrightarrow> even x" for x :: u64
    by (metis bit_0 bit_unsigned_iff possible_bit_nat)
  have "odd (eg_rr_index_v4 eg + 1)" "even (eg_rr_index_v4 eg + 2)"
    using assms(5) by (simp_all add: lsb)
  then have "unat (eg_rr_index_v4 eg + 1) mod 2 = 1" "even (unat (eg_rr_index_v4 eg + 2))"
    using lsb odd_iff_mod_2_eq_one by blast+
  then show ?thesis
    using assms
    by (simp add: bind_sources_def udp_socket_for_def select_source_v4_def round_robin_v4_def
        rr_list_def Let_def split_beta numeral_2_eq_2 add.commute)
qed

text \<open>A timeout leaves an earlier answer on the transaction, and the wait stage takes it for
  the answer of the attempt that timed out.\<close>

lemma timeout_keeps_earlier_answer:
  assumes "response_wire t = Some wire" "selected_pool t = Some pool" "selected_backend t = Some b"
    and "ws_metrics_enabled ws" "\<not> forward_metrics_recorded t"
  shows "response_wire (apply_wait_completion now WcTimeout t) = Some wire"
    and "snd (record_forward_outcome ws tick ch (apply_wait_completion now WcTimeout t, Some registry))
      = Some (snd (record_passive_forward_outcome tick ch pool b False registry))"
  using assms
  by (auto simp: apply_wait_completion_def complete_forward_rtt_from_mark_def set_rcode_name_def
      record_forward_outcome_def Let_def split: option.splits)

end
