(* ===== verification/Dns_Message.thy ===== *)
theory Dns_Message
  imports Transaction
begin

text \<open>
  Parsed DNS messages.  The library that parses and emits them (\<open>hickory_proto\<close>) is a
  parameter, a record of functions \<open>dns_codec\<close>; \<open>dns_msg\<close> holds what the code reads and
  writes of a parsed message.
\<close>

record dns_rr =
  rr_name :: string
  rr_type :: u16
  rr_ttl :: u32
  rr_data :: bytes

text \<open>A client-subnet option with its encoding, which may fail, or another option.\<close>

datatype edns_option = OptSubnet "bytes option" | OptOther u16 bytes

fun edns_option_code_of :: "edns_option \<Rightarrow> u16"
  where
    "edns_option_code_of (OptSubnet enc) = 8"
  | "edns_option_code_of (OptOther c d) = c"

record dns_edns =
  edns_dnssec_ok :: bool
  edns_max_payload :: u16
  edns_options :: "edns_option list"

record dns_query =
  dq_name :: string
  dq_type :: u16
  dq_class :: u16

record dns_msg =
  dm_id :: u16
  dm_response :: bool
  dm_opcode :: u8
  dm_rcode_low :: u8
  dm_truncated :: bool
  dm_authoritative :: bool
  dm_checking_disabled :: bool
  dm_queries :: "dns_query list"
  dm_edns :: "dns_edns option"
  dm_answers :: "dns_rr list"
  dm_name_servers :: "dns_rr list"
  dm_additionals :: "dns_rr list"

text \<open>The library: parsing, emitting, what an emission that fails has written before, and the
  wire form of a name.\<close>

record dns_codec =
  dc_parse :: "bytes \<Rightarrow> dns_msg option"
  dc_emit :: "dns_msg \<Rightarrow> bytes option"
  dc_emit_partial :: "dns_msg \<Rightarrow> bytes"
  dc_name :: "string \<Rightarrow> bytes option"

text \<open>A new message, as the library makes it.\<close>

definition empty_msg :: dns_msg
  where "empty_msg = \<lparr>dm_id = 0, dm_response = False, dm_opcode = 0, dm_rcode_low = 0, dm_truncated = False,
    dm_authoritative = False, dm_checking_disabled = False, dm_queries = [], dm_edns = None,
    dm_answers = [], dm_name_servers = [], dm_additionals = []\<rparr>"

end
