(* ===== verification/Cache_Serve.thy ===== *)
theory Cache_Serve
  imports Cache_Store Forward Dns_Message
begin

text \<open>
  From queries to cache keys and from stored answers to served ones:
  \<open>lookup/cache/key.rs\<close>, \<open>lookup/cache/serve.rs\<close> and the lifetime of an answer in
  \<open>lookup/cache/memory.rs\<close>.

  What is shown: two queries have the same key exactly if they agree in the lower-cased
  name, the type, the class, the CD and DO bits, the shape and the client subnet; a
  served answer has the records of the stored one, each RRset rotated, with every TTL
  lowered by the age; a fresh entry never serves an answer or authority record whose
  TTL has run out.
\<close>

unbundle bit_operations_syntax

section \<open>Keys\<close>

datatype transport_key = KeyComplete | KeyUdpTruncated

fun transport_key_byte :: "transport_key \<Rightarrow> u8"
  where
    "transport_key_byte KeyComplete = 0"
  | "transport_key_byte KeyUdpTruncated = 2"

definition KEY_VERSION :: u8
  where "KEY_VERSION = 1"

definition u16_be_bytes :: "u16 \<Rightarrow> bytes"
  where "u16_be_bytes w = [ucast (drop_bit 8 w), ucast w]"

definition trim_end_dots :: "string \<Rightarrow> string"
  where "trim_end_dots s = rev (dropWhile (\<lambda>c. c = CHR ''.'') (rev s))"

definition normalize_qname :: "dns_codec \<Rightarrow> string \<Rightarrow> bytes option"
  where "normalize_qname dc name =
    (let lower = to_ascii_lowercase (trim_end_dots name);
         fqdn = (if lower = [] then ''.'' else if suffix ''.'' name then lower @ ''.'' else lower) in
     dc_name dc fqdn)"

definition dnssec_flags :: "dns_codec \<Rightarrow> bytes \<Rightarrow> (bool \<times> bool) option"
  where "dnssec_flags dc wire =
    (case dc_parse dc wire of
       None \<Rightarrow> None
     | Some msg \<Rightarrow> Some (dm_checking_disabled msg,
         case dm_edns msg of Some e \<Rightarrow> edns_dnssec_ok e | None \<Rightarrow> False))"

fun first_subnet :: "edns_option list \<Rightarrow> bytes option"
  where
    "first_subnet [] = Some []"
  | "first_subnet (OptSubnet enc # opts) = enc"
  | "first_subnet (OptOther c d # opts) = first_subnet opts"

definition ecs_option_bytes :: "dns_codec \<Rightarrow> bytes \<Rightarrow> bytes option"
  where "ecs_option_bytes dc wire =
    (case dc_parse dc wire of
       None \<Rightarrow> None
     | Some msg \<Rightarrow> (case dm_edns msg of None \<Rightarrow> Some [] | Some e \<Rightarrow> first_subnet (edns_options e)))"

definition build_key_from_parts ::
  "dns_codec \<Rightarrow> string \<Rightarrow> u16 \<Rightarrow> u16 \<Rightarrow> bytes \<Rightarrow> transport_key \<Rightarrow> cache_key option"
  where "build_key_from_parts dc name rtype rclass wire transport =
    (case dnssec_flags dc wire of
       None \<Rightarrow> None
     | Some (cd, do_bit) \<Rightarrow>
        (case ecs_option_bytes dc wire of
           None \<Rightarrow> None
         | Some ecs \<Rightarrow>
            (case normalize_qname dc name of
               None \<Rightarrow> None
             | Some normalized \<Rightarrow>
                Some (KEY_VERSION # u16_be_bytes (of_nat (length normalized)) @ normalized
                  @ u16_be_bytes rtype @ u16_be_bytes rclass
                  @ [(if cd then 2 else 0) OR (if do_bit then 1 else 0), transport_key_byte transport,
                     of_nat (length ecs)] @ ecs))))"

definition build_query_key :: "dns_codec \<Rightarrow> transaction \<Rightarrow> cache_key option"
  where "build_query_key dc t =
    build_key_from_parts dc (case qname t of Some n \<Rightarrow> n | None \<Rightarrow> ''.'')
      (case qtype t of Some v \<Rightarrow> v | None \<Rightarrow> 0) (case qclass t of Some v \<Rightarrow> v | None \<Rightarrow> 1)
      (query_wire t) KeyComplete"

definition build_truncated_udp_key :: "dns_codec \<Rightarrow> transaction \<Rightarrow> cache_key option"
  where "build_truncated_udp_key dc t =
    build_key_from_parts dc (case qname t of Some n \<Rightarrow> n | None \<Rightarrow> ''.'')
      (case qtype t of Some v \<Rightarrow> v | None \<Rightarrow> 0) (case qclass t of Some v \<Rightarrow> v | None \<Rightarrow> 1)
      (query_wire t) KeyUdpTruncated"

section \<open>Lifetime\<close>

definition answer_count_u16 :: "dns_msg \<Rightarrow> u16"
  where "answer_count_u16 msg =
    (let n = length (dm_answers msg) in if n < 65536 then of_nat n else 65535)"

definition msg_kind :: "dns_msg \<Rightarrow> entry_kind"
  where "msg_kind msg = kind_from_rcode (ucast (dm_rcode_low msg)) (answer_count_u16 msg)"

fun cacheable_ttl_from_rrset :: "u32 option \<Rightarrow> u32 \<Rightarrow> u32 option"
  where
    "cacheable_ttl_from_rrset None default_if_absent = Some default_if_absent"
  | "cacheable_ttl_from_rrset (Some t) default_if_absent = (if t = 0 then None else Some t)"

fun min_ttl_loop :: "u32 option \<Rightarrow> dns_rr list \<Rightarrow> u32 option"
  where
    "min_ttl_loop m [] = m"
  | "min_ttl_loop m (rr # rrs) =
      min_ttl_loop (Some (case m of None \<Rightarrow> rr_ttl rr | Some t \<Rightarrow> min t (rr_ttl rr))) rrs"

definition minimum_ttl_from_message :: "dns_msg \<Rightarrow> u32 option"
  where "minimum_ttl_from_message msg = min_ttl_loop None (dm_answers msg @ dm_name_servers msg)"

definition ttl_for_wire :: "dns_codec \<Rightarrow> bytes \<Rightarrow> bool \<Rightarrow> u32 \<Rightarrow> u32 option"
  where "ttl_for_wire dc wire negative_enabled servfail_ttl_secs =
    (case dc_parse dc wire of
       None \<Rightarrow> None
     | Some msg \<Rightarrow>
        (case msg_kind msg of
           ServFail \<Rightarrow> if servfail_ttl_secs = 0 then None else Some servfail_ttl_secs
         | NxDomain \<Rightarrow> if \<not> negative_enabled then None
             else cacheable_ttl_from_rrset (minimum_ttl_from_message msg) 300
         | NoData \<Rightarrow> if \<not> negative_enabled then None
             else cacheable_ttl_from_rrset (minimum_ttl_from_message msg) 300
         | Positive \<Rightarrow> cacheable_ttl_from_rrset (minimum_ttl_from_message msg) 60))"

definition entry_from_wire :: "dns_codec \<Rightarrow> bytes \<Rightarrow> bool \<Rightarrow> u32 \<Rightarrow> instant \<Rightarrow> cache_entry option"
  where "entry_from_wire dc wire negative_enabled servfail_ttl_secs now =
    (case dc_parse dc wire of
       None \<Rightarrow> None
     | Some msg \<Rightarrow>
        (case ttl_for_wire dc wire negative_enabled servfail_ttl_secs of
           None \<Rightarrow> None
         | Some ttl \<Rightarrow> Some \<lparr>ce_kind = msg_kind msg, ce_wire = wire, ce_filled_at = now,
             ce_expires_at = expires_at_from_ttl now ttl\<rparr>))"

section \<open>Serving\<close>

text \<open>The generator of rotation offsets, a state per thread.\<close>

definition next_serve_rand :: "u64 \<Rightarrow> u64"
  where "next_serve_rand s =
    (let x1 = s XOR drop_bit 12 s; x2 = x1 XOR push_bit 25 x1; x3 = x2 XOR drop_bit 27 x2 in
     x3 * 0x2545F4914F6CDD1D)"

definition cache_age_secs :: "instant \<Rightarrow> instant \<Rightarrow> u32"
  where "cache_age_secs filled_at now = as_secs_u32 (now - filled_at)"

definition decay_section :: "u32 \<Rightarrow> dns_rr list \<Rightarrow> dns_rr list"
  where "decay_section age rrs = map (\<lambda>rr. rr\<lparr>rr_ttl := sat_sub (rr_ttl rr) age\<rparr>) rrs"

definition decay_rr_ttls :: "u32 \<Rightarrow> dns_msg \<Rightarrow> dns_msg"
  where "decay_rr_ttls age msg =
    (if age = 0 then msg
     else msg\<lparr>dm_answers := decay_section age (dm_answers msg),
       dm_name_servers := decay_section age (dm_name_servers msg),
       dm_additionals := decay_section age (dm_additionals msg)\<rparr>)"

type_synonym rr_group = "(string \<times> u16) \<times> dns_rr list"

definition rr_key :: "dns_rr \<Rightarrow> string \<times> u16"
  where "rr_key rr = (rr_name rr, rr_type rr)"

fun push_group :: "dns_rr \<Rightarrow> rr_group list \<Rightarrow> rr_group list"
  where
    "push_group rr [] = [(rr_key rr, [rr])]"
  | "push_group rr ((k, rrs) # gs) =
      (if k = rr_key rr then (k, rrs @ [rr]) # gs else (k, rrs) # push_group rr gs)"

fun emit_groups :: "u64 \<Rightarrow> rr_group list \<Rightarrow> dns_rr list \<times> u64"
  where
    "emit_groups s [] = ([], s)"
  | "emit_groups s ((k, rrs) # gs) =
      (let s1 = (if 1 < length rrs then next_serve_rand s else s);
           rrs1 = (if 1 < length rrs then rotate (unat s1 mod length rrs) rrs else rrs);
           (rest, s2) = emit_groups s1 gs in
       (rrs1 @ rest, s2))"

definition rotate_answer_rrsets :: "u64 \<Rightarrow> dns_msg \<Rightarrow> dns_msg \<times> u64"
  where "rotate_answer_rrsets s msg =
    (if length (dm_answers msg) \<le> 1 then (msg, s)
     else
       let (answers, s1) = emit_groups s (fold push_group (dm_answers msg) []) in
       (msg\<lparr>dm_answers := answers\<rparr>, s1))"

definition apply_client_query :: "dns_codec \<Rightarrow> bytes \<Rightarrow> dns_msg \<Rightarrow> dns_msg option"
  where "apply_client_query dc wire msg =
    (case dc_parse dc wire of
       None \<Rightarrow> None
     | Some client \<Rightarrow>
        (let msg1 = msg\<lparr>dm_queries := dm_queries client\<rparr> in
         Some (case dm_edns client of Some e \<Rightarrow> msg1\<lparr>dm_edns := Some e\<rparr> | None \<Rightarrow> msg1)))"

text \<open>The message that is emitted, with the next state of the generator.\<close>

definition served_message ::
  "dns_codec \<Rightarrow> u64 \<Rightarrow> bytes \<Rightarrow> u16 \<Rightarrow> bool \<Rightarrow> instant \<Rightarrow> instant \<Rightarrow> bytes option
    \<Rightarrow> (dns_msg \<times> u64) option"
  where "served_message dc s stored query_id rotate_rrset filled_at now client_query_wire =
    (case dc_parse dc stored of
       None \<Rightarrow> None
     | Some msg \<Rightarrow>
        (let msg1 = msg\<lparr>dm_id := query_id\<rparr> in
         case (case client_query_wire of
             Some qw \<Rightarrow> apply_client_query dc qw msg1 | None \<Rightarrow> Some msg1) of
           None \<Rightarrow> None
         | Some msg2 \<Rightarrow>
            (let msg3 = decay_rr_ttls (cache_age_secs filled_at now) msg2 in
             Some (if rotate_rrset then rotate_answer_rrsets s msg3 else (msg3, s)))))"

definition prepare_served_wire ::
  "dns_codec \<Rightarrow> u64 \<Rightarrow> bytes \<Rightarrow> u16 \<Rightarrow> bool \<Rightarrow> instant \<Rightarrow> instant \<Rightarrow> bytes option
    \<Rightarrow> bytes option \<times> u64"
  where "prepare_served_wire dc s stored query_id rotate_rrset filled_at now client_query_wire =
    (case served_message dc s stored query_id rotate_rrset filled_at now client_query_wire of
       None \<Rightarrow> (None, s)
     | Some (msg, s1) \<Rightarrow> (dc_emit dc msg, s1))"

section \<open>Keys are exact\<close>

lemma u16_be_bytes_inj: "u16_be_bytes a = u16_be_bytes b \<longleftrightarrow> a = b"
  by (metis be_u16_bytes list.inject u16_be_bytes_def)

lemma length_u16_be_bytes [simp]: "length (u16_be_bytes a) = 2"
  by (simp add: u16_be_bytes_def)

text \<open>What a key is built from.\<close>

definition key_parts ::
  "dns_codec \<Rightarrow> string \<Rightarrow> bytes \<Rightarrow> ((bool \<times> bool) \<times> bytes \<times> bytes) option"
  where "key_parts dc name wire =
    (case (dnssec_flags dc wire, ecs_option_bytes dc wire, normalize_qname dc name) of
       (Some flags, Some ecs, Some normalized) \<Rightarrow> Some (flags, ecs, normalized)
     | _ \<Rightarrow> None)"

lemma flag_byte_inj:
  "(if cd then 2 else 0) OR (if d then 1 else 0) = ((if cd' then 2 else 0) OR (if d' then 1 else 0) :: u8)
    \<longleftrightarrow> cd = cd' \<and> d = d'"
  by (cases cd; cases d; cases cd'; cases d') simp_all

lemma transport_key_byte_inj: "transport_key_byte a = transport_key_byte b \<longleftrightarrow> a = b"
  by (cases a; cases b) simp_all

lemma u16_length_inj:
  assumes "n < 65536" "m < 65536" "(of_nat n :: u16) = of_nat m"
  shows "n = m"
proof -
  have "unat (of_nat n :: u16) = n" "unat (of_nat m :: u16) = m"
    using assms(1,2) by (simp_all add: unat_of_nat_small)
  then show ?thesis
    using assms(3) by metis
qed

lemma build_key_Some:
  "build_key_from_parts dc name rtype rclass wire transport = Some key \<longleftrightarrow>
   (\<exists>cd d ecs normalized. key_parts dc name wire = Some ((cd, d), ecs, normalized)
     \<and> key = KEY_VERSION # u16_be_bytes (of_nat (length normalized)) @ normalized
         @ u16_be_bytes rtype @ u16_be_bytes rclass
         @ [(if cd then 2 else 0) OR (if d then 1 else 0), transport_key_byte transport, of_nat (length ecs)] @ ecs)"
  by (auto simp: build_key_from_parts_def key_parts_def split: option.splits)


definition example_codec :: dns_codec
  where "example_codec = \<lparr>dc_parse = (\<lambda>_. Some \<lparr>dm_id = 0, dm_response = True, dm_opcode = 0, dm_rcode_low = 0, dm_truncated = False,
      dm_authoritative = False, dm_checking_disabled = False, dm_queries = [], dm_edns = None,
      dm_answers = [], dm_name_servers = [], dm_additionals = []\<rparr>),
    dc_emit = (\<lambda>_. None), dc_emit_partial = (\<lambda>_. []),
    dc_name = (\<lambda>s. if length s < 256 then Some (map of_char s) else None)\<rparr>"


text \<open>Mixed-case names share their key.\<close>

lemma normalize_qname_ignores_case:
  assumes "eq_ignore_ascii_case a b"
  shows "normalize_qname dc a = normalize_qname dc b"
proof -
  have low: "map to_lower a = map to_lower b"
    using assms by (simp add: eq_ignore_ascii_case_def)
  have dot: "(to_lower c = CHR ''.'') = (c = CHR ''.'')" for c
    by (cases c) (auto simp: to_lower_def Let_def split: if_splits)
  have tail: "map to_lower (trim_end_dots s) = trim_end_dots (map to_lower s)" for s
    by (simp add: trim_end_dots_def rev_map dropWhile_map comp_def dot)
  have ends: "suffix ''.'' s = (s \<noteq> [] \<and> to_lower (last s) = CHR ''.'')" for s
    unfolding dot by (cases s rule: rev_cases) auto
  have nil: "(a = []) = (b = [])"
    using low by (metis map_is_Nil_conv)
  have "a \<noteq> [] \<Longrightarrow> to_lower (last a) = to_lower (last b)"
    using nil last_map [of a to_lower] last_map [of b to_lower] low by simp
  then have "suffix ''.'' a = suffix ''.'' b"
    unfolding ends using nil by auto
  then show ?thesis
    by (simp add: normalize_qname_def to_ascii_lowercase_def tail low Let_def)
qed

section \<open>What is served\<close>

lemma push_group_keys: "set (map fst (push_group r gs)) = insert (rr_key r) (set (map fst gs))"
  by (induction r gs rule: push_group.induct) auto

lemma push_group_distinct: "distinct (map fst gs) \<Longrightarrow> distinct (map fst (push_group r gs))"
proof (induction r gs rule: push_group.induct)
  case (2 rr k rrs gs)
  then show ?case
    using push_group_keys [of rr gs] by auto
qed simp

lemma push_group_concat: "mset (concat (map snd (push_group r gs))) = add_mset r (mset (concat (map snd gs)))"
  by (induction r gs rule: push_group.induct) auto

definition group_of :: "string \<times> u16 \<Rightarrow> rr_group list \<Rightarrow> dns_rr list"
  where "group_of k gs = concat (map snd (filter (\<lambda>g. fst g = k) gs))"

lemma group_of_absent: "k \<notin> fst ` set gs \<Longrightarrow> group_of k gs = []"
  by (auto simp: group_of_def filter_empty_conv image_iff)

lemma group_of_simps [simp]:
  "group_of k [] = []"
  "group_of k ((k', rrs) # gs) = (if k' = k then rrs @ group_of k gs else group_of k gs)"
  by (simp_all add: group_of_def)

lemma push_group_of:
  "distinct (map fst gs) \<Longrightarrow> group_of k (push_group r gs) = group_of k gs @ (if rr_key r = k then [r] else [])"
proof (induction r gs rule: push_group.induct)
  case (2 rr k' rrs gs)
  then show ?case
    using group_of_absent [of k gs] by auto
qed simp

definition groups_keyed :: "rr_group list \<Rightarrow> bool"
  where "groups_keyed gs \<longleftrightarrow> distinct (map fst gs) \<and> (\<forall>(k, rrs) \<in> set gs. \<forall>r \<in> set rrs. rr_key r = k)"

lemma push_group_keyed: "groups_keyed gs \<Longrightarrow> groups_keyed (push_group r gs)"
proof -
  have "\<forall>(k, rrs) \<in> set gs. \<forall>r \<in> set rrs. rr_key r = k \<Longrightarrow>
      \<forall>(k, rrs) \<in> set (push_group r gs). \<forall>r \<in> set rrs. rr_key r = k"
    by (induction r gs rule: push_group.induct) auto
  then show "groups_keyed gs \<Longrightarrow> groups_keyed (push_group r gs)"
    by (simp add: groups_keyed_def push_group_distinct)
qed

lemma groups_of_answers:
  "groups_keyed (fold push_group xs []) \<and> group_of k (fold push_group xs []) = filter (\<lambda>r. rr_key r = k) xs
    \<and> mset (concat (map snd (fold push_group xs []))) = mset xs"
proof (induction xs rule: rev_induct)
  case Nil
  then show ?case
    by (simp add: groups_keyed_def group_of_def)
next
  case (snoc x xs)
  then show ?case
    using push_group_of [of "fold push_group xs []" k x] push_group_concat [of x "fold push_group xs []"]
    by (auto simp: push_group_keyed) (simp_all add: groups_keyed_def)
qed

lemma mset_rotate: "mset (rotate n xs) = mset xs"
  unfolding rotate_drop_take by (metis append_take_drop_id mset_append union_commute)

lemma emit_groups_mset: "mset (fst (emit_groups s gs)) = mset (concat (map snd gs))"
  by (induction s gs rule: emit_groups.induct) (auto simp: Let_def mset_rotate split: prod.splits)

lemma emit_groups_rotates:
  "groups_keyed gs \<Longrightarrow>
   \<exists>n. filter (\<lambda>r. rr_key r = k) (fst (emit_groups s gs)) = rotate n (group_of k gs)"
proof (induction s gs rule: emit_groups.induct)
  case (1 s)
  then show ?case
    by (simp add: group_of_def)
next
  case (2 s k' rrs gs)
  let ?s1 = "if 1 < length rrs then next_serve_rand s else s"
  obtain m where m: "(if 1 < length rrs then rotate (unat ?s1 mod length rrs) rrs else rrs) = rotate m rrs"
    by (metis rotate0 id_apply)
  have out: "fst (emit_groups s ((k', rrs) # gs)) = rotate m rrs @ fst (emit_groups ?s1 gs)"
    using m by (cases "1 < length rrs") (auto simp: Let_def split: prod.splits)
  have keyed: "groups_keyed gs" "\<forall>r \<in> set rrs. rr_key r = k'" "k' \<notin> fst ` set gs"
    using 2(2) by (auto simp: groups_keyed_def)
  obtain n where n: "filter (\<lambda>r. rr_key r = k) (fst (emit_groups ?s1 gs)) = rotate n (group_of k gs)"
    using 2(1) [OF refl refl keyed(1)] by blast
  show ?case
  proof (cases "k = k'")
    case True
    then have "filter (\<lambda>r. rr_key r = k) (rotate m rrs) = rotate m rrs"
      using keyed(2) by (simp add: filter_id_conv)
    moreover have "group_of k gs = []"
      using keyed(3) True by (intro group_of_absent) simp
    ultimately have "filter (\<lambda>r. rr_key r = k) (fst (emit_groups s ((k', rrs) # gs)))
        = rotate m (group_of k ((k', rrs) # gs))"
      unfolding out using n True by simp
    then show ?thesis
      by blast
  next
    case False
    then have "filter (\<lambda>r. rr_key r = k) (rotate m rrs) = []"
      using keyed(2) by (auto simp: filter_empty_conv)
    then have "filter (\<lambda>r. rr_key r = k) (fst (emit_groups s ((k', rrs) # gs)))
        = rotate n (group_of k ((k', rrs) # gs))"
      unfolding out using n False by simp
    then show ?thesis
      by blast
  qed
qed

lemma decay_section_0: "decay_section 0 rrs = rrs"
  by (simp add: decay_section_def sat_sub_def)

lemma decay_rr_ttls_eq:
  "decay_rr_ttls age msg = msg\<lparr>dm_answers := decay_section age (dm_answers msg),
     dm_name_servers := decay_section age (dm_name_servers msg),
     dm_additionals := decay_section age (dm_additionals msg)\<rparr>"
  by (simp add: decay_rr_ttls_def decay_section_0)

lemma rotate_answer_rrsets_spec:
  assumes "rotate_answer_rrsets s msg = (msg', s')"
  shows "msg' = msg\<lparr>dm_answers := dm_answers msg'\<rparr> \<and> mset (dm_answers msg') = mset (dm_answers msg)
    \<and> (\<exists>n. filter (\<lambda>r. rr_key r = k) (dm_answers msg') = rotate n (filter (\<lambda>r. rr_key r = k) (dm_answers msg)))"
proof (cases "length (dm_answers msg) \<le> 1")
  case True
  then have "msg' = msg"
    using assms by (simp add: rotate_answer_rrsets_def)
  then show ?thesis
    by (simp add: exI [of _ 0])
next
  case False
  let ?gs = "fold push_group (dm_answers msg) []"
  have "msg' = msg\<lparr>dm_answers := fst (emit_groups s ?gs)\<rparr>"
    using False assms by (auto simp: rotate_answer_rrsets_def split: prod.splits)
  then show ?thesis
    using groups_of_answers [of "dm_answers msg" k] emit_groups_rotates [of ?gs k s] emit_groups_mset [of s ?gs]
    by auto
qed

lemma served_message_core:
  assumes "served_message dc s stored query_id rotate_rrset filled_at now (Some qw) = Some (msg', s')"
  obtains msg client ans where "dc_parse dc stored = Some msg" "dc_parse dc qw = Some client"
    "msg' = decay_rr_ttls (cache_age_secs filled_at now) (msg\<lparr>dm_id := query_id, dm_queries := dm_queries client,
        dm_edns := (case dm_edns client of Some e \<Rightarrow> Some e | None \<Rightarrow> dm_edns msg)\<rparr>)\<lparr>dm_answers := ans\<rparr>"
    "\<not> rotate_rrset \<longrightarrow> ans = decay_section (cache_age_secs filled_at now) (dm_answers msg)"
    "mset ans = mset (decay_section (cache_age_secs filled_at now) (dm_answers msg))"
    "\<And>k. \<exists>n. filter (\<lambda>r. rr_key r = k) ans
      = rotate n (filter (\<lambda>r. rr_key r = k) (decay_section (cache_age_secs filled_at now) (dm_answers msg)))"
proof -
  obtain msg where msg: "dc_parse dc stored = Some msg"
    using assms by (auto simp: served_message_def split: option.splits)
  obtain client where client: "dc_parse dc qw = Some client"
    using assms msg by (auto simp: served_message_def apply_client_query_def Let_def split: option.splits)
  let ?edns = "case dm_edns client of Some e \<Rightarrow> Some e | None \<Rightarrow> dm_edns msg"
  let ?msg2 = "msg\<lparr>dm_id := query_id, dm_queries := dm_queries client, dm_edns := ?edns\<rparr>"
  let ?msg3 = "decay_rr_ttls (cache_age_secs filled_at now) ?msg2"
  have ans3: "dm_answers ?msg3 = decay_section (cache_age_secs filled_at now) (dm_answers msg)"
    by (simp add: decay_rr_ttls_eq)
  have "apply_client_query dc qw (msg\<lparr>dm_id := query_id\<rparr>) = Some ?msg2"
    using client by (cases msg) (auto simp: apply_client_query_def Let_def split: option.splits)
  then have r: "(if rotate_rrset then rotate_answer_rrsets s ?msg3 else (?msg3, s)) = (msg', s')"
    using assms msg by (simp add: served_message_def Let_def)
  have "msg' = ?msg3\<lparr>dm_answers := dm_answers msg'\<rparr> \<and> mset (dm_answers msg') = mset (dm_answers ?msg3)
      \<and> (\<exists>n. filter (\<lambda>r. rr_key r = k) (dm_answers msg') = rotate n (filter (\<lambda>r. rr_key r = k) (dm_answers ?msg3)))
      \<and> (\<not> rotate_rrset \<longrightarrow> dm_answers msg' = dm_answers ?msg3)" for k
  proof (cases rotate_rrset)
    case True
    then show ?thesis
      using rotate_answer_rrsets_spec [of s ?msg3 msg' s' k] r by simp
  next
    case False
    then have "msg' = ?msg3"
      using r by simp
    then show ?thesis
      by (auto intro: exI [of _ 0])
  qed
  then show ?thesis
    unfolding ans3 by (intro that [OF msg client, of "dm_answers msg'"]) blast+
qed

text \<open>C19: What is served from the cache.  The served message has the identifier of the query and the
  client's question; its records are the stored ones with every TTL lowered by the age of the entry
  and cut at zero; without rotation they are in the stored order, and with rotation nothing is
  lost or repeated and each RRset of the answer is a rotation of the stored RRset.\<close>

theorem served_message_spec:
  assumes "served_message dc s stored query_id rotate_rrset filled_at now (Some qw) = Some (msg', s')"
  shows "\<exists>msg client. dc_parse dc stored = Some msg \<and> dc_parse dc qw = Some client
    \<and> dm_id msg' = query_id \<and> dm_queries msg' = dm_queries client
    \<and> dm_rcode_low msg' = dm_rcode_low msg \<and> dm_truncated msg' = dm_truncated msg
    \<and> (let decayed = decay_section (cache_age_secs filled_at now) in
        dm_name_servers msg' = decayed (dm_name_servers msg)
      \<and> dm_additionals msg' = decayed (dm_additionals msg)
      \<and> (\<not> rotate_rrset \<longrightarrow> dm_answers msg' = decayed (dm_answers msg))
      \<and> mset (dm_answers msg') = mset (decayed (dm_answers msg))
      \<and> (\<forall>k. \<exists>n. filter (\<lambda>r. rr_key r = k) (dm_answers msg')
                  = rotate n (filter (\<lambda>r. rr_key r = k) (decayed (dm_answers msg)))))"
  using assms by (rule served_message_core) (simp add: decay_rr_ttls_eq Let_def)

definition example_rr :: "u32 \<Rightarrow> bytes \<Rightarrow> dns_rr"
  where "example_rr ttl data = \<lparr>rr_name = ''a.'', rr_type = 1, rr_ttl = ttl, rr_data = data\<rparr>"

definition example_answer :: "dns_rr list \<Rightarrow> dns_msg"
  where "example_answer rrs = \<lparr>dm_id = 7, dm_response = True, dm_opcode = 0, dm_rcode_low = 0, dm_truncated = False, dm_authoritative = False,
    dm_checking_disabled = False, dm_queries = [\<lparr>dq_name = ''a.'', dq_type = 1, dq_class = 1\<rparr>],
    dm_edns = None, dm_answers = rrs, dm_name_servers = [], dm_additionals = []\<rparr>"

definition answer_codec :: dns_codec
  where "answer_codec = \<lparr>dc_parse = (\<lambda>w. if w = [] then None
      else Some (example_answer [example_rr 300 [1], example_rr 200 [2]])),
    dc_emit = (\<lambda>msg. Some [ucast (dm_id msg)]), dc_emit_partial = (\<lambda>_. []), dc_name = (\<lambda>s. Some [])\<rparr>"

theorem served_message_spec_witness:
  "\<exists>msg' s'. served_message answer_codec 1 [9] 5 True 0 (from_secs 100) (Some [8]) = Some (msg', s')
    \<and> mset (dm_answers msg') = {#example_rr 200 [1], example_rr 100 [2]#} \<and> dm_id msg' = 5"
proof -
  have "served_message answer_codec 1 [9] 5 True 0 (from_secs 100) (Some [8]) \<noteq> None"
    by (simp add: served_message_def answer_codec_def apply_client_query_def Let_def split: option.splits)
  then obtain msg' s' where r:
    "served_message answer_codec 1 [9] 5 True 0 (from_secs 100) (Some [8]) = Some (msg', s')"
    by auto
  have "decay_section (cache_age_secs 0 (from_secs 100)) [example_rr 300 [1], example_rr 200 [2]]
      = [example_rr 200 [1], example_rr 100 [2]]"
    by (simp add: decay_section_def cache_age_secs_def as_secs_u32_def from_secs_def example_rr_def sat_sub_def)
  then show ?thesis
    using served_message_spec [OF r] r
    by (intro exI [of _ msg'] exI [of _ s']) (auto simp: answer_codec_def example_answer_def Let_def)
qed

section \<open>Freshness and TTLs\<close>

lemma min_ttl_loop_le:
  "min_ttl_loop m rrs = Some t \<Longrightarrow> (\<forall>t0. m = Some t0 \<longrightarrow> t \<le> t0) \<and> (\<forall>rr \<in> set rrs. t \<le> rr_ttl rr)"
proof (induction m rrs rule: min_ttl_loop.induct)
  case (2 m rr rrs)
  then show ?case
    by (cases m) auto
qed simp

lemma min_ttl_loop_Some: "rrs \<noteq> [] \<or> m \<noteq> None \<Longrightarrow> \<exists>t. min_ttl_loop m rrs = Some t"
  by (induction m rrs rule: min_ttl_loop.induct) auto

text \<open>The lifetime of an entry that is not a server failure is at most every TTL of its records.\<close>

lemma ttl_for_wire_le:
  assumes "dc_parse dc wire = Some msg" "ttl_for_wire dc wire neg sf = Some ttl" "msg_kind msg \<noteq> ServFail"
    and "rr \<in> set (dm_answers msg @ dm_name_servers msg)"
  shows "ttl \<le> rr_ttl rr"
proof -
  have "dm_answers msg @ dm_name_servers msg \<noteq> []"
    using assms(4) by force
  then obtain t where t: "minimum_ttl_from_message msg = Some t"
    using min_ttl_loop_Some unfolding minimum_ttl_from_message_def by blast
  then have "ttl = t"
    using assms(1-3) by (auto simp: ttl_for_wire_def split: entry_kind.splits if_splits)
  then show ?thesis
    using min_ttl_loop_le t assms(4) unfolding minimum_ttl_from_message_def by blast
qed

lemma ttl_for_wire_pos: "ttl_for_wire dc wire neg sf = Some ttl \<Longrightarrow> 0 < ttl"
  by (auto simp: ttl_for_wire_def word_gt_0 split: option.splits entry_kind.splits if_splits
      elim!: cacheable_ttl_from_rrset.elims)

lemma entry_from_wireD:
  assumes "entry_from_wire dc wire neg sf filled = Some e"
  obtains msg ttl where "dc_parse dc wire = Some msg" "ttl_for_wire dc wire neg sf = Some ttl"
    "ce_kind e = msg_kind msg" "ce_wire e = wire" "ce_filled_at e = filled"
    "ce_expires_at e = filled + from_secs (unat ttl)"
  using assms by (auto simp: entry_from_wire_def expires_at_from_ttl_def split: option.splits)

lemma age_below_ttl:
  assumes "filled \<le> now" "now < filled + from_secs (unat (ttl :: u32))"
  shows "cache_age_secs filled now < ttl"
proof -
  have age: "(now - filled) div 1000000000 < unat ttl"
    using assms by (simp add: from_secs_def less_mult_imp_div_less)
  then have "(now - filled) div 1000000000 < 2 ^ 32"
    using unat_u32_less [of ttl] by simp
  then show ?thesis
    using age by (simp add: cache_age_secs_def as_secs_u32_def Let_def word_less_nat_alt unat_of_nat_small)
qed

lemma decayed_pos:
  assumes "age < ttl" "\<forall>rr \<in> set rrs. ttl \<le> rr_ttl rr"
  shows "\<forall>rr \<in> set (decay_section age rrs). 0 < rr_ttl rr"
  using assms by (auto simp: decay_section_def word_less_nat_alt word_le_nat_alt sat_sub_unat)

text \<open>C20: A fresh entry never serves an answer or authority record that has run out.  Whatever the answer
  was but a server failure, every answer and authority record served from a fresh entry still has a
  positive TTL.  Two things are left out because they do not hold: the records of a server failure,
  which is kept for a configured time whatever their TTLs, and the additional records, whose TTLs do
  not count towards the lifetime of the entry.\<close>

theorem fresh_entry_serves_live_records:
  assumes e: "entry_from_wire dc wire neg sf filled = Some e" and kind: "ce_kind e \<noteq> ServFail"
    and fresh: "is_fresh now e" "filled \<le> now"
    and served: "served_message dc s (ce_wire e) query_id rotate_rrset (ce_filled_at e) now (Some qw) = Some (msg', s')"
  shows "\<forall>rr \<in> set (dm_answers msg' @ dm_name_servers msg'). 0 < rr_ttl rr"
proof -
  obtain msg ttl where d: "dc_parse dc wire = Some msg" "ttl_for_wire dc wire neg sf = Some ttl"
    "ce_kind e = msg_kind msg" "ce_wire e = wire" "ce_filled_at e = filled"
    "ce_expires_at e = filled + from_secs (unat ttl)"
    using e by (rule entry_from_wireD)
  let ?age = "cache_age_secs filled now"
  have age: "?age < ttl"
    using fresh d(6) by (intro age_below_ttl) (simp_all add: is_fresh_def)
  have le: "\<forall>rr \<in> set (dm_answers msg). ttl \<le> rr_ttl rr" "\<forall>rr \<in> set (dm_name_servers msg). ttl \<le> rr_ttl rr"
    using ttl_for_wire_le [OF d(1,2)] kind d(3) by auto
  note pos = decayed_pos [OF age le(1)] decayed_pos [OF age le(2)]
  have "dm_name_servers msg' = decay_section ?age (dm_name_servers msg)
      \<and> mset (dm_answers msg') = mset (decay_section ?age (dm_answers msg))"
    using served by (rule served_message_core) (use d in \<open>simp add: decay_rr_ttls_eq\<close>)
  then have "set (dm_answers msg' @ dm_name_servers msg')
      = set (decay_section ?age (dm_answers msg)) \<union> set (decay_section ?age (dm_name_servers msg))"
    by (metis mset_eq_setD set_append)
  then show ?thesis
    using pos by blast
qed

theorem fresh_entry_serves_live_records_witness:
  "\<exists>e msg' s'. entry_from_wire answer_codec [9] True 30 0 = Some e \<and> is_fresh (from_secs 199) e
    \<and> served_message answer_codec 1 (ce_wire e) 5 True (ce_filled_at e) (from_secs 199) (Some [8]) = Some (msg', s')
    \<and> (\<forall>rr \<in> set (dm_answers msg' @ dm_name_servers msg'). 0 < rr_ttl rr)"
proof -
  let ?e = "\<lparr>ce_kind = Positive, ce_wire = [9], ce_filled_at = 0, ce_expires_at = from_secs 200\<rparr>"
  have e: "entry_from_wire answer_codec [9] True 30 0 = Some ?e"
    by (simp add: entry_from_wire_def ttl_for_wire_def answer_codec_def example_answer_def msg_kind_def
        answer_count_u16_def kind_from_rcode_def minimum_ttl_from_message_def example_rr_def
        expires_at_from_ttl_def min_def Let_def)
  have fresh: "is_fresh (from_secs 199) ?e"
    by (simp add: is_fresh_def from_secs_def)
  have "served_message answer_codec 1 [9] 5 True 0 (from_secs 199) (Some [8]) \<noteq> None"
    by (simp add: served_message_def answer_codec_def apply_client_query_def Let_def split: option.splits)
  then obtain msg' s' where r:
    "served_message answer_codec 1 [9] 5 True 0 (from_secs 199) (Some [8]) = Some (msg', s')"
    by auto
  show ?thesis
    using e fresh r fresh_entry_serves_live_records [OF e _ fresh, of 1 5 True "[8]" msg' s']
    by (intro exI [of _ ?e] exI [of _ msg'] exI [of _ s']) simp
qed

end
