(* ===== verification/Flight.thy ===== *)
theory Flight
  imports Cache_Store "HOL-Library.Multiset"
begin

text \<open>
  Single flight: the gate that lets one query for a cache key go upstream while the others wait,
  and the table of gates (\<open>conduit-core/src/lookup/cache/inflight.rs\<close>).

  A gate is shared by everyone who holds it, also after the table has forgotten it, so the table
  maps keys to addresses in a store of gates that only grows.  Every method runs under the lock of
  the gate: one step.  Blocking in \<open>wait_for_result\<close> is the step \<open>wait_poll\<close>, which tells whether
  the wait is over.

  What is shown: on any sequence of calls a gate has one leader per flight, it hands every waiting
  query out exactly once, and a new flight drops nobody.
\<close>

section \<open>The gate\<close>

datatype in_flight_role = Leader | Follower

record gate =
  gt_leader_active :: bool
  gt_result :: "bytes option"
  gt_waiters :: "u64 list"

definition gate_fresh :: gate
  where "gate_fresh = \<lparr>gt_leader_active = False, gt_result = None, gt_waiters = []\<rparr>"

definition gate_register :: "u64 \<Rightarrow> bool \<Rightarrow> gate \<Rightarrow> in_flight_role \<times> gate"
  where "gate_register txn async_wait g =
    (if gt_leader_active g
     then (Follower, if async_wait then g\<lparr>gt_waiters := gt_waiters g @ [txn]\<rparr> else g)
     else (Leader, g\<lparr>gt_result := None, gt_waiters := [], gt_leader_active := True\<rparr>))"

text \<open>One turn of the waiting loop: \<open>None\<close> to wait on, or the value it returns.  \<open>expired\<close> tells that
  the time is up.\<close>

definition wait_poll :: "bool \<Rightarrow> gate \<Rightarrow> bytes option option"
  where "wait_poll expired g =
    (if gt_result g = None \<and> gt_leader_active g then if expired then Some None else None
     else Some (gt_result g))"

definition gate_complete :: "bytes option \<Rightarrow> gate \<Rightarrow> u64 list \<times> gate"
  where "gate_complete wire g =
    (gt_waiters g, g\<lparr>gt_result := wire, gt_leader_active := False, gt_waiters := []\<rparr>)"

definition gate_has_result :: "gate \<Rightarrow> bool"
  where "gate_has_result g \<longleftrightarrow> gt_result g \<noteq> None"

definition gate_reset :: "gate \<Rightarrow> gate"
  where "gate_reset g = gate_fresh"

section \<open>The table\<close>

record flight_table =
  ft_flights :: "(cache_key \<times> nat) list"
  ft_gates :: "gate list"

definition flight_table_new :: flight_table
  where "flight_table_new = \<lparr>ft_flights = [], ft_gates = []\<rparr>"

definition gate_for :: "cache_key \<Rightarrow> flight_table \<Rightarrow> nat \<times> flight_table"
  where "gate_for key t =
    (case map_of (ft_flights t) key of
       Some i \<Rightarrow> (i, t)
     | None \<Rightarrow> (length (ft_gates t),
         t\<lparr>ft_flights := (key, length (ft_gates t)) # ft_flights t, ft_gates := ft_gates t @ [gate_fresh]\<rparr>))"

definition flight_remove :: "cache_key \<Rightarrow> flight_table \<Rightarrow> flight_table"
  where "flight_remove key t = t\<lparr>ft_flights := AList.delete key (ft_flights t)\<rparr>"

definition table_register :: "nat \<Rightarrow> u64 \<Rightarrow> bool \<Rightarrow> flight_table \<Rightarrow> in_flight_role \<times> flight_table"
  where "table_register i txn async_wait t =
    (let (role, g) = gate_register txn async_wait (ft_gates t ! i) in (role, t\<lparr>ft_gates := (ft_gates t)[i := g]\<rparr>))"

definition table_complete :: "nat \<Rightarrow> bytes option \<Rightarrow> flight_table \<Rightarrow> u64 list \<times> flight_table"
  where "table_complete i wire t =
    (let (ws, g) = gate_complete wire (ft_gates t ! i) in (ws, t\<lparr>ft_gates := (ft_gates t)[i := g]\<rparr>))"

definition flights_ok :: "flight_table \<Rightarrow> bool"
  where "flights_ok t \<longleftrightarrow> distinct (map fst (ft_flights t)) \<and> distinct (map snd (ft_flights t))
    \<and> (\<forall>(k, i) \<in> set (ft_flights t). i < length (ft_gates t))
    \<and> (\<forall>g \<in> set (ft_gates t). \<not> gt_leader_active g \<longrightarrow> gt_waiters g = [])"

section \<open>Sequences of calls on a gate\<close>

datatype gate_call = CallRegister u64 bool | CallComplete "bytes option"

text \<open>What a run has seen: leaders, completions, the queries told to wait, those handed out.\<close>

record gate_log =
  gl_leaders :: nat
  gl_completions :: nat
  gl_parked :: "u64 multiset"
  gl_woken :: "u64 multiset"

fun gate_step :: "gate_call \<Rightarrow> gate \<times> gate_log \<Rightarrow> gate \<times> gate_log"
  where
    "gate_step (CallRegister txn async_wait) (g, l) =
      (case gate_register txn async_wait g of
         (Leader, g') \<Rightarrow> (g', l\<lparr>gl_leaders := gl_leaders l + 1\<rparr>)
       | (Follower, g') \<Rightarrow> (g', if async_wait then l\<lparr>gl_parked := add_mset txn (gl_parked l)\<rparr> else l))"
  | "gate_step (CallComplete wire) (g, l) =
      (case gate_complete wire g of (ws, g') \<Rightarrow>
        (g', l\<lparr>gl_woken := gl_woken l + mset ws,
           gl_completions := gl_completions l + (if gt_leader_active g then 1 else 0)\<rparr>))"

definition gate_run :: "gate_call list \<Rightarrow> gate \<times> gate_log"
  where "gate_run calls = fold gate_step calls
    (gate_fresh, \<lparr>gl_leaders = 0, gl_completions = 0, gl_parked = {#}, gl_woken = {#}\<rparr>)"

definition log_ok :: "gate \<times> gate_log \<Rightarrow> bool"
  where "log_ok = (\<lambda>(g, l).
    gl_leaders l = gl_completions l + (if gt_leader_active g then 1 else 0)
    \<and> gl_parked l = gl_woken l + mset (gt_waiters g)
    \<and> (\<not> gt_leader_active g \<longrightarrow> gt_waiters g = []))"

lemma log_ok_step: "log_ok s \<Longrightarrow> log_ok (gate_step c s)"
  by (cases c; cases s) (auto simp: log_ok_def gate_register_def gate_complete_def)

lemma log_ok_run: "log_ok (gate_run calls)"
proof -
  have "log_ok s \<Longrightarrow> log_ok (fold gate_step calls s)" for s
    by (induction calls arbitrary: s) (simp_all add: log_ok_step)
  then show ?thesis by (simp add: gate_run_def log_ok_def gate_fresh_def)
qed

text \<open>C13: On any sequence of registrations and completions a gate is a single flight: as many
  leaders as completed flights, plus the one under way; and every query told to wait is handed out
  exactly once, the ones not yet handed out being the waiters of the flight under way.\<close>

theorem single_flight:
  "case gate_run calls of (g, l) \<Rightarrow>
    gl_leaders l = gl_completions l + (if gt_leader_active g then 1 else 0)
    \<and> gl_parked l = gl_woken l + mset (gt_waiters g)
    \<and> (gt_waiters g = [] \<or> gt_leader_active g)"
  using log_ok_run [of calls] by (auto simp: log_ok_def split: prod.splits)

section \<open>The table keeps its invariant\<close>

lemma flights_ok_new: "flights_ok flight_table_new"
  by (simp add: flights_ok_def flight_table_new_def)

lemma gate_for_spec:
  assumes "flights_ok t"
  shows "flights_ok (snd (gate_for key t)) \<and> map_of (ft_flights (snd (gate_for key t))) key = Some (fst (gate_for key t))
    \<and> fst (gate_for key t) < length (ft_gates (snd (gate_for key t)))"
proof (cases "map_of (ft_flights t) key")
  case None
  then have "key \<notin> fst ` set (ft_flights t)" by (simp add: map_of_eq_None_iff)
  moreover have "length (ft_gates t) \<notin> snd ` set (ft_flights t)"
    using assms by (auto simp: flights_ok_def)
  ultimately show ?thesis
    using assms None by (auto simp: gate_for_def flights_ok_def gate_fresh_def)
next
  case (Some i)
  then show ?thesis
    using assms by (auto simp: gate_for_def flights_ok_def dest!: map_of_SomeD)
qed

lemma flight_remove_ok: "flights_ok t \<Longrightarrow> flights_ok (flight_remove key t)"
  by (auto simp: flights_ok_def flight_remove_def delete_filter distinct_map_filter)

lemma flight_remove_gone: "map_of (ft_flights (flight_remove key t)) key = None"
  by (simp add: flight_remove_def delete_conv')

lemma flights_ok_update:
  assumes "flights_ok t" "\<not> gt_leader_active g \<longrightarrow> gt_waiters g = []"
  shows "flights_ok (t\<lparr>ft_gates := (ft_gates t)[i := g]\<rparr>)"
  using assms set_update_subset_insert [of "ft_gates t" i g] by (auto simp: flights_ok_def)

lemma table_register_ok: "flights_ok t \<Longrightarrow> flights_ok (snd (table_register i txn async t))"
  using flights_ok_update [of t "snd (gate_register txn async (ft_gates t ! i))" i]
  by (auto simp: table_register_def gate_register_def Let_def)

lemma table_complete_ok: "flights_ok t \<Longrightarrow> flights_ok (snd (table_complete i wire t))"
  by (auto simp: table_complete_def gate_complete_def intro!: flights_ok_update)

end
