(* ===== verification/Selectors.thy ===== *)
theory Selectors
  imports Complex_Main Transaction
begin

text \<open>
  The selectors of rules, sinks and tracing: \<open>conduit-events/src/selectors.rs\<close> and
  \<open>conduit-core/src/selector_ctx.rs\<close>.

  Floating point is over the reals with a rounding function \<open>fl\<close> as parameter; the hash
  of the standard library behind keyed sampling is the parameter \<open>hash\<close>, and membership of
  the client in a CIDR data source the parameter \<open>cidr\<close>.

  What is shown: every selector that validates compiles; an every-nth selector matches
  exactly one of any \<open>n\<close> consecutive indices; sampling grows with the percentage; name
  selectors compare bytes, so that a query in another case or an unrelated name with the same
  ending is treated differently from what a DNS suffix suggests.
\<close>

section \<open>Floating point numbers as text\<close>

definition span :: "(char \<Rightarrow> bool) \<Rightarrow> string \<Rightarrow> string \<times> string"
  where "span P s = (takeWhile P s, dropWhile P s)"

definition read_sign :: "string \<Rightarrow> bool \<times> string"
  where "read_sign s = (case s of
      c # cs \<Rightarrow> if c = CHR ''-'' then (True, cs) else if c = CHR ''+'' then (False, cs) else (False, s)
    | [] \<Rightarrow> (False, s))"

datatype f64 = F64 real | F64_infinite | F64_nan

text \<open>The part after the mantissa: nothing, or \<open>e\<close> with a signed number.\<close>

definition read_exponent :: "string \<Rightarrow> int option"
  where "read_exponent s = (case s of
      [] \<Rightarrow> Some 0
    | c # cs \<Rightarrow>
       (if c = CHR ''e'' \<or> c = CHR ''E''
        then let (neg, ds) = read_sign cs in
          if ds \<noteq> [] \<and> list_all is_digit ds
          then Some (if neg then - int (digits_val ds) else int (digits_val ds)) else None
        else None))"

definition parse_f64 :: "(real \<Rightarrow> real) \<Rightarrow> string \<Rightarrow> f64 option"
  where "parse_f64 fl s =
    (let (neg, s1) = read_sign s in
     if eq_ignore_ascii_case s1 ''inf'' \<or> eq_ignore_ascii_case s1 ''infinity'' then Some F64_infinite
     else if eq_ignore_ascii_case s1 ''nan'' then Some F64_nan
     else
       let (whole, s2) = span is_digit s1;
           (frac, s3) = (case s2 of c # cs \<Rightarrow> if c = CHR ''.'' then span is_digit cs else ([], s2) | [] \<Rightarrow> ([], s2)) in
       if whole = [] \<and> frac = [] then None
       else case read_exponent s3 of
         None \<Rightarrow> None
       | Some e \<Rightarrow>
          (let m = real (digits_val (whole @ frac)) * 10 powi (e - int (length frac)) in
           Some (F64 (fl (if neg then - m else m)))))"

section \<open>Selectors\<close>

record selector_cfg =
  sel_type :: string
  sel_value :: string
  sel_key :: "string option"
  sel_key_from :: "string option"

datatype sample_key = KeyGlobal | KeyLiteral string | KeyFromQname

datatype answer_source_selector = SelCache | SelForward

datatype compiled_selector =
    QnameSuffix string
  | QnameExact string
  | SelQtype u16
  | SelRcode u16
  | SelQclass u16
  | SelOpcode u8
  | SelEdnsOption u16
  | SelTag string
  | SelAnswerSource answer_source_selector
  | SelCacheInstance string
  | SamplePercent u16 sample_key
  | EveryNthWorker u64
  | EveryNthGlobal u64
  | ClientCidr string

record selector_compile_ctx =
  scc_rule_name :: "string option"
  scc_sink_name :: "string option"

record selector_match_ctx =
  sm_txn_id :: u64
  sm_global_query_index :: u64
  sm_qname :: "string option"
  sm_qtype :: "u16 option"
  sm_rcode :: "u16 option"
  sm_qclass :: "u16 option"
  sm_opcode :: "u8 option"
  sm_edns_option_codes :: "u16 list"
  sm_answer_source :: "string option"
  sm_cache_instance :: "string option"
  sm_tag_has :: "string \<Rightarrow> bool"
  sm_client_cidr_match :: "(string \<Rightarrow> bool) option"

definition SELECTOR_TYPES :: "string list"
  where "SELECTOR_TYPES = [''qname_suffix'', ''qname_exact'', ''qtype'', ''rcode'', ''qclass'', ''opcode'',
    ''edns_option'', ''tag'', ''answer_source'', ''cache_instance'', ''sample_percent'',
    ''every_nth_worker'', ''every_nth_global'', ''client_cidr'']"

definition RULE_ONLY_SELECTOR_TYPES :: "string list"
  where "RULE_ONLY_SELECTOR_TYPES = [''every_nth_worker'', ''every_nth_global'', ''client_cidr'']"

definition validate_selector_type :: "string \<Rightarrow> (string, unit) result"
  where "validate_selector_type ty =
    (if ty \<in> set SELECTOR_TYPES then Ok () else Err (''unknown selector type '' @ squote ty))"

definition validate_non_rule_selector_type :: "string \<Rightarrow> (string, unit) result"
  where "validate_non_rule_selector_type ty =
    rbind (validate_selector_type ty) (\<lambda>_.
      if ty \<in> set RULE_ONLY_SELECTOR_TYPES
      then Err (''selector type '' @ squote ty @ '' is only valid in rules selectors'') else Ok ())"

definition parse_answer_source :: "string \<Rightarrow> (string, answer_source_selector) result"
  where "parse_answer_source value =
    (let v = to_ascii_lowercase (trim value) in
     if v = ''cache'' then Ok SelCache else if v = ''forward'' then Ok SelForward
     else Err (''answer_source '' @ squote v @ '' must be cache or forward''))"

definition validate_wire_selector_value :: "string \<Rightarrow> string \<Rightarrow> (string, unit) result"
  where "validate_wire_selector_value ty value =
    (if ty \<in> {''qtype'', ''rcode'', ''qclass'', ''opcode'', ''edns_option''}
     then rbind (parse_selector_wire_value ty value) (\<lambda>_. Ok ())
     else if ty = ''answer_source'' then rbind (parse_answer_source value) (\<lambda>_. Ok ())
     else Ok ())"

definition nonempty_opt :: "string option \<Rightarrow> string option"
  where "nonempty_opt k = (case k of Some s \<Rightarrow> if s = [] then None else Some s | None \<Rightarrow> None)"

definition validate_sample_key_from :: "string \<Rightarrow> bool \<Rightarrow> bool \<Rightarrow> (string, unit) result"
  where "validate_sample_key_from from allow_rule_name allow_sink_name =
    (if from = ''qname'' then Ok ()
     else if from = ''rule_name'' \<and> allow_rule_name then Ok ()
     else if from = ''sink_name'' \<and> allow_sink_name then Ok ()
     else if from = ''rule_name''
     then Err ''sample_percent key_from 'rule_name' is only valid on rule selectors''
     else if from = ''sink_name''
     then Err ''sample_percent key_from 'sink_name' is only valid on event sink filters''
     else Err (''sample_percent key_from '' @ squote from @ '' must be qname, rule_name, or sink_name''))"

definition validate_selector_sample_key_fields ::
  "selector_cfg \<Rightarrow> bool \<Rightarrow> bool \<Rightarrow> (string, unit) result"
  where "validate_selector_sample_key_fields sel allow_rule_name allow_sink_name =
    (if sel_type sel \<noteq> ''sample_percent''
     then (if nonempty_opt (sel_key sel) \<noteq> None \<or> nonempty_opt (sel_key_from sel) \<noteq> None
       then Err (''selector type '' @ squote (sel_type sel) @ '' does not support key or key_from'') else Ok ())
     else case (nonempty_opt (sel_key sel), nonempty_opt (sel_key_from sel)) of
       (Some _, Some _) \<Rightarrow> Err ''sample key and key_from are mutually exclusive''
     | (Some _, None) \<Rightarrow> Ok ()
     | (None, Some from) \<Rightarrow> validate_sample_key_from from allow_rule_name allow_sink_name
     | (None, None) \<Rightarrow> Ok ())"

definition compile_sample_key_from ::
  "string \<Rightarrow> selector_compile_ctx \<Rightarrow> bool \<Rightarrow> bool \<Rightarrow> (string, sample_key) result"
  where "compile_sample_key_from from ctx allow_rule_name allow_sink_name =
    (if from = ''qname'' then Ok KeyFromQname
     else if from = ''rule_name'' \<and> allow_rule_name
     then (case scc_rule_name ctx of
         Some name \<Rightarrow> Ok (KeyLiteral name)
       | None \<Rightarrow> Err ''sample_percent key_from rule_name requires a rule compile context'')
     else if from = ''sink_name'' \<and> allow_sink_name
     then (case scc_sink_name ctx of
         Some name \<Rightarrow> Ok (KeyLiteral name)
       | None \<Rightarrow> Err ''sample_percent key_from sink_name requires a sink compile context'')
     else if from = ''rule_name''
     then Err ''sample_percent key_from 'rule_name' is only valid on rule selectors''
     else if from = ''sink_name''
     then Err ''sample_percent key_from 'sink_name' is only valid on event sink filters''
     else Err (''sample_percent key_from '' @ squote from @ '' must be qname, rule_name, or sink_name''))"

definition compile_sample_key_fields ::
  "string option \<Rightarrow> string option \<Rightarrow> selector_compile_ctx \<Rightarrow> bool \<Rightarrow> bool \<Rightarrow> (string, sample_key) result"
  where "compile_sample_key_fields key key_from ctx allow_rule_name allow_sink_name =
    (case (nonempty_opt key, nonempty_opt key_from) of
       (Some _, Some _) \<Rightarrow> Err ''sample key and key_from are mutually exclusive''
     | (Some literal, None) \<Rightarrow> Ok (KeyLiteral literal)
     | (None, Some from) \<Rightarrow> compile_sample_key_from from ctx allow_rule_name allow_sink_name
     | (None, None) \<Rightarrow> Ok KeyGlobal)"

definition parse_sample_percent :: "(real \<Rightarrow> real) \<Rightarrow> string \<Rightarrow> (string, real) result"
  where "parse_sample_percent fl value =
    (case parse_f64 fl (trim value) of
       None \<Rightarrow> Err (''sample_percent selector value '' @ squote value @ '' is not a number'')
     | Some (F64 p) \<Rightarrow> if 0 \<le> p \<and> p \<le> 100 then Ok p
         else Err (''sample_percent selector value '' @ squote value @ '' must be in [0, 100]'')
     | Some _ \<Rightarrow> Err (''sample_percent selector value '' @ squote value @ '' must be in [0, 100]''))"

definition parse_percent_key :: "(real \<Rightarrow> real) \<Rightarrow> string \<Rightarrow> (string, u16) result"
  where "parse_percent_key fl value =
    rbind (parse_sample_percent fl value) (\<lambda>p. Ok (of_int \<lfloor>fl (p * 100) + 1 / 2\<rfloor>))"

definition parse_every_nth :: "string \<Rightarrow> (string, u64) result"
  where "parse_every_nth value =
    (case parse_u64 (trim value) of
       None \<Rightarrow> Err (''every_nth selector value '' @ squote value @ '' must be an integer >= 1'')
     | Some n \<Rightarrow> if n = 0 then Err ''every_nth selector value must be >= 1'' else Ok n)"

definition compile_selector ::
  "(real \<Rightarrow> real) \<Rightarrow> selector_compile_ctx \<Rightarrow> selector_cfg \<Rightarrow> (string, compiled_selector) result"
  where "compile_selector fl ctx sel =
    (let ty = sel_type sel; v = sel_value sel in
     if ty = ''qname_exact'' then Ok (QnameExact v)
     else if ty = ''qtype'' then rbind (parse_selector_wire_value ''qtype'' v) (\<lambda>n. Ok (SelQtype n))
     else if ty = ''rcode'' then rbind (parse_selector_wire_value ''rcode'' v) (\<lambda>n. Ok (SelRcode n))
     else if ty = ''qclass'' then rbind (parse_selector_wire_value ''qclass'' v) (\<lambda>n. Ok (SelQclass n))
     else if ty = ''opcode'' then rbind (parse_selector_wire_value ''opcode'' v) (\<lambda>n. Ok (SelOpcode (ucast n)))
     else if ty = ''edns_option''
     then rbind (parse_selector_wire_value ''edns_option'' v) (\<lambda>n. Ok (SelEdnsOption n))
     else if ty = ''tag'' then Ok (SelTag v)
     else if ty = ''answer_source'' then rbind (parse_answer_source v) (\<lambda>a. Ok (SelAnswerSource a))
     else if ty = ''cache_instance''
     then (if trim v = [] then Err ''cache_instance selector value must be non-empty'' else Ok (SelCacheInstance v))
     else if ty = ''sample_percent''
     then rbind (parse_percent_key fl v) (\<lambda>percent.
       rbind (compile_sample_key_fields (sel_key sel) (sel_key_from sel) ctx
           (scc_rule_name ctx \<noteq> None) (scc_sink_name ctx \<noteq> None)) (\<lambda>key.
         Ok (SamplePercent percent key)))
     else if ty = ''every_nth_worker'' then rbind (parse_every_nth v) (\<lambda>n. Ok (EveryNthWorker n))
     else if ty = ''every_nth_global'' then rbind (parse_every_nth v) (\<lambda>n. Ok (EveryNthGlobal n))
     else if ty = ''client_cidr''
     then (if trim v = [] then Err ''client_cidr selector value must be a cidr data source name'' else Ok (ClientCidr v))
     else Ok (QnameSuffix v))"

definition compile_selectors_with_ctx ::
  "(real \<Rightarrow> real) \<Rightarrow> selector_compile_ctx \<Rightarrow> selector_cfg list \<Rightarrow> (string, compiled_selector list) result"
  where "compile_selectors_with_ctx fl ctx sels = traverse (compile_selector fl ctx) sels"

definition compile_rule_selectors ::
  "(real \<Rightarrow> real) \<Rightarrow> string \<Rightarrow> selector_cfg list \<Rightarrow> (string, compiled_selector list) result"
  where "compile_rule_selectors fl rule_name sels =
    compile_selectors_with_ctx fl \<lparr>scc_rule_name = Some rule_name, scc_sink_name = None\<rparr> sels"

definition compile_sink_selectors ::
  "(real \<Rightarrow> real) \<Rightarrow> string \<Rightarrow> selector_cfg list \<Rightarrow> (string, compiled_selector list) result"
  where "compile_sink_selectors fl sink_name sels =
    compile_selectors_with_ctx fl \<lparr>scc_rule_name = None, scc_sink_name = Some sink_name\<rparr> sels"

section \<open>Matching\<close>

definition matches_every_nth :: "u64 \<Rightarrow> u64 \<Rightarrow> bool"
  where "matches_every_nth index n = (1 \<le> n \<and> n \<noteq> 0 \<and> index mod n = 0)"

definition as_fraction :: "(real \<Rightarrow> real) \<Rightarrow> u16 \<Rightarrow> real"
  where "as_fraction fl p = fl (real (unat p) / 10000)"

definition resolve_sample_key :: "sample_key \<Rightarrow> selector_match_ctx \<Rightarrow> string option"
  where "resolve_sample_key key ctx =
    (case key of KeyGlobal \<Rightarrow> None | KeyLiteral s \<Rightarrow> Some s | KeyFromQname \<Rightarrow> sm_qname ctx)"

definition sample_bucket :: "(u64 \<Rightarrow> string \<Rightarrow> u64) \<Rightarrow> u64 \<Rightarrow> string option \<Rightarrow> u64"
  where "sample_bucket hash txn key =
    (case nonempty_opt key of
       None \<Rightarrow> (txn * 0x9E3779B97F4A7C15) mod 10000
     | Some salt \<Rightarrow> hash txn salt mod 10000)"

definition hash_sample_keyed ::
  "(real \<Rightarrow> real) \<Rightarrow> (u64 \<Rightarrow> string \<Rightarrow> u64) \<Rightarrow> u64 \<Rightarrow> real \<Rightarrow> string option \<Rightarrow> bool"
  where "hash_sample_keyed fl hash txn rate key =
    (if 1 \<le> rate then True else if rate \<le> 0 then False
     else unat (sample_bucket hash txn key) < nat \<lfloor>fl (rate * 10000)\<rfloor>)"

definition matches_ctx ::
  "(real \<Rightarrow> real) \<Rightarrow> (u64 \<Rightarrow> string \<Rightarrow> u64) \<Rightarrow> selector_match_ctx \<Rightarrow> compiled_selector \<Rightarrow> bool"
  where "matches_ctx fl hash ctx sel =
    (case sel of
       QnameSuffix s \<Rightarrow> (case sm_qname ctx of Some q \<Rightarrow> suffix s q | None \<Rightarrow> False)
     | QnameExact name \<Rightarrow> sm_qname ctx = Some name
     | SelQtype wire \<Rightarrow> sm_qtype ctx = Some wire
     | SelRcode wire \<Rightarrow> sm_rcode ctx = Some wire
     | SelQclass wire \<Rightarrow> sm_qclass ctx = Some wire
     | SelOpcode wire \<Rightarrow> sm_opcode ctx = Some wire
     | SelEdnsOption wire \<Rightarrow> wire \<in> set (sm_edns_option_codes ctx)
     | SelTag key \<Rightarrow> sm_tag_has ctx key
     | SelAnswerSource expected \<Rightarrow>
         (case sm_answer_source ctx of
            Some s \<Rightarrow> expected = SelCache \<and> s = ''cache'' \<or> expected = SelForward \<and> s = ''forward''
          | None \<Rightarrow> False)
     | SelCacheInstance name \<Rightarrow> sm_cache_instance ctx = Some name
     | SamplePercent percent key \<Rightarrow>
         if key = KeyFromQname \<and> sm_qname ctx = None then False
         else hash_sample_keyed fl hash (sm_txn_id ctx) (as_fraction fl percent) (resolve_sample_key key ctx)
     | EveryNthWorker n \<Rightarrow> matches_every_nth (sm_txn_id ctx) n
     | EveryNthGlobal n \<Rightarrow> matches_every_nth (sm_global_query_index ctx) n
     | ClientCidr name \<Rightarrow> (case sm_client_cidr_match ctx of Some f \<Rightarrow> f name | None \<Rightarrow> False))"

definition answer_source_str :: "answer_source \<Rightarrow> string"
  where "answer_source_str s = (case s of FromCache \<Rightarrow> ''cache'' | FromForward \<Rightarrow> ''forward'')"

definition match_ctx_of :: "(string \<Rightarrow> bool) option \<Rightarrow> transaction \<Rightarrow> selector_match_ctx"
  where "match_ctx_of client_cidr_match t =
    \<lparr>sm_txn_id = txn_id t, sm_global_query_index = global_query_index t, sm_qname = qname t,
     sm_qtype = qtype t, sm_rcode = txn_rcode t, sm_qclass = qclass t, sm_opcode = opcode t,
     sm_edns_option_codes = edns_option_codes t,
     sm_answer_source = map_option answer_source_str (answer_source_of t),
     sm_cache_instance = cache_instance t, sm_tag_has = (\<lambda>k. tag_has k (txn_tags t)),
     sm_client_cidr_match = client_cidr_match\<rparr>"

section \<open>Properties\<close>

lemma dvd_window_unique:
  assumes "n dvd a + k" "n dvd a + k'" "k < n" "k' < (n :: nat)"
  shows "k = k'"
proof (rule ccontr)
  assume "k \<noteq> k'"
  moreover have "n dvd (a + k) - (a + k')" "n dvd (a + k') - (a + k)"
    using assms(1,2) dvd_diff_nat by blast+
  ultimately show False
    using assms(3,4) by (auto dest!: dvd_imp_le)
qed

lemma dvd_window_exists: "0 < (n :: nat) \<Longrightarrow> \<exists>k < n. n dvd a + k"
proof (cases "a mod n = 0")
  case True
  then show "0 < n \<Longrightarrow> ?thesis"
    by (auto intro: exI [of _ 0])
next
  case False
  assume "0 < n"
  moreover have "(a + (n - a mod n)) mod n = 0"
    using \<open>0 < n\<close> by (metis add.assoc le_add_diff_inverse mod_add_left_eq mod_less_divisor mod_self nat_less_le)
  ultimately show ?thesis
    using False by (intro exI [of _ "n - a mod n"]) auto
qed

text \<open>An every-nth selector takes exactly one of any \<open>n\<close> consecutive indices.\<close>

lemma matches_every_nth_exactly_one:
  assumes "n \<noteq> 0" "unat (a :: u64) + unat n < 2 ^ 64"
  shows "\<exists>!k. k < unat n \<and> matches_every_nth (a + of_nat k) n"
proof -
  have n: "0 < unat n"
    using assms(1) by (simp add: unat_gt_0)
  have iff: "matches_every_nth (a + of_nat k) n \<longleftrightarrow> unat n dvd unat a + k" if "k < unat n" for k
  proof -
    have "k < 2 ^ 64" "unat a + k < 2 ^ 64"
      using that assms(2) by simp_all
    then have "unat (a + of_nat k) = unat a + k"
      by (simp add: unat_word_ariths unat_of_nat_small)
    moreover have "(a + of_nat k) mod n = 0 \<longleftrightarrow> unat (a + of_nat k) mod unat n = 0"
      unfolding unat_mod [symmetric] by (simp add: unat_eq_zero)
    ultimately show ?thesis
      using assms(1) by (simp add: matches_every_nth_def one_le_word_iff mod_eq_0_iff_dvd)
  qed
  then show ?thesis
    using dvd_window_exists [OF n, of "unat a"] dvd_window_unique [of "unat n" "unat a"] by blast
qed

text \<open>A higher percentage samples more.\<close>

lemma hash_sample_mono:
  assumes "mono fl" "rate \<le> rate'" "hash_sample_keyed fl hash txn rate key"
  shows "hash_sample_keyed fl hash txn rate' key"
proof -
  have "\<lfloor>fl (rate * 10000)\<rfloor> \<le> \<lfloor>fl (rate' * 10000)\<rfloor>"
    using assms(1,2) by (intro floor_mono monoD [OF assms(1)]) simp
  then show ?thesis
    using assms(2,3) by (auto simp: hash_sample_keyed_def split: if_splits)
qed

text \<open>Name selectors compare bytes: another spelling of the same domain name does not match, and a
  name outside of the domain may.\<close>

lemma qname_suffix_bytewise:
  "\<not> matches_ctx fl hash (match_ctx_of cidr (t\<lparr>qname := Some ''www.EXAMPLE.com.''\<rparr>)) (QnameSuffix ''example.com.'')"
  "matches_ctx fl hash (match_ctx_of cidr (t\<lparr>qname := Some ''notexample.com.''\<rparr>)) (QnameSuffix ''example.com.'')"
  by (simp_all add: matches_ctx_def match_ctx_of_def suffix_def)

text \<open>What validation accepts, compilation accepts.\<close>

definition valid_rule_selector :: "(real \<Rightarrow> real) \<Rightarrow> selector_cfg \<Rightarrow> bool"
  where "valid_rule_selector fl sel \<longleftrightarrow> validate_selector_type (sel_type sel) = Ok ()
    \<and> validate_wire_selector_value (sel_type sel) (sel_value sel) = Ok ()
    \<and> validate_selector_sample_key_fields sel True False = Ok ()
    \<and> (sel_type sel \<in> {''cache_instance'', ''client_cidr''} \<longrightarrow> trim (sel_value sel) \<noteq> [])
    \<and> (sel_type sel = ''sample_percent'' \<longrightarrow> (\<exists>p. parse_sample_percent fl (sel_value sel) = Ok p))
    \<and> (sel_type sel \<in> {''every_nth_worker'', ''every_nth_global''} \<longrightarrow> (\<exists>n. parse_every_nth (sel_value sel) = Ok n))"

lemma valid_sample_key_compiles:
  assumes "validate_selector_sample_key_fields sel True False = Ok ()" "sel_type sel = ''sample_percent''"
  shows "\<exists>k. compile_sample_key_fields (sel_key sel) (sel_key_from sel)
    \<lparr>scc_rule_name = Some name, scc_sink_name = None\<rparr> True False = Ok k"
  using assms
  by (auto simp: validate_selector_sample_key_fields_def compile_sample_key_fields_def
      validate_sample_key_from_def compile_sample_key_from_def split: option.splits if_splits)

lemma valid_selector_compiles:
  assumes "valid_rule_selector fl sel"
  shows "\<exists>c. compile_selector fl \<lparr>scc_rule_name = Some name, scc_sink_name = None\<rparr> sel = Ok c"
proof -
  have "\<exists>n. parse_selector_wire_value (sel_type sel) (sel_value sel) = Ok n"
    if "sel_type sel \<in> {''qtype'', ''rcode'', ''qclass'', ''opcode'', ''edns_option''}"
    using that assms by (auto simp: valid_rule_selector_def validate_wire_selector_value_def rbind_Ok_iff)
  moreover have "\<exists>a. parse_answer_source (sel_value sel) = Ok a" if "sel_type sel = ''answer_source''"
    using that assms by (auto simp: valid_rule_selector_def validate_wire_selector_value_def rbind_Ok_iff)
  moreover have "\<exists>k. compile_sample_key_fields (sel_key sel) (sel_key_from sel)
      \<lparr>scc_rule_name = Some name, scc_sink_name = None\<rparr> True False = Ok k" if "sel_type sel = ''sample_percent''"
    using valid_sample_key_compiles that assms by (auto simp: valid_rule_selector_def)
  ultimately show ?thesis
    using assms unfolding compile_selector_def Let_def
    by (auto simp: valid_rule_selector_def rbind_Ok_iff parse_percent_key_def)
qed

lemma valid_selectors_compile:
  "list_all (valid_rule_selector fl) sels \<Longrightarrow> \<exists>cs. compile_rule_selectors fl name sels = Ok cs"
  using valid_selector_compiles [of fl _ name]
  by (auto simp: compile_rule_selectors_def compile_selectors_with_ctx_def traverse_Ok_iff list_all_iff)

end
