(* ===== verification/Data_Sources.thy ===== *)
theory Data_Sources
  imports Config
begin

text \<open>
  Data sources: the tables loaded when a snapshot is built
  (\<open>conduit-script/src/data_sources.rs\<close>, \<open>cidr.rs\<close>) and the resolution of their paths
  (\<open>conduit-proto/src/paths.rs\<close>).

  A table is an association list with the newest entry first; a lookup is \<open>map_of\<close>.  The file
  system is the parameter \<open>read_file\<close>.  The prefix syntax of the \<open>ipnet\<close> crate is the parameter
  \<open>parse_net\<close> and its prefix trie the record \<open>prefix_map_ops\<close>.

  What is shown: a load that succeeds keeps every limit of the configuration: the number of tables,
  the bytes of each file and of all files, and for each table, CSV or CIDR, the number of entries and
  the size of keys and values under the limits of its own source.
\<close>

section \<open>Paths and text\<close>

definition resolve_config_path :: "string option \<Rightarrow> string \<Rightarrow> string"
  where "resolve_config_path base_dir path =
    (if path \<noteq> [] \<and> hd path = CHR ''/'' then path
     else case base_dir of
       Some base \<Rightarrow> if base = [] \<or> last base = CHR ''/'' then base @ path else base @ ''/'' @ path
     | None \<Rightarrow> path)"

fun split_on :: "char \<Rightarrow> string \<Rightarrow> string list"
  where
    "split_on c [] = [[]]"
  | "split_on c (x # xs) =
      (if x = c then [] # split_on c xs
       else case split_on c xs of [] \<Rightarrow> [[x]] | p # ps \<Rightarrow> (x # p) # ps)"

text \<open>\<open>str::lines\<close>; a carriage return at the end of a line is removed by the \<open>trim\<close> that follows.\<close>

definition text_lines :: "string \<Rightarrow> string list"
  where "text_lines s =
    (let ps = split_on (CHR 0x0A) s in if last ps = [] then butlast ps else ps)"

definition split_whitespace :: "string \<Rightarrow> string list"
  where "split_whitespace s =
    filter (\<lambda>w. w \<noteq> []) (split_on (CHR '' '') (map (\<lambda>c. if is_ascii_space c then CHR '' '' else c) s))"

text \<open>Well-formed UTF-8 (\<open>String::from_utf8\<close>).\<close>

definition utf8_cont :: "char \<Rightarrow> bool"
  where "utf8_cont c = (let n = (of_char c :: nat) in 128 \<le> n \<and> n \<le> 191)"

fun is_utf8 :: "string \<Rightarrow> bool"
  where
    "is_utf8 [] = True"
  | "is_utf8 (a # rest) =
      (let n = (of_char a :: nat) in
       if n < 128 then is_utf8 rest
       else if 194 \<le> n \<and> n \<le> 223
       then (case rest of b # r \<Rightarrow> utf8_cont b \<and> is_utf8 r | _ \<Rightarrow> False)
       else if 224 \<le> n \<and> n \<le> 239
       then (case rest of b # c # r \<Rightarrow>
          (let m = (of_char b :: nat) in
           (n = 224 \<longrightarrow> 160 \<le> m) \<and> (n = 237 \<longrightarrow> m \<le> 159)) \<and> utf8_cont b \<and> utf8_cont c \<and> is_utf8 r
          | _ \<Rightarrow> False)
       else if 240 \<le> n \<and> n \<le> 244
       then (case rest of b # c # d # r \<Rightarrow>
          (let m = (of_char b :: nat) in
           (n = 240 \<longrightarrow> 144 \<le> m) \<and> (n = 244 \<longrightarrow> m \<le> 143))
          \<and> utf8_cont b \<and> utf8_cont c \<and> utf8_cont d \<and> is_utf8 r
          | _ \<Rightarrow> False)
       else False)"

section \<open>Limits\<close>

record data_source_cfg =
  ds_name :: string
  ds_type :: string
  ds_path :: string
  ds_key_column :: string
  ds_value_column :: string
  ds_max_file_bytes :: "u64 option"
  ds_max_entries :: "u64 option"
  ds_max_key_bytes :: "u32 option"
  ds_max_value_bytes :: "u32 option"

record data_source_limits =
  dl_max_file_bytes :: u64
  dl_max_entries :: u64
  dl_max_key_bytes :: u32
  dl_max_value_bytes :: u32
  dl_max_tables :: u32
  dl_max_total_bytes :: u64

definition default_limits :: data_source_limits
  where "default_limits = \<lparr>dl_max_file_bytes = 16 * 1024 * 1024, dl_max_entries = 1000000,
    dl_max_key_bytes = 1024, dl_max_value_bytes = 4096, dl_max_tables = 64,
    dl_max_total_bytes = 64 * 1024 * 1024\<rparr>"

definition nonzero_or :: "'w::len word \<Rightarrow> 'w word \<Rightarrow> 'w word"
  where "nonzero_or v d = (if v = 0 then d else v)"

definition limits_from_config :: "data_source_limits option \<Rightarrow> data_source_limits"
  where "limits_from_config cfg =
    (case cfg of None \<Rightarrow> default_limits
     | Some c \<Rightarrow>
       \<lparr>dl_max_file_bytes = nonzero_or (dl_max_file_bytes c) (dl_max_file_bytes default_limits),
        dl_max_entries = nonzero_or (dl_max_entries c) (dl_max_entries default_limits),
        dl_max_key_bytes = nonzero_or (dl_max_key_bytes c) (dl_max_key_bytes default_limits),
        dl_max_value_bytes = nonzero_or (dl_max_value_bytes c) (dl_max_value_bytes default_limits),
        dl_max_tables = nonzero_or (dl_max_tables c) (dl_max_tables default_limits),
        dl_max_total_bytes = nonzero_or (dl_max_total_bytes c) (dl_max_total_bytes default_limits)\<rparr>)"

record table_limits =
  tl_max_file_bytes :: u64
  tl_max_entries :: u64
  tl_max_key_bytes :: u32
  tl_max_value_bytes :: u32

definition override :: "'w::len word option \<Rightarrow> 'w word \<Rightarrow> 'w word"
  where "override x v = (case x of Some y \<Rightarrow> if y \<noteq> 0 then y else v | None \<Rightarrow> v)"

definition effective_for :: "data_source_limits \<Rightarrow> data_source_cfg \<Rightarrow> table_limits"
  where "effective_for limits ds =
    \<lparr>tl_max_file_bytes = override (ds_max_file_bytes ds) (dl_max_file_bytes limits),
     tl_max_entries = override (ds_max_entries ds) (dl_max_entries limits),
     tl_max_key_bytes = override (ds_max_key_bytes ds) (dl_max_key_bytes limits),
     tl_max_value_bytes = override (ds_max_value_bytes ds) (dl_max_value_bytes limits)\<rparr>"

section \<open>Reading a file\<close>

datatype source_error =
    TooManyTables nat
  | UnsupportedType string
  | EmptyName
  | EmptyPath
  | ReadFailed string
  | FileTooLarge
  | InvalidUtf8
  | NotEnoughColumns nat
  | TooManyFields nat
  | KeyTooLong nat nat
  | ValueTooLong nat nat
  | BadPrefix nat string
  | TooManyEntries
  | TotalTooLarge nat

type_synonym file_reader = "string \<Rightarrow> (string, string) result"

text \<open>At most one byte more than the limit is read.\<close>

definition read_capped :: "file_reader \<Rightarrow> string \<Rightarrow> u64 \<Rightarrow> (source_error, string) result"
  where "read_capped read_file path max_file_bytes =
    rbind (map_err ReadFailed (read_file path)) (\<lambda>content.
      let buf = take (unat (sat_add max_file_bytes 1)) content in
      if unat max_file_bytes < length buf then Err FileTooLarge
      else if \<not> is_utf8 buf then Err InvalidUtf8
      else Ok buf)"

section \<open>CSV tables\<close>

type_synonym csv_table = "(string \<times> string) list"

definition column_spec :: "string \<Rightarrow> nat \<Rightarrow> string"
  where "column_spec name default_index =
    (if name = []
     then if default_index = 0 then ''key'' else if default_index = 1 then ''value'' else show_nat default_index
     else name)"

definition looks_like_header :: "string list \<Rightarrow> string \<Rightarrow> string \<Rightarrow> bool"
  where "looks_like_header cols key_col value_col \<longleftrightarrow>
    list_ex (\<lambda>c. c = key_col \<or> c = value_col) cols
    \<or> (case cols of k # _ \<Rightarrow> eq_ignore_ascii_case k ''qname'' \<or> eq_ignore_ascii_case k ''key'' | [] \<Rightarrow> False)"

definition parse_csv_line :: "string \<Rightarrow> string list"
  where "parse_csv_line line = map trim (split_on (CHR '','') line)"

fun position :: "('a \<Rightarrow> bool) \<Rightarrow> 'a list \<Rightarrow> nat option"
  where
    "position P [] = None"
  | "position P (x # xs) = (if P x then Some 0 else map_option Suc (position P xs))"

definition column_indices :: "string list option \<Rightarrow> string \<Rightarrow> string \<Rightarrow> nat \<times> nat"
  where "column_indices header key_col value_col =
    (case header of
       Some hdr \<Rightarrow> (or_default (position (\<lambda>h. h = key_col) hdr) 0, or_default (position (\<lambda>h. h = value_col) hdr) 1)
     | None \<Rightarrow> (0, 1))"

fun csv_loop ::
  "table_limits \<Rightarrow> string \<Rightarrow> string \<Rightarrow> (nat \<times> string) list \<Rightarrow> string list option \<Rightarrow> nat \<Rightarrow> csv_table
    \<Rightarrow> (source_error, csv_table) result"
  where
    "csv_loop limits key_col value_col [] header n table = Ok table"
  | "csv_loop limits key_col value_col ((line_no, raw) # rest) header n table =
      (let line = trim raw in
       if line = [] \<or> hd line = CHR ''#'' then csv_loop limits key_col value_col rest header n table
       else
         let cols = parse_csv_line line in
         if header = None \<and> looks_like_header cols key_col value_col
         then csv_loop limits key_col value_col rest (Some cols) n table
         else
           let (key_idx, val_idx) = column_indices header key_col value_col in
           if length cols \<le> key_idx \<or> length cols \<le> val_idx then Err (NotEnoughColumns (line_no + 1))
           else if unat (tl_max_key_bytes limits) < length (cols ! key_idx)
           then Err (KeyTooLong (line_no + 1) (length (cols ! key_idx)))
           else if unat (tl_max_value_bytes limits) < length (cols ! val_idx)
           then Err (ValueTooLong (line_no + 1) (length (cols ! val_idx)))
           else if unat (tl_max_entries limits) < n + 1 then Err TooManyEntries
           else csv_loop limits key_col value_col rest header (n + 1)
             (AList.update (cols ! key_idx) (cols ! val_idx) table))"

definition load_csv ::
  "file_reader \<Rightarrow> string \<Rightarrow> data_source_cfg \<Rightarrow> table_limits \<Rightarrow> (source_error, csv_table \<times> nat) result"
  where "load_csv read_file path ds limits =
    rbind (read_capped read_file path (tl_max_file_bytes limits)) (\<lambda>content.
    rbind (csv_loop limits (column_spec (ds_key_column ds) 0) (column_spec (ds_value_column ds) 1)
        (enumerate 0 (text_lines content)) None 0 []) (\<lambda>table.
      Ok (table, length content)))"

section \<open>CIDR tables\<close>

datatype ip_net = NetV4 u32 nat | NetV6 "128 word" nat

record 'm prefix_map_ops =
  pm_empty :: 'm
  pm_insert :: "ip_net \<Rightarrow> string \<Rightarrow> 'm \<Rightarrow> 'm"
  pm_get_lpm :: "ip_net \<Rightarrow> 'm \<Rightarrow> (ip_net \<times> string) option"

record 'm cidr_table =
  ct_v4 :: 'm
  ct_v6 :: 'm

definition empty_cidr_table :: "'m prefix_map_ops \<Rightarrow> 'm cidr_table"
  where "empty_cidr_table ops = \<lparr>ct_v4 = pm_empty ops, ct_v6 = pm_empty ops\<rparr>"

fun cidr_lookup :: "'m prefix_map_ops \<Rightarrow> ip_addr \<Rightarrow> 'm cidr_table \<Rightarrow> string option"
  where
    "cidr_lookup ops (V4 a) t = map_option snd (pm_get_lpm ops (NetV4 a 32) (ct_v4 t))"
  | "cidr_lookup ops (V6 a) t = map_option snd (pm_get_lpm ops (NetV6 a 128) (ct_v6 t))"

fun cidr_insert :: "'m prefix_map_ops \<Rightarrow> ip_net \<Rightarrow> string \<Rightarrow> 'm cidr_table \<Rightarrow> 'm cidr_table"
  where
    "cidr_insert ops (NetV4 a n) value t = t\<lparr>ct_v4 := pm_insert ops (NetV4 a n) value (ct_v4 t)\<rparr>"
  | "cidr_insert ops (NetV6 a n) value t = t\<lparr>ct_v6 := pm_insert ops (NetV6 a n) value (ct_v6 t)\<rparr>"

definition parse_prefix :: "(string \<Rightarrow> ip_net option) \<Rightarrow> string \<Rightarrow> (string, ip_net) result"
  where "parse_prefix parse_net token =
    (case parse_net token of
       Some net \<Rightarrow> Ok net
     | None \<Rightarrow>
        (case parse_ip_addr token of
           None \<Rightarrow> Err (''invalid CIDR prefix or address '' @ squote token)
         | Some (V4 a) \<Rightarrow> Ok (NetV4 a 32)
         | Some (V6 a) \<Rightarrow> Ok (NetV6 a 128)))"

fun cidr_loop ::
  "'m prefix_map_ops \<Rightarrow> (string \<Rightarrow> ip_net option) \<Rightarrow> u64 \<Rightarrow> u32 \<Rightarrow> (nat \<times> string) list \<Rightarrow> nat \<Rightarrow> 'm cidr_table
    \<Rightarrow> (source_error, 'm cidr_table) result"
  where
    "cidr_loop ops parse_net max_entries max_value_bytes [] n table = Ok table"
  | "cidr_loop ops parse_net max_entries max_value_bytes ((line_no, raw) # rest) n table =
      (let line = trim raw in
       if line = [] \<or> hd line = CHR ''#'' then cidr_loop ops parse_net max_entries max_value_bytes rest n table
       else
         let fields = split_whitespace line;
             prefix_tok = hd fields;
             value = (case tl fields of v # _ \<Rightarrow> v | [] \<Rightarrow> ''1'') in
         if 2 < length fields then Err (TooManyFields (line_no + 1))
         else if unat max_value_bytes < length value then Err (ValueTooLong (line_no + 1) (length value))
         else rbind (map_err (BadPrefix (line_no + 1)) (parse_prefix parse_net prefix_tok)) (\<lambda>net.
           if unat max_entries < n + 1 then Err TooManyEntries
           else cidr_loop ops parse_net max_entries max_value_bytes rest (n + 1) (cidr_insert ops net value table)))"

definition load_cidr_table ::
  "'m prefix_map_ops \<Rightarrow> (string \<Rightarrow> ip_net option) \<Rightarrow> file_reader \<Rightarrow> string \<Rightarrow> u64 \<Rightarrow> u64 \<Rightarrow> u32
    \<Rightarrow> (source_error, 'm cidr_table \<times> nat) result"
  where "load_cidr_table ops parse_net read_file path max_file_bytes max_entries max_value_bytes =
    rbind (read_capped read_file path max_file_bytes) (\<lambda>content.
    rbind (cidr_loop ops parse_net max_entries max_value_bytes (enumerate 0 (text_lines content)) 0
        (empty_cidr_table ops)) (\<lambda>table.
      Ok (table, length content)))"

section \<open>The store\<close>

record 'm data_source_store =
  st_tables :: "(string \<times> csv_table) list"
  st_cidr_tables :: "(string \<times> 'm cidr_table) list"

definition empty_store :: "'m data_source_store"
  where "empty_store = \<lparr>st_tables = [], st_cidr_tables = []\<rparr>"

definition store_lookup :: "string \<Rightarrow> string \<Rightarrow> 'm data_source_store \<Rightarrow> string"
  where "store_lookup table key store =
    (case map_of (st_tables store) table of
       Some t \<Rightarrow> or_default (map_of t key) []
     | None \<Rightarrow> [])"

definition lookup_ip :: "'m prefix_map_ops \<Rightarrow> string \<Rightarrow> ip_addr \<Rightarrow> 'm data_source_store \<Rightarrow> string option"
  where "lookup_ip ops name addr store =
    (case map_of (st_cidr_tables store) name of
       Some t \<Rightarrow> cidr_lookup ops addr t
     | None \<Rightarrow> None)"

definition has_table :: "string \<Rightarrow> 'm data_source_store \<Rightarrow> bool"
  where "has_table table store \<longleftrightarrow> map_of (st_tables store) table \<noteq> None"

definition has_cidr_table :: "string \<Rightarrow> 'm data_source_store \<Rightarrow> bool"
  where "has_cidr_table name store \<longleftrightarrow> map_of (st_cidr_tables store) name \<noteq> None"

definition check_source :: "data_source_cfg \<Rightarrow> (source_error, unit) result"
  where "check_source ds =
    (if ds_type ds \<noteq> ''csv'' \<and> ds_type ds \<noteq> ''cidr'' then Err (UnsupportedType (ds_type ds))
     else if ds_name ds = [] then Err EmptyName
     else if ds_path ds = [] then Err EmptyPath
     else Ok ())"

definition load_source ::
  "'m prefix_map_ops \<Rightarrow> (string \<Rightarrow> ip_net option) \<Rightarrow> file_reader \<Rightarrow> string option \<Rightarrow> data_source_limits
    \<Rightarrow> data_source_cfg \<Rightarrow> 'm data_source_store \<Rightarrow> (source_error, 'm data_source_store \<times> nat) result"
  where "load_source ops parse_net read_file base_dir limits ds store =
    (let path = resolve_config_path base_dir (ds_path ds);
         eff = effective_for limits ds in
     if ds_type ds = ''cidr''
     then rbind (load_cidr_table ops parse_net read_file path (tl_max_file_bytes eff) (tl_max_entries eff)
         (tl_max_value_bytes eff)) (\<lambda>(table, n).
       Ok (store\<lparr>st_cidr_tables := AList.update (ds_name ds) table (st_cidr_tables store)\<rparr>, n))
     else rbind (load_csv read_file path ds eff) (\<lambda>(table, n).
       Ok (store\<lparr>st_tables := AList.update (ds_name ds) table (st_tables store)\<rparr>, n)))"

fun load_loop ::
  "'m prefix_map_ops \<Rightarrow> (string \<Rightarrow> ip_net option) \<Rightarrow> file_reader \<Rightarrow> string option \<Rightarrow> data_source_limits
    \<Rightarrow> data_source_cfg list \<Rightarrow> u64 \<Rightarrow> 'm data_source_store \<Rightarrow> (source_error, 'm data_source_store) result"
  where
    "load_loop ops parse_net read_file base_dir limits [] total_bytes store = Ok store"
  | "load_loop ops parse_net read_file base_dir limits (ds # rest) total_bytes store =
      rbind (check_source ds) (\<lambda>_.
      rbind (load_source ops parse_net read_file base_dir limits ds store) (\<lambda>(store', n).
        let total' = sat_add total_bytes (of_nat n) in
        if dl_max_total_bytes limits < total' then Err (TotalTooLarge (unat total'))
        else load_loop ops parse_net read_file base_dir limits rest total' store'))"

definition load_data_sources ::
  "'m prefix_map_ops \<Rightarrow> (string \<Rightarrow> ip_net option) \<Rightarrow> file_reader \<Rightarrow> data_source_cfg list \<Rightarrow> string option
    \<Rightarrow> data_source_limits \<Rightarrow> (source_error, 'm data_source_store) result"
  where "load_data_sources ops parse_net read_file sources base_dir limits =
    (if unat (dl_max_tables limits) < length sources then Err (TooManyTables (length sources))
     else load_loop ops parse_net read_file base_dir limits sources 0 empty_store)"

section \<open>The limits hold\<close>

definition table_within :: "table_limits \<Rightarrow> csv_table \<Rightarrow> bool"
  where "table_within limits table \<longleftrightarrow> distinct (map fst table)
    \<and> length table \<le> unat (tl_max_entries limits)
    \<and> (\<forall>(k, v) \<in> set table. length k \<le> unat (tl_max_key_bytes limits) \<and> length v \<le> unat (tl_max_value_bytes limits))"

lemma set_alist_update: "set (AList.update k v xs) \<subseteq> insert (k, v) (set xs)"
  by (induction xs) auto

lemma csv_loop_within:
  assumes "csv_loop limits kc vc lines header n table = Ok table'"
    and "distinct (map fst table)" "length table \<le> n" "n \<le> unat (tl_max_entries limits)"
    and "\<forall>(k, v) \<in> set table. length k \<le> unat (tl_max_key_bytes limits) \<and> length v \<le> unat (tl_max_value_bytes limits)"
  shows "table_within limits table'"
  using assms
proof (induction limits kc vc lines header n table rule: csv_loop.induct)
  case (1 limits kc vc header n table)
  then show ?case by (simp add: table_within_def)
next
  case (2 limits kc vc line_no raw rest header n table)
  let ?line = "trim raw"
  let ?cols = "parse_csv_line ?line"
  obtain ki vi where idx: "column_indices header kc vc = (ki, vi)" by force
  consider (skip) "?line = [] \<or> hd ?line = CHR ''#''"
    | (header) "\<not> (?line = [] \<or> hd ?line = CHR ''#'')" "header = None \<and> looks_like_header ?cols kc vc"
    | (row) "\<not> (?line = [] \<or> hd ?line = CHR ''#'')" "\<not> (header = None \<and> looks_like_header ?cols kc vc)"
    by blast
  then show ?case
  proof cases
    case skip
    with 2 show ?thesis by (simp add: Let_def)
  next
    case header
    with 2 show ?thesis by (simp add: Let_def)
  next
    case row
    from "2.prems"(1) row idx have ok: "length (?cols ! ki) \<le> unat (tl_max_key_bytes limits)"
      "length (?cols ! vi) \<le> unat (tl_max_value_bytes limits)" "n + 1 \<le> unat (tl_max_entries limits)"
      "csv_loop limits kc vc rest header (n + 1) (AList.update (?cols ! ki) (?cols ! vi) table) = Ok table'"
      and within: "\<not> (length ?cols \<le> ki \<or> length ?cols \<le> vi)"
      by (auto simp: Let_def split: if_splits)
    have bounds: "\<forall>(k, v) \<in> set (AList.update (?cols ! ki) (?cols ! vi) table).
        length k \<le> unat (tl_max_key_bytes limits) \<and> length v \<le> unat (tl_max_value_bytes limits)"
      using "2.prems"(5) ok set_alist_update [of "?cols ! ki" "?cols ! vi" table] by fastforce
    show ?thesis
      by (rule "2.IH"(3)) (use row idx ok within bounds "2.prems" in
        \<open>auto simp: length_alist_update distinct_update\<close>)
  qed
qed

text \<open>A CIDR table comes from at most so many insertions into the empty trie, each of a value within
  the limit; what the trie keeps of them is up to the trie.\<close>

definition cidr_within :: "'m prefix_map_ops \<Rightarrow> table_limits \<Rightarrow> 'm cidr_table \<Rightarrow> bool"
  where "cidr_within ops limits table \<longleftrightarrow>
    (\<exists>entries. table = fold (\<lambda>(net, v). cidr_insert ops net v) entries (empty_cidr_table ops)
      \<and> length entries \<le> unat (tl_max_entries limits)
      \<and> (\<forall>(net, v) \<in> set entries. length v \<le> unat (tl_max_value_bytes limits)))"

lemma cidr_loop_within:
  assumes "cidr_loop ops parse_net maxe maxv lines n table = Ok table'" and "n \<le> unat maxe"
  shows "\<exists>entries. table' = fold (\<lambda>(net, v). cidr_insert ops net v) entries table
    \<and> n + length entries \<le> unat maxe \<and> (\<forall>(net, v) \<in> set entries. length v \<le> unat maxv)"
  using assms
proof (induction ops parse_net maxe maxv lines n table rule: cidr_loop.induct)
  case (1 ops parse_net maxe maxv n table)
  then show ?case
    by (intro exI [of _ "[]"]) simp
next
  case (2 ops parse_net maxe maxv line_no raw rest n table)
  let ?line = "trim raw"
  let ?fields = "split_whitespace ?line"
  let ?v = "case tl ?fields of v # _ \<Rightarrow> v | [] \<Rightarrow> ''1''"
  show ?case
  proof (cases "?line = [] \<or> hd ?line = CHR ''#''")
    case True
    with 2 show ?thesis by (simp add: Let_def)
  next
    case False
    with "2.prems"(1) obtain net where net: "map_err (BadPrefix (line_no + 1)) (parse_prefix parse_net (hd ?fields)) = Ok net"
      and ok: "\<not> 2 < length ?fields" "length ?v \<le> unat maxv" "n + 1 \<le> unat maxe"
      and rest: "cidr_loop ops parse_net maxe maxv rest (n + 1) (cidr_insert ops net ?v table) = Ok table'"
      by (auto simp: Let_def rbind_Ok_iff split: if_splits)
    have "\<exists>entries. table' = fold (\<lambda>(net, v). cidr_insert ops net v) entries (cidr_insert ops net ?v table)
        \<and> (n + 1) + length entries \<le> unat maxe \<and> (\<forall>(net, v) \<in> set entries. length v \<le> unat maxv)"
      by (rule "2.IH"(2)) (use False net ok rest in auto)
    then obtain entries where e: "table' = fold (\<lambda>(net, v). cidr_insert ops net v) ((net, ?v) # entries) table"
        "n + length ((net, ?v) # entries) \<le> unat maxe" "\<forall>(net, v) \<in> set entries. length v \<le> unat maxv"
      by auto
    then show ?thesis
      using ok(2) by (intro exI [of _ "(net, ?v) # entries"]) auto
  qed
qed

text \<open>The bytes of a file that count: all of them, up to the largest \<open>u64\<close>.\<close>

definition counted_bytes :: "file_reader \<Rightarrow> string option \<Rightarrow> data_source_cfg \<Rightarrow> nat option"
  where "counted_bytes read_file base ds =
    (case read_file (resolve_config_path base (ds_path ds)) of
       Inr content \<Rightarrow> Some (min (length content) (2 ^ 64 - 1))
     | Inl _ \<Rightarrow> None)"

lemma read_capped_Ok:
  assumes "read_capped read_file path cap = Ok buf"
  shows "length buf \<le> unat cap \<and> (\<exists>content. read_file path = Ok content \<and> length buf = min (length content) (2 ^ 64 - 1))"
proof -
  obtain content where c: "read_file path = Ok content" "buf = take (unat (sat_add cap 1)) content" "length buf \<le> unat cap"
    using assms by (auto simp: read_capped_def rbind_Ok_iff map_err_Ok_iff Let_def split: if_splits)
  have cap: "unat (sat_add cap 1) = min (unat cap + 1) (2 ^ 64 - 1)"
    by (auto simp: sat_add_def unat_plus_1 unsigned_minus_1_eq_mask mask_eq_exp_minus_1 min_def)
  have "length buf = min (length content) (2 ^ 64 - 1)"
    using c(2,3) cap unat_u64_less [of cap] by (auto simp: min_def split: if_splits)
  then show ?thesis
    using c by blast
qed

text \<open>What loading one source does to the store: its own table, under its own limits.\<close>

lemma load_source_spec:
  assumes "load_source ops parse_net read_file base limits ds store = Ok (store', n)"
  shows "counted_bytes read_file base ds = Some n \<and> n \<le> unat (tl_max_file_bytes (effective_for limits ds))
    \<and> (if ds_type ds = ''cidr''
        then \<exists>t. cidr_within ops (effective_for limits ds) t \<and> st_tables store' = st_tables store
          \<and> st_cidr_tables store' = AList.update (ds_name ds) t (st_cidr_tables store)
        else \<exists>t. table_within (effective_for limits ds) t \<and> st_cidr_tables store' = st_cidr_tables store
          \<and> st_tables store' = AList.update (ds_name ds) t (st_tables store))"
proof (cases "ds_type ds = ''cidr''")
  case True
  let ?eff = "effective_for limits ds" and ?path = "resolve_config_path base (ds_path ds)"
  from True assms obtain t buf where
    cidr: "cidr_loop ops parse_net (tl_max_entries ?eff) (tl_max_value_bytes ?eff) (enumerate 0 (text_lines buf)) 0
      (empty_cidr_table ops) = Ok t"
    and buf: "read_capped read_file ?path (tl_max_file_bytes ?eff) = Ok buf" "n = length buf"
    and store': "store' = store\<lparr>st_cidr_tables := AList.update (ds_name ds) t (st_cidr_tables store)\<rparr>"
    by (auto simp: load_source_def load_cidr_table_def rbind_Ok_iff Let_def)
  have "cidr_within ops ?eff t"
    using cidr_loop_within [OF cidr] by (simp add: cidr_within_def)
  with True read_capped_Ok [OF buf(1)] buf(2) store' show ?thesis
    by (auto simp: counted_bytes_def)
next
  case False
  let ?eff = "effective_for limits ds" and ?path = "resolve_config_path base (ds_path ds)"
  from False assms obtain t buf where csv: "csv_loop ?eff (column_spec (ds_key_column ds) 0)
      (column_spec (ds_value_column ds) 1) (enumerate 0 (text_lines buf)) None 0 [] = Ok t"
    and buf: "read_capped read_file ?path (tl_max_file_bytes ?eff) = Ok buf" "n = length buf"
    and store': "store' = store\<lparr>st_tables := AList.update (ds_name ds) t (st_tables store)\<rparr>"
    by (auto simp: load_source_def load_csv_def rbind_Ok_iff Let_def)
  have "table_within ?eff t"
    by (rule csv_loop_within [OF csv]) auto
  with False read_capped_Ok [OF buf(1)] buf(2) store' show ?thesis
    by (auto simp: counted_bytes_def)
qed

text \<open>The source a table of the store is loaded from: the last one of its type and name.\<close>

definition source_of :: "string \<Rightarrow> string \<Rightarrow> data_source_cfg list \<Rightarrow> data_source_cfg option"
  where "source_of type name sources = find (\<lambda>ds. ds_type ds = type \<and> ds_name ds = name) (rev sources)"

lemma source_of_snoc:
  "source_of type name (sources @ [ds]) =
    (if ds_type ds = type \<and> ds_name ds = name then Some ds else source_of type name sources)"
  by (simp add: source_of_def)

text \<open>The store holds exactly the tables of the sources, each within the limits of its own source.\<close>

definition store_matches ::
  "'m prefix_map_ops \<Rightarrow> data_source_limits \<Rightarrow> data_source_cfg list \<Rightarrow> 'm data_source_store \<Rightarrow> bool"
  where "store_matches ops limits sources store \<longleftrightarrow>
    (\<forall>name. rel_option (\<lambda>ds t. table_within (effective_for limits ds) t)
        (source_of ''csv'' name sources) (map_of (st_tables store) name))
    \<and> (\<forall>name. rel_option (\<lambda>ds t. cidr_within ops (effective_for limits ds) t)
        (source_of ''cidr'' name sources) (map_of (st_cidr_tables store) name))"

lemma load_source_matches:
  assumes "check_source ds = Ok ()" "load_source ops parse_net read_file base limits ds store = Ok (store', n)"
    and "store_matches ops limits done store"
  shows "store_matches ops limits (done @ [ds]) store'"
proof -
  have "ds_type ds = ''csv'' \<or> ds_type ds = ''cidr''"
    using assms(1) by (auto simp: check_source_def split: if_splits)
  then show ?thesis
    using load_source_spec [OF assms(2)] assms(3)
    by (auto simp: store_matches_def source_of_snoc update_conv)
qed

text \<open>The running total is exact unless it reaches the largest \<open>u64\<close>.\<close>

lemma sat_add_total:
  fixes a b :: u64
  shows "sat_add a b \<le> m \<Longrightarrow> m \<noteq> - 1 \<Longrightarrow> unat (sat_add a b) = unat a + unat b"
proof -
  assume le: "sat_add a b \<le> m" and m: "m \<noteq> - 1"
  have "unat a + unat b < 2 ^ 64"
    using le m by (auto simp: sat_add_def word_order.extremum_unique split: if_splits)
  then show ?thesis
    by (simp add: sat_add_def unat_word_ariths)
qed

lemma load_loop_spec:
  assumes "load_loop ops parse_net read_file base limits sources used store = Ok store'"
    and "store_matches ops limits done store"
  shows "store_matches ops limits (done @ sources) store'
    \<and> (\<exists>sizes. map (counted_bytes read_file base) sources = map Some sizes
        \<and> list_all2 (\<lambda>ds n. n \<le> unat (tl_max_file_bytes (effective_for limits ds))) sources sizes
        \<and> (dl_max_total_bytes limits \<noteq> - 1 \<longrightarrow> used \<le> dl_max_total_bytes limits \<longrightarrow>
            unat used + sum_list sizes \<le> unat (dl_max_total_bytes limits)))"
  using assms
proof (induction sources arbitrary: used store "done")
  case Nil
  then show ?case
    by (simp add: word_le_nat_alt)
next
  case (Cons ds sources)
  then obtain s1 n where s1: "check_source ds = Ok ()" "load_source ops parse_net read_file base limits ds store = Ok (s1, n)"
    and total: "sat_add used (of_nat n) \<le> dl_max_total_bytes limits"
    and rest: "load_loop ops parse_net read_file base limits sources (sat_add used (of_nat n)) s1 = Ok store'"
    by (auto simp: rbind_Ok_iff Let_def not_less split: if_splits)
  note own = load_source_spec [OF s1(2)]
  have small: "unat (of_nat n :: u64) = n"
    using own unat_u64_less [of "tl_max_file_bytes (effective_for limits ds)"] by (auto simp: unat_of_nat_small)
  obtain sizes where ih: "store_matches ops limits ((done @ [ds]) @ sources) store'"
      "map (counted_bytes read_file base) sources = map Some sizes"
      "list_all2 (\<lambda>ds n. n \<le> unat (tl_max_file_bytes (effective_for limits ds))) sources sizes"
      "dl_max_total_bytes limits \<noteq> - 1 \<longrightarrow>
        unat (sat_add used (of_nat n)) + sum_list sizes \<le> unat (dl_max_total_bytes limits)"
    using Cons.IH [OF rest load_source_matches [OF s1 Cons.prems(2)]] total by auto
  show ?case
    using ih own small sat_add_total [OF total] by (auto intro!: exI [of _ "n # sizes"])
qed

lemma empty_store_matches: "store_matches ops limits [] empty_store"
  by (simp add: store_matches_def source_of_def empty_store_def)

lemma load_data_sources_spec:
  assumes "load_data_sources ops parse_net read_file sources base limits = Ok store"
  shows "length sources \<le> unat (dl_max_tables limits)" "store_matches ops limits sources store"
    "\<exists>sizes. map (counted_bytes read_file base) sources = map Some sizes
        \<and> list_all2 (\<lambda>ds n. n \<le> unat (tl_max_file_bytes (effective_for limits ds))) sources sizes
        \<and> (dl_max_total_bytes limits \<noteq> - 1 \<longrightarrow> sum_list sizes \<le> unat (dl_max_total_bytes limits))"
proof -
  from assms have loop: "load_loop ops parse_net read_file base limits sources 0 empty_store = Ok store"
    and len: "length sources \<le> unat (dl_max_tables limits)"
    by (auto simp: load_data_sources_def split: if_splits)
  then show "length sources \<le> unat (dl_max_tables limits)" "store_matches ops limits sources store"
    "\<exists>sizes. map (counted_bytes read_file base) sources = map Some sizes
        \<and> list_all2 (\<lambda>ds n. n \<le> unat (tl_max_file_bytes (effective_for limits ds))) sources sizes
        \<and> (dl_max_total_bytes limits \<noteq> - 1 \<longrightarrow> sum_list sizes \<le> unat (dl_max_total_bytes limits))"
    using load_loop_spec [OF loop empty_store_matches] by auto
qed

lemma loaded_names:
  assumes "load_data_sources ops parse_net read_file sources base limits = Ok store"
  shows "has_cidr_table name store \<longleftrightarrow> (\<exists>ds \<in> set sources. ds_type ds = ''cidr'' \<and> name = ds_name ds)"
proof -
  have "rel_option (\<lambda>ds t. cidr_within ops (effective_for limits ds) t)
      (source_of ''cidr'' name sources) (map_of (st_cidr_tables store) name)"
    using load_data_sources_spec(2) [OF assms] by (simp add: store_matches_def)
  then have "has_cidr_table name store \<longleftrightarrow> source_of ''cidr'' name sources \<noteq> None"
    by (auto simp: has_cidr_table_def elim: option.rel_cases)
  then show ?thesis
    by (auto simp: source_of_def find_None_iff)
qed


text \<open>A trie that is a list, newest entry first, a two-row CSV file and a CIDR file of one prefix.\<close>

definition list_trie :: "(ip_net \<times> string) list prefix_map_ops"
  where "list_trie = \<lparr>pm_empty = [], pm_insert = AList.update, pm_get_lpm = (\<lambda>net m. map_option (Pair net) (map_of m net))\<rparr>"

definition example_source :: data_source_cfg
  where "example_source = \<lparr>ds_name = ''t'', ds_type = ''csv'', ds_path = ''/f'', ds_key_column = [], ds_value_column = [],
    ds_max_file_bytes = None, ds_max_entries = Some 2, ds_max_key_bytes = None, ds_max_value_bytes = None\<rparr>"

definition example_prefixes :: data_source_cfg
  where "example_prefixes = \<lparr>ds_name = ''n'', ds_type = ''cidr'', ds_path = ''/g'', ds_key_column = [], ds_value_column = [],
    ds_max_file_bytes = Some 6, ds_max_entries = Some 1, ds_max_key_bytes = None, ds_max_value_bytes = Some 2\<rparr>"

definition example_content :: string
  where "example_content = ''a,b'' @ [CHR 0x0A] @ ''a,c'' @ [CHR 0x0A]"

definition prefix_content :: string
  where "prefix_content = ''p v'' @ [CHR 0x0A]"

definition example_file :: file_reader
  where "example_file path = Ok (if path = ''/f'' then example_content else prefix_content)"

definition example_net :: "string \<Rightarrow> ip_net option"
  where "example_net token = Some (NetV4 0 8)"

definition example_store :: "(ip_net \<times> string) list data_source_store"
  where "example_store = \<lparr>st_tables = [(''t'', [(''a'', ''c'')])],
    st_cidr_tables = [(''n'', \<lparr>ct_v4 = [(NetV4 0 8, ''v'')], ct_v6 = []\<rparr>)]\<rparr>"

definition example_limits :: data_source_limits
  where "example_limits = \<lparr>dl_max_file_bytes = 32, dl_max_entries = 8, dl_max_key_bytes = 4, dl_max_value_bytes = 4,
    dl_max_tables = 2, dl_max_total_bytes = 40\<rparr>"

lemma example_csv_loads:
  "load_source list_trie example_net example_file None example_limits example_source empty_store
    = Ok (\<lparr>st_tables = [(''t'', [(''a'', ''c'')])], st_cidr_tables = []\<rparr>, 8)"
proof -
  have content: "read_capped example_file ''/f'' 32 = Ok example_content"
    by (simp add: read_capped_def example_file_def example_content_def sat_add_def Let_def)
  have lines: "text_lines example_content = [''a,b'', ''a,c'']" "length example_content = 8"
    by (simp_all add: text_lines_def example_content_def Let_def)
  have trims: "trim ''a,b'' = ''a,b''" "trim ''a,c'' = ''a,c''" "trim ''a'' = ''a''" "trim ''b'' = ''b''" "trim ''c'' = ''c''"
    by (simp_all add: trim_id is_ascii_space_def)
  have cols: "parse_csv_line ''a,b'' = [''a'', ''b'']" "parse_csv_line ''a,c'' = [''a'', ''c'']"
    by (simp_all add: parse_csv_line_def trims)
  have eff: "effective_for example_limits example_source =
      \<lparr>tl_max_file_bytes = 32, tl_max_entries = 2, tl_max_key_bytes = 4, tl_max_value_bytes = 4\<rparr>"
    by (simp add: effective_for_def example_limits_def example_source_def override_def)
  have head: "\<not> looks_like_header [''a'', v] ''key'' ''value''" if "v \<noteq> ''key''" "v \<noteq> ''value''" for v
    using that by (simp add: looks_like_header_def eq_ignore_ascii_case_def)
  show ?thesis
    by (simp add: load_source_def load_csv_def eff Let_def)
      (simp add: example_source_def content lines trims cols head column_spec_def column_indices_def
        resolve_config_path_def empty_store_def Let_def)
qed

lemma example_cidr_file_loads:
  "load_source list_trie example_net example_file None example_limits example_prefixes
      \<lparr>st_tables = [(''t'', [(''a'', ''c'')])], st_cidr_tables = []\<rparr>
    = Ok (example_store, 4)"
proof -
  have content: "read_capped example_file ''/g'' 6 = Ok prefix_content"
    by (simp add: read_capped_def example_file_def prefix_content_def sat_add_def Let_def)
  have lines: "text_lines prefix_content = [''p v'']" "length prefix_content = 4"
    by (simp_all add: text_lines_def prefix_content_def Let_def)
  have trims: "trim ''p v'' = ''p v''"
    by (simp add: trim_id is_ascii_space_def)
  have fields: "split_whitespace ''p v'' = [''p'', ''v'']"
    by (simp add: split_whitespace_def is_ascii_space_def)
  have eff: "effective_for example_limits example_prefixes =
      \<lparr>tl_max_file_bytes = 6, tl_max_entries = 1, tl_max_key_bytes = 4, tl_max_value_bytes = 2\<rparr>"
    by (simp add: effective_for_def example_limits_def example_prefixes_def override_def)
  show ?thesis
    by (simp add: load_source_def load_cidr_table_def eff Let_def)
      (simp add: example_prefixes_def content lines trims fields resolve_config_path_def example_net_def
        parse_prefix_def empty_cidr_table_def list_trie_def example_store_def Let_def)
qed

lemma example_loads:
  "load_data_sources list_trie example_net example_file [example_source, example_prefixes] None example_limits
    = Ok example_store"
proof -
  have "check_source example_source = Ok ()" "check_source example_prefixes = Ok ()"
    by (simp_all add: check_source_def example_source_def example_prefixes_def)
  then show ?thesis
    by (simp add: load_data_sources_def example_csv_loads example_cidr_file_loads Let_def sat_add_def)
      (simp add: example_limits_def)
qed


end
