(* ===== verification/Listeners.thy ===== *)
theory Listeners
  imports Selectors Data_Sources
begin

text \<open>
  Listener, dataplane, shutdown and logging settings of \<open>conduit-config\<close> (\<open>listeners.rs\<close>,
  \<open>dataplane.rs\<close>, \<open>shutdown.rs\<close>, \<open>logging.rs\<close>, \<open>duration.rs\<close>, \<open>size.rs\<close>), and the client access
  lists of \<open>conduit-core/src/acl.rs\<close> and \<open>conduit-dataplane/src/acl_gate.rs\<close>.

  Access lists run in two tiers: before a query is parsed only an explicit drop counts, after it
  the whole list.  Logging of denials and metrics are left out.  Which view an address is in is
  the look-up in the data sources.

  What is shown: both tiers together decide as the full list does, and as the control plane
  reports; lists that validate compile without a panic, and their views are loaded tables.
\<close>

section \<open>Configuration\<close>

record acl_rule_cfg =
  ar_match :: string
  ar_action :: string
  ar_tag :: "string option"

record acls_cfg =
  acl_default_action :: string
  acl_rules :: "acl_rule_cfg list"

record listener_cfg =
  ln_address :: string
  ln_protocol :: string
  ln_threads :: "u32 option"
  ln_reuse_port :: "bool option"
  ln_name :: "string option"
  ln_rcvbuf :: "u32 option"
  ln_acls :: "acls_cfg option"

record listeners_cfg =
  ls_threads :: u32
  ls_reuse_port :: bool
  ls_rcvbuf :: u32
  ls_sndbuf :: u32
  ls_listeners :: "listener_cfg list"

record dataplane_cfg =
  dp_runtime :: string
  dp_policy_workers :: u32
  dp_io_workers :: u32
  dp_slot_chunk_size :: "u32 option"

record shutdown_cfg =
  sh_drain :: "bool option"
  sh_drain_timeout_ms :: "u32 option"

section \<open>Listeners\<close>

record resolved_listener =
  rl_threads :: u32
  rl_reuse_port :: bool
  rl_rcvbuf :: u32
  rl_name :: string

definition default_listener_name :: "listener_cfg \<Rightarrow> string"
  where "default_listener_name l = to_ascii_lowercase (ln_protocol l) @ '':'' @ ln_address l"

definition resolve_listener_ingress :: "listeners_cfg \<Rightarrow> listener_cfg \<Rightarrow> resolved_listener"
  where "resolve_listener_ingress block l =
    \<lparr>rl_threads = max (or_default (ln_threads l) (ls_threads block)) 1,
     rl_reuse_port = or_default (ln_reuse_port l) (ls_reuse_port block),
     rl_rcvbuf = or_default (ln_rcvbuf l) (ls_rcvbuf block),
     rl_name = or_default (nonempty_opt (ln_name l)) (default_listener_name l)\<rparr>"

definition validate_listener :: "listeners_cfg \<Rightarrow> string list \<Rightarrow> listener_cfg \<Rightarrow> string list"
  where "validate_listener cfg names l =
    (if ln_address l = [] then [''listener address must not be empty''] else [])
    @ (if ln_threads l = Some 0 then [''listener '' @ squote (ln_address l) @ '' threads must be >= 1''] else [])
    @ (case nonempty_opt (ln_name l) of
         Some n \<Rightarrow> if n \<in> set names then [''duplicate listener name '' @ squote n] else []
       | None \<Rightarrow> [])
    @ (let r = resolve_listener_ingress cfg l in
       if eq_ignore_ascii_case (ln_protocol l) ''udp'' \<and> 1 < rl_threads r \<and> \<not> rl_reuse_port r
       then [''listener '' @ squote (rl_name r) @ '' (UDP): threads is '' @ show_nat (unat (rl_threads r))
         @ '' but reuse_port is false; set listeners.reuse_port: true (or this listener's reuse_port: true) so multiple ingress workers can bind the same address, or set threads: 1'']
       else [])"

fun validate_listener_list :: "listeners_cfg \<Rightarrow> string list \<Rightarrow> listener_cfg list \<Rightarrow> string list"
  where
    "validate_listener_list cfg names [] = []"
  | "validate_listener_list cfg names (l # ls) =
      validate_listener cfg names l
      @ validate_listener_list cfg (case nonempty_opt (ln_name l) of Some n \<Rightarrow> n # names | None \<Rightarrow> names) ls"

definition validate_listeners :: "listeners_cfg \<Rightarrow> string list"
  where "validate_listeners cfg =
    (if ls_threads cfg = 0 then [''listeners.threads must be >= 1''] else [])
    @ validate_listener_list cfg [] (ls_listeners cfg)"

section \<open>Dataplane and shutdown\<close>

definition effective_dataplane_runtime :: "dataplane_cfg option \<Rightarrow> string"
  where "effective_dataplane_runtime dp =
    or_default (nonempty_opt (map_option dp_runtime dp)) ''sync''"

definition positive_or :: "u32 option \<Rightarrow> u32 \<Rightarrow> u32"
  where "positive_or x d = (case x of Some n \<Rightarrow> if 0 < n then n else d | None \<Rightarrow> d)"

definition effective_policy_workers :: "dataplane_cfg option \<Rightarrow> u32"
  where "effective_policy_workers dp = positive_or (map_option dp_policy_workers dp) 1"

definition effective_io_workers :: "dataplane_cfg option \<Rightarrow> u32"
  where "effective_io_workers dp = positive_or (map_option dp_io_workers dp) 1"

definition parse_dataplane_runtime :: "string \<Rightarrow> (string, unit) result"
  where "parse_dataplane_runtime runtime =
    (if runtime \<in> {''sync'', ''split_io'', ''tokio''} then Ok ()
     else Err (''dataplane.runtime '' @ squote runtime @ '' must be sync, split_io, or tokio''))"

definition validate_dataplane :: "dataplane_cfg option \<Rightarrow> string list"
  where "validate_dataplane dp =
    (case dp of None \<Rightarrow> []
     | Some d \<Rightarrow>
       (let runtime = (if dp_runtime d = [] then ''sync'' else dp_runtime d) in
        err_list (parse_dataplane_runtime runtime)
        @ (if runtime = ''split_io'' \<or> runtime = ''tokio''
           then (if dp_policy_workers d = 0
               then [''dataplane.policy_workers must be >= 1 when runtime is split_io or tokio''] else [])
             @ (if dp_io_workers d = 0
               then [''dataplane.io_workers must be >= 1 when runtime is split_io or tokio''] else [])
           else [])
        @ (if dp_slot_chunk_size d = Some 0
           then [''dataplane.slot_chunk_size must be >= 1 when set''] else [])))"

definition effective_drain :: "shutdown_cfg option \<Rightarrow> bool"
  where "effective_drain s = or_default (Option.bind s sh_drain) True"

definition effective_drain_timeout_ms :: "shutdown_cfg option \<Rightarrow> u32"
  where "effective_drain_timeout_ms s = or_default (Option.bind s sh_drain_timeout_ms) 5000"

section \<open>Logging\<close>

record acl_denied_sample =
  as_mode :: string
  as_rate :: "f64 option"
  as_nth :: "u32 option"

record query_access_logging =
  qa_acl_denied :: string
  qa_acl_denied_sample :: "acl_denied_sample option"

record logging_cfg =
  lg_level :: string
  lg_output :: string
  lg_query_access :: "query_access_logging option"

text \<open>\<open>char::is_control\<close> on UTF-8 text: the controls below space, delete, and U+0080 to U+009F, which are
  the byte \<open>C2\<close> followed by \<open>80\<close> to \<open>9F\<close>.\<close>

definition is_control :: "char \<Rightarrow> bool"
  where "is_control c = (let n = (of_char c :: nat) in n < 32 \<or> n = 127)"

definition is_c1_control :: "char \<Rightarrow> char \<Rightarrow> bool"
  where "is_c1_control a b = (a = CHR 0xC2 \<and> (let n = (of_char b :: nat) in 128 \<le> n \<and> n \<le> 159))"

fun has_control :: "string \<Rightarrow> bool"
  where
    "has_control [] = False"
  | "has_control [a] = is_control a"
  | "has_control (a # b # rest) = (is_control a \<or> is_c1_control a b \<or> has_control (b # rest))"

fun strip_controls :: "string \<Rightarrow> string"
  where
    "strip_controls [] = []"
  | "strip_controls [a] = (if is_control a then [] else [a])"
  | "strip_controls (a # b # rest) =
      (if is_control a then strip_controls (b # rest)
       else if is_c1_control a b then strip_controls rest
       else a # strip_controls (b # rest))"

definition log_text :: "string \<Rightarrow> string"
  where "log_text input = (if \<not> has_control input then input else strip_controls input)"

definition validate_level :: "string \<Rightarrow> (string, unit) result"
  where "validate_level level =
    (if level \<in> {''error'', ''warn'', ''info'', ''debug'', ''trace''} then Ok ()
     else Err (''logging.level must be error|warn|info|debug|trace, got '' @ squote level))"

definition rate_in_range :: "f64 \<Rightarrow> bool"
  where "rate_in_range r = (case r of F64 x \<Rightarrow> 0 \<le> x \<and> x \<le> 100 | _ \<Rightarrow> False)"

definition validate_query_access :: "query_access_logging \<Rightarrow> (string, unit) result"
  where "validate_query_access qa =
    (if qa_acl_denied qa \<noteq> []
        \<and> qa_acl_denied qa \<notin> {''off'', ''error'', ''warn'', ''info'', ''debug'', ''trace''}
     then Err (''logging.query_access.acl_denied must be off|error|warn|info|debug|trace, got '' @ squote (qa_acl_denied qa))
     else case qa_acl_denied_sample qa of
       None \<Rightarrow> Ok ()
     | Some s \<Rightarrow>
       (if as_mode s = ''per_source''
        then if rate_in_range (or_default (as_rate s) (F64 100)) then Ok ()
          else Err ''logging.query_access.acl_denied_sample.rate must be 0-100''
        else if as_mode s = ''every_nth''
        then if or_default (as_nth s) 0 = 0
          then Err ''logging.query_access.acl_denied_sample.nth must be >= 1 when mode is every_nth''
          else Ok ()
        else Err (''logging.query_access.acl_denied_sample.mode must be per_source or every_nth, got ''
          @ squote (as_mode s))))"

definition validate_logging :: "logging_cfg option \<Rightarrow> (string, unit) result"
  where "validate_logging cfg =
    (case cfg of None \<Rightarrow> Ok ()
     | Some l \<Rightarrow>
       rbind (if lg_level l \<noteq> [] then validate_level (lg_level l) else Ok ()) (\<lambda>_.
         if lg_output l \<noteq> [] \<and> lg_output l \<noteq> ''stderr'' \<and> lg_output l \<noteq> ''stdout''
         then Err (''logging.output must be stderr or stdout, got '' @ squote (lg_output l))
         else case lg_query_access l of Some qa \<Rightarrow> validate_query_access qa | None \<Rightarrow> Ok ()))"

section \<open>Durations and sizes\<close>

definition split_number_unit :: "string \<Rightarrow> (string, string \<times> string) result"
  where "split_number_unit s =
    (if list_all is_digit s then Err (''duration '' @ squote s @ '' must include an ms or s unit'')
     else if takeWhile is_digit s = [] then Err (''invalid duration number in '' @ squote s)
     else Ok (takeWhile is_digit s, dropWhile is_digit s))"

definition parse_duration :: "string \<Rightarrow> (string, duration) result"
  where "parse_duration raw =
    (let s = trim raw in
     if s = [] then Err ''duration must not be empty''
     else rbind (split_number_unit s) (\<lambda>(number, u0).
       rbind (ok_or (''invalid duration number in '' @ squote s) (parse_u64 number)) (\<lambda>value.
         let u = to_ascii_lowercase u0 in
         if u = ''ms'' then Ok (from_millis (unat value))
         else if u = ''s'' then Ok (from_secs (unat value))
         else Err (''duration unit '' @ squote u @ '' must be ms or s''))))"

definition si_multiplier :: "string \<Rightarrow> nat option"
  where "si_multiplier suf =
    (if suf = ''KB'' then Some 1000 else if suf = ''MB'' then Some 1000000
     else if suf = ''GB'' then Some 1000000000 else if suf = ''TB'' then Some 1000000000000
     else if suf = ''PB'' then Some 1000000000000000 else None)"

text \<open>\<open>None\<close> is a panic: the code cuts the last two bytes off, which fails inside a character.\<close>

definition parse_si_size :: "(real \<Rightarrow> real) \<Rightarrow> string \<Rightarrow> (string, u64) result option"
  where "parse_si_size fl raw =
    (let s = trim raw; upper = to_ascii_uppercase s in
     if s = [] then Some (Err ''size must not be empty'')
     else if list_ex (\<lambda>iec. suffix iec upper) [''KIB'', ''MIB'', ''GIB'', ''TIB'', ''PIB'']
     then Some (Err (''size '' @ squote raw @ '' uses binary IEC suffix; use decimal SI (KB/MB/GB/TB/PB) or bare bytes''))
     else if list_all is_digit s
     then Some (ok_or (''size '' @ squote raw @ '' is not a valid byte count'') (parse_u64 s))
     else if length s < 3
     then Some (Err (''size '' @ squote raw @ '' must be bare bytes or a coefficient with SI suffix (KB/MB/GB/TB/PB)''))
     else if utf8_cont (upper ! (length upper - 2)) then None
     else
       let suf = drop (length upper - 2) upper; coef_str = take (length s - 2) s in
       Some (rbind (ok_or (''size '' @ squote raw @ '' has unknown suffix '' @ squote suf
           @ ''; use KB/MB/GB/TB/PB or bare bytes'') (si_multiplier suf)) (\<lambda>mult.
       rbind (ok_or (''size '' @ squote raw @ '' has invalid coefficient '' @ squote coef_str)
           (parse_f64 fl coef_str)) (\<lambda>coef.
         case coef of
           F64 c \<Rightarrow>
             (if c < 0 then Err (''size '' @ squote raw @ '' coefficient must be a non-negative finite number'')
              else let b = fl (c * real mult) in
                if 2 ^ 64 < b then Err (''size '' @ squote raw @ '' exceeds maximum u64 bytes'')
                else Ok (of_nat (min (nat \<lfloor>b\<rfloor>) (2 ^ 64 - 1))))
         | _ \<Rightarrow> Err (''size '' @ squote raw @ '' coefficient must be a non-negative finite number'')))))"

text \<open>One euro sign after a digit: the last two bytes start inside a character.\<close>

lemma parse_si_size_panics: "parse_si_size fl [CHR ''1'', CHR 0xE2, CHR 0x82, CHR 0xAC] = None"
  by (simp add: parse_si_size_def Let_def trim_id is_ascii_space_def is_digit_def to_ascii_uppercase_def
      to_upper_def utf8_cont_def suffix_def)

section \<open>Access lists\<close>

datatype acl_default_action = AclAllow | AclDeny

datatype acl_action = ActionDrop | ActionRefuse | ActionTag string | ActionAccept

record compiled_acl_rule =
  car_view :: string
  car_action :: acl_action

record compiled_acl_policy =
  cap_default_action :: acl_default_action
  cap_rules :: "compiled_acl_rule list"

datatype acl_decision = DecAdmit | DecDrop | DecRefuse | DecTag string

definition admit_all :: compiled_acl_policy
  where "admit_all = \<lparr>cap_default_action = AclAllow, cap_rules = []\<rparr>"

definition compile_acl_action :: "acl_rule_cfg \<Rightarrow> acl_action option"
  where "compile_acl_action rule =
    (if ar_action rule = ''drop'' then Some ActionDrop
     else if ar_action rule = ''refuse'' then Some ActionRefuse
     else if ar_action rule = ''accept'' then Some ActionAccept
     else if ar_action rule = ''tag'' then map_option ActionTag (ar_tag rule)
     else None)"

fun compile_acl_rules :: "acl_rule_cfg list \<Rightarrow> compiled_acl_rule list option"
  where
    "compile_acl_rules [] = Some []"
  | "compile_acl_rules (r # rs) =
      (case compile_acl_action r of
         None \<Rightarrow> None
       | Some a \<Rightarrow> map_option ((#) \<lparr>car_view = ar_match r, car_action = a\<rparr>) (compile_acl_rules rs))"

definition compile_acl :: "acls_cfg \<Rightarrow> compiled_acl_policy option"
  where "compile_acl cfg =
    map_option (\<lambda>rs. \<lparr>cap_default_action = (if acl_default_action cfg = ''deny'' then AclDeny else AclAllow),
      cap_rules = rs\<rparr>) (compile_acl_rules (acl_rules cfg))"

definition effective_acl :: "acls_cfg option \<Rightarrow> acls_cfg option \<Rightarrow> acls_cfg option"
  where "effective_acl global listener = (case listener of Some a \<Rightarrow> Some a | None \<Rightarrow> global)"

definition compile_effective :: "acls_cfg option \<Rightarrow> acls_cfg option \<Rightarrow> compiled_acl_policy option"
  where "compile_effective global listener =
    (case effective_acl global listener of Some cfg \<Rightarrow> compile_acl cfg | None \<Rightarrow> Some admit_all)"

text \<open>Views: the data source look-up, as a predicate on the view name.\<close>

type_synonym view_match = "string \<Rightarrow> bool"

fun preadmission_loop :: "view_match \<Rightarrow> compiled_acl_rule list \<Rightarrow> acl_decision"
  where
    "preadmission_loop hit [] = DecAdmit"
  | "preadmission_loop hit (r # rs) =
      (if hit (car_view r) then case car_action r of ActionDrop \<Rightarrow> DecDrop | _ \<Rightarrow> DecAdmit
       else preadmission_loop hit rs)"

definition evaluate_preadmission :: "view_match \<Rightarrow> compiled_acl_policy \<Rightarrow> acl_decision"
  where "evaluate_preadmission hit policy = preadmission_loop hit (cap_rules policy)"

fun decision_of :: "acl_action \<Rightarrow> acl_decision"
  where
    "decision_of ActionDrop = DecDrop"
  | "decision_of ActionRefuse = DecRefuse"
  | "decision_of (ActionTag name) = DecTag name"
  | "decision_of ActionAccept = DecAdmit"

fun full_loop :: "view_match \<Rightarrow> acl_default_action \<Rightarrow> compiled_acl_rule list \<Rightarrow> acl_decision"
  where
    "full_loop hit d [] = (case d of AclAllow \<Rightarrow> DecAdmit | AclDeny \<Rightarrow> DecDrop)"
  | "full_loop hit d (r # rs) = (if hit (car_view r) then decision_of (car_action r) else full_loop hit d rs)"

definition evaluate_full :: "view_match \<Rightarrow> compiled_acl_policy \<Rightarrow> acl_decision"
  where "evaluate_full hit policy = full_loop hit (cap_default_action policy) (cap_rules policy)"

section \<open>The gate of a worker\<close>

datatype acl_gate_outcome = GateAdmit | GateAdmitTagged string | GateDrop | GateRefuse

record acl_gate =
  ag_listener_label :: string
  ag_listener_address :: string
  ag_listener_protocol :: string
  ag_generation :: "u64 option"
  ag_compiled :: "compiled_acl_policy option"

text \<open>What the gate reads of a snapshot.\<close>

record acl_snapshot =
  asn_generation :: u64
  asn_acls :: "acls_cfg option"
  asn_listeners :: "listeners_cfg option"

definition gate_new :: "listener_cfg \<Rightarrow> string \<Rightarrow> acl_gate"
  where "gate_new l label = \<lparr>ag_listener_label = label, ag_listener_address = ln_address l,
    ag_listener_protocol = ln_protocol l, ag_generation = None, ag_compiled = None\<rparr>"

definition listener_acls_from_snap :: "acl_snapshot \<Rightarrow> string \<Rightarrow> string \<Rightarrow> acls_cfg option"
  where "listener_acls_from_snap snap address proto =
    (case asn_listeners snap of None \<Rightarrow> None
     | Some block \<Rightarrow>
       (case find (\<lambda>l. ln_address l = address \<and> ln_protocol l = proto) (ls_listeners block) of
          Some l \<Rightarrow> ln_acls l | None \<Rightarrow> None))"

text \<open>\<open>None\<close>: the compilation panics.\<close>

definition gate_refresh :: "acl_snapshot \<Rightarrow> acl_gate \<Rightarrow> acl_gate option"
  where "gate_refresh snap g =
    (if ag_generation g = Some (asn_generation snap) then Some g
     else
       let global = asn_acls snap;
           listener = listener_acls_from_snap snap (ag_listener_address g) (ag_listener_protocol g);
           g' = g\<lparr>ag_generation := Some (asn_generation snap)\<rparr> in
       case effective_acl global listener of
         None \<Rightarrow> Some (g'\<lparr>ag_compiled := None\<rparr>)
       | Some _ \<Rightarrow> map_option (\<lambda>p. g'\<lparr>ag_compiled := Some p\<rparr>) (compile_effective global listener))"

definition gate_preadmission :: "view_match \<Rightarrow> acl_gate \<Rightarrow> acl_gate_outcome"
  where "gate_preadmission hit g =
    (case ag_compiled g of
       None \<Rightarrow> GateAdmit
     | Some policy \<Rightarrow> (case evaluate_preadmission hit policy of DecDrop \<Rightarrow> GateDrop | _ \<Rightarrow> GateAdmit))"

definition gate_full :: "view_match \<Rightarrow> acl_gate \<Rightarrow> acl_gate_outcome"
  where "gate_full hit g =
    (case ag_compiled g of
       None \<Rightarrow> GateAdmit
     | Some policy \<Rightarrow> (case evaluate_full hit policy of
         DecAdmit \<Rightarrow> GateAdmit | DecTag tag \<Rightarrow> GateAdmitTagged tag | DecDrop \<Rightarrow> GateDrop | DecRefuse \<Rightarrow> GateRefuse))"

definition decide_preadmission :: "acl_snapshot \<Rightarrow> view_match \<Rightarrow> acl_gate \<Rightarrow> (acl_gate_outcome \<times> acl_gate) option"
  where "decide_preadmission snap hit g = map_option (\<lambda>g'. (gate_preadmission hit g', g')) (gate_refresh snap g)"

definition decide_full :: "acl_snapshot \<Rightarrow> view_match \<Rightarrow> acl_gate \<Rightarrow> (acl_gate_outcome \<times> acl_gate) option"
  where "decide_full snap hit g = map_option (\<lambda>g'. (gate_full hit g', g')) (gate_refresh snap g)"

definition decide :: "acl_snapshot \<Rightarrow> view_match \<Rightarrow> acl_gate \<Rightarrow> (acl_gate_outcome \<times> acl_gate) option"
  where "decide snap hit g =
    (case decide_preadmission snap hit g of
       None \<Rightarrow> None
     | Some (GateAdmit, g') \<Rightarrow> decide_full snap hit g'
     | Some (terminal, g') \<Rightarrow> Some (terminal, g'))"

section \<open>The control plane's report\<close>

record acl_check_result =
  ck_listener :: string
  ck_decision :: string
  ck_tag :: "string option"
  ck_matched :: string
  ck_action :: string

datatype acl_check_error = UnknownListener string | NoListeners

fun action_str :: "acl_action \<Rightarrow> string"
  where
    "action_str ActionDrop = ''drop''"
  | "action_str ActionRefuse = ''refuse''"
  | "action_str (ActionTag name) = ''tag''"
  | "action_str ActionAccept = ''accept''"

fun match_detail :: "view_match \<Rightarrow> acl_default_action \<Rightarrow> compiled_acl_rule list \<Rightarrow> string \<times> string"
  where
    "match_detail hit d [] = (''default'', case d of AclAllow \<Rightarrow> ''allow'' | AclDeny \<Rightarrow> ''deny'')"
  | "match_detail hit d (r # rs) =
      (if hit (car_view r) then (car_view r, action_str (car_action r)) else match_detail hit d rs)"

definition check_one_listener ::
  "view_match \<Rightarrow> acls_cfg option \<Rightarrow> acls_cfg option \<Rightarrow> string \<Rightarrow> acl_check_result option"
  where "check_one_listener hit global listener name =
    map_option (\<lambda>policy.
      let (matched, action) = match_detail hit (cap_default_action policy) (cap_rules policy);
          (decision, tag) = (case evaluate_full hit policy of
            DecAdmit \<Rightarrow> (''admit'', None) | DecDrop \<Rightarrow> (''drop'', None)
          | DecRefuse \<Rightarrow> (''refuse'', None) | DecTag t \<Rightarrow> (''tag'', Some t)) in
      \<lparr>ck_listener = name, ck_decision = decision, ck_tag = tag, ck_matched = matched, ck_action = action\<rparr>)
      (compile_effective global listener)"

fun check_loop ::
  "view_match \<Rightarrow> acls_cfg option \<Rightarrow> listeners_cfg \<Rightarrow> string option \<Rightarrow> listener_cfg list \<Rightarrow> acl_check_result list option"
  where
    "check_loop hit global block only [] = Some []"
  | "check_loop hit global block only (l # ls) =
      (let name = rl_name (resolve_listener_ingress block l) in
       if only \<noteq> None \<and> only \<noteq> Some name then check_loop hit global block only ls
       else case check_one_listener hit global (ln_acls l) name of
         None \<Rightarrow> None
       | Some r \<Rightarrow> map_option ((#) r) (check_loop hit global block only ls))"

definition check_client_acl ::
  "view_match \<Rightarrow> acls_cfg option \<Rightarrow> listeners_cfg option \<Rightarrow> string option
    \<Rightarrow> (acl_check_error, acl_check_result list) result option"
  where "check_client_acl hit global listeners listener_filter =
    (case listeners of
       None \<Rightarrow> Some (Err NoListeners)
     | Some block \<Rightarrow>
       if ls_listeners block = [] then Some (Err NoListeners)
       else map_option (\<lambda>rs. case listener_filter of
           Some f \<Rightarrow> if rs = [] then Err (UnknownListener f) else Ok rs
         | None \<Rightarrow> Ok rs) (check_loop hit global block listener_filter (ls_listeners block)))"

section \<open>Validation of access lists\<close>

definition validate_acl_rule :: "string \<Rightarrow> string list \<Rightarrow> nat \<Rightarrow> acl_rule_cfg \<Rightarrow> string list"
  where "validate_acl_rule ctx cidr_names i rule =
    (let here = ctx @ ''.rules['' @ show_nat i @ '']'' in
     (if ar_match rule = [] then [here @ ''.match must not be empty'']
      else if ar_match rule \<notin> set cidr_names
      then [here @ ''.match '' @ squote (ar_match rule) @ '' is not a type:cidr data_sources name''] else [])
     @ (if ar_action rule \<in> {''drop'', ''refuse'', ''accept''}
        then (if ar_tag rule \<noteq> None then [here @ ''.tag is only valid when action is tag''] else [])
        else if ar_action rule = ''tag''
        then (if nonempty_opt (ar_tag rule) = None then [here @ '' action tag requires a non-empty tag name''] else [])
        else [here @ ''.action must be drop|refuse|tag|accept, got '' @ squote (ar_action rule)]))"

definition validate_acl_block :: "string \<Rightarrow> acls_cfg \<Rightarrow> string list \<Rightarrow> string list"
  where "validate_acl_block ctx acls cidr_names =
    (if acl_default_action acls \<in> {''allow'', ''deny'', []} then []
     else [ctx @ ''.default_action must be allow or deny, got '' @ squote (acl_default_action acls)])
    @ concat (map (\<lambda>(i, rule). validate_acl_rule ctx cidr_names i rule) (enumerate 0 (acl_rules acls)))"

definition validate_acls :: "data_source_cfg list \<Rightarrow> acls_cfg option \<Rightarrow> listeners_cfg option \<Rightarrow> string list"
  where "validate_acls sources acls listeners =
    (let cidr_names = map ds_name (filter (\<lambda>ds. ds_type ds = ''cidr'') sources) in
     (case acls of Some a \<Rightarrow> validate_acl_block ''acls'' a cidr_names | None \<Rightarrow> [])
     @ (case listeners of None \<Rightarrow> []
        | Some block \<Rightarrow> concat (map (\<lambda>(i, l).
            case ln_acls l of None \<Rightarrow> []
            | Some a \<Rightarrow>
              validate_acl_block (case nonempty_opt (ln_name l) of
                  Some n \<Rightarrow> ''listeners.listeners['' @ show_nat i @ ''] (name '' @ squote n @ '') acls''
                | None \<Rightarrow> ''listeners.listeners['' @ show_nat i @ ''].acls'') a cidr_names)
            (enumerate 0 (ls_listeners block)))))"

section \<open>Properties\<close>

lemma preadmission_drop: "preadmission_loop hit rs = DecDrop \<Longrightarrow> full_loop hit d rs = DecDrop"
  by (induction rs) (auto split: if_splits acl_action.splits)

lemma gate_refresh_idem: "gate_refresh snap g = Some g' \<Longrightarrow> gate_refresh snap g' = Some g'"
  by (auto simp: gate_refresh_def Let_def split: if_splits option.splits)

lemma gate_preadmission_cases:
  "gate_preadmission hit g = GateAdmit \<or> (gate_preadmission hit g = GateDrop \<and> gate_full hit g = GateDrop)"
  by (auto simp: gate_preadmission_def gate_full_def evaluate_preadmission_def evaluate_full_def preadmission_drop
      split: option.splits acl_decision.splits)

text \<open>C12: The two tiers of the client access list together decide exactly as the full list does:
  an early drop is a drop of the full list, and everything else is left to it.\<close>

theorem acl_tiers_agree: "decide snap hit g = decide_full snap hit g"
proof (cases "gate_refresh snap g")
  case None
  then show ?thesis by (simp add: decide_def decide_preadmission_def decide_full_def)
next
  case (Some g')
  then show ?thesis
    using gate_preadmission_cases [of hit g'] gate_refresh_idem [OF Some]
    by (auto simp: decide_def decide_preadmission_def decide_full_def)
qed

text \<open>The control plane reports the decision the gate takes.\<close>

lemma check_reports_decision:
  assumes "check_one_listener hit global listener name = Some r"
  shows "\<exists>policy. compile_effective global listener = Some policy
    \<and> (ck_decision r = ''drop'' \<longleftrightarrow> evaluate_full hit policy = DecDrop)
    \<and> (ck_decision r = ''refuse'' \<longleftrightarrow> evaluate_full hit policy = DecRefuse)
    \<and> (\<forall>t. ck_tag r = Some t \<longleftrightarrow> evaluate_full hit policy = DecTag t)"
proof -
  from assms obtain policy where "compile_effective global listener = Some policy"
    by (auto simp: check_one_listener_def)
  with assms show ?thesis
    by (cases "match_detail hit (cap_default_action policy) (cap_rules policy)"; cases "evaluate_full hit policy")
      (auto simp: check_one_listener_def)
qed

lemma valid_acl_rules_compile:
  assumes "\<forall>(i, rule) \<in> set (enumerate n rules). validate_acl_rule ctx names i rule = []"
  shows "\<exists>cs. compile_acl_rules rules = Some cs \<and> (\<forall>c \<in> set cs. car_view c \<in> set names)"
  using assms
proof (induction rules arbitrary: n)
  case (Cons r rules)
  then obtain cs where "compile_acl_rules rules = Some cs" "\<forall>c \<in> set cs. car_view c \<in> set names"
    by fastforce
  moreover from Cons.prems have "validate_acl_rule ctx names n r = []" by simp
  then have "ar_match r \<in> set names" "\<exists>a. compile_acl_action r = Some a"
    by (auto simp: validate_acl_rule_def compile_acl_action_def nonempty_opt_def Let_def split: if_splits option.splits)
  ultimately show ?case by auto
qed simp

lemma valid_block_compiles:
  assumes "validate_acl_block ctx acls names = []"
  shows "\<exists>p. compile_acl acls = Some p \<and> (\<forall>c \<in> set (cap_rules p). car_view c \<in> set names)"
proof -
  from assms have "\<forall>(i, rule) \<in> set (enumerate 0 (acl_rules acls)). validate_acl_rule ctx names i rule = []"
    by (fastforce simp: validate_acl_block_def)
  then obtain cs where "compile_acl_rules (acl_rules acls) = Some cs" "\<forall>c \<in> set cs. car_view c \<in> set names"
    using valid_acl_rules_compile by blast
  then show ?thesis by (auto simp: compile_acl_def)
qed

lemma valid_listener_block:
  assumes "validate_acls sources acls (Some block) = []" "l \<in> set (ls_listeners block)" "ln_acls l = Some a"
  shows "\<exists>ctx. validate_acl_block ctx a (map ds_name (filter (\<lambda>ds. ds_type ds = ''cidr'') sources)) = []"
proof -
  obtain i where i: "(i, l) \<in> set (enumerate 0 (ls_listeners block))"
    using assms(2) by (metis in_set_conv_nth in_set_enumerate_eq fst_conv snd_conv le0 add_0 nth_enumerate_eq length_enumerate)
  show ?thesis
    using assms(1,3) i by (fastforce simp: validate_acls_def Let_def)
qed

text \<open>C27: With access lists that validate and data sources that load, the gate of a worker never
  panics, whatever snapshot it held before, and every view its policy names is a loaded table.\<close>

theorem validated_acls_safe:
  assumes "validate_acls sources (asn_acls snap) (asn_listeners snap) = []"
    and "load_data_sources ops parse_net read_file sources base limits = Ok store"
    and "ag_generation g \<noteq> Some (asn_generation snap)"
  shows "\<exists>out g'. decide snap hit g = Some (out, g')
    \<and> (\<forall>policy. ag_compiled g' = Some policy \<longrightarrow> (\<forall>c \<in> set (cap_rules policy). has_cidr_table (car_view c) store))"
proof -
  let ?names = "map ds_name (filter (\<lambda>ds. ds_type ds = ''cidr'') sources)"
  let ?listener = "listener_acls_from_snap snap (ag_listener_address g) (ag_listener_protocol g)"
  have "\<exists>ctx. validate_acl_block ctx a ?names = []" if "effective_acl (asn_acls snap) ?listener = Some a" for a
  proof (cases ?listener)
    case None
    with that assms(1) show ?thesis by (auto simp: effective_acl_def validate_acls_def Let_def)
  next
    case (Some b)
    then obtain block l where "asn_listeners snap = Some block" "l \<in> set (ls_listeners block)" "ln_acls l = Some b"
      by (force simp: listener_acls_from_snap_def find_Some_iff split: option.splits)
    with valid_listener_block [of sources "asn_acls snap" block l b] assms(1) that Some show ?thesis
      by (auto simp: effective_acl_def)
  qed
  then have compiled: "\<exists>p. compile_acl a = Some p \<and> (\<forall>c \<in> set (cap_rules p). car_view c \<in> set ?names)"
    if "effective_acl (asn_acls snap) ?listener = Some a" for a
    using that valid_block_compiles by blast
  have loaded: "has_cidr_table name store" if "name \<in> set ?names" for name
    using that loaded_names [OF assms(2)] by auto
  obtain g' where g': "gate_refresh snap g = Some g'"
    and views: "\<forall>policy. ag_compiled g' = Some policy \<longrightarrow> (\<forall>c \<in> set (cap_rules policy). has_cidr_table (car_view c) store)"
    using compiled loaded assms(3)
    by (cases "effective_acl (asn_acls snap) ?listener")
      (fastforce simp: gate_refresh_def Let_def compile_effective_def)+
  have "decide snap hit g = Some (gate_full hit g', g')"
    using g' gate_preadmission_cases [of hit g'] gate_refresh_idem [OF g']
    by (auto simp: decide_def decide_preadmission_def decide_full_def)
  with views show ?thesis by blast
qed

definition example_acls :: acls_cfg
  where "example_acls = \<lparr>acl_default_action = ''deny'',
    acl_rules = [\<lparr>ar_match = ''lan'', ar_action = ''tag'', ar_tag = Some ''inside''\<rparr>]\<rparr>"

definition example_cidr_source :: data_source_cfg
  where "example_cidr_source = example_source\<lparr>ds_name := ''lan'', ds_type := ''cidr''\<rparr>"

definition example_snapshot :: acl_snapshot
  where "example_snapshot = \<lparr>asn_generation = 1, asn_acls = Some example_acls, asn_listeners = None\<rparr>"

definition example_gate :: acl_gate
  where "example_gate = \<lparr>ag_listener_label = ''l'', ag_listener_address = ''0.0.0.0:53'', ag_listener_protocol = ''udp'',
    ag_generation = None, ag_compiled = None\<rparr>"

lemma example_cidr_loads:
  "load_data_sources list_trie (\<lambda>_. None) (\<lambda>_. Ok []) [example_cidr_source] None example_limits =
    Ok \<lparr>st_tables = [], st_cidr_tables = [(''lan'', empty_cidr_table list_trie)]\<rparr>"
  by (simp add: load_data_sources_def check_source_def load_source_def load_cidr_table_def read_capped_def
      text_lines_def example_cidr_source_def example_source_def example_limits_def empty_store_def
      effective_for_def sat_add_def Let_def)

theorem validated_acls_safe_witness:
  "\<exists>out g'. decide example_snapshot (\<lambda>_. True) example_gate = Some (out, g')
    \<and> (\<forall>policy. ag_compiled g' = Some policy \<longrightarrow> (\<forall>c \<in> set (cap_rules policy). has_cidr_table (car_view c)
        \<lparr>st_tables = [], st_cidr_tables = [(''lan'', empty_cidr_table list_trie)]\<rparr>))"
  by (rule validated_acls_safe [OF _ example_cidr_loads])
    (simp_all add: validate_acls_def validate_acl_block_def validate_acl_rule_def example_snapshot_def example_acls_def
      example_gate_def example_cidr_source_def example_source_def nonempty_opt_def Let_def)

end
