(* ===== verification/Lookup_Config.thy ===== *)
theory Lookup_Config
  imports Listeners
begin

text \<open>
  Lookup profiles and cache instances: their compilation (\<open>conduit-config/src/lookup.rs\<close>).

  Profiles and instances are association lists with distinct names.  The check that an LMDB
  directory can be used touches the file system: the parameter \<open>preflight\<close>.

  What is shown: in a configuration that compiles every cache provider of every profile names a
  compiled instance, and every instance keeps the bounds the cache code relies on.
\<close>

section \<open>Configuration\<close>

record lookup_provider_cfg =
  lp_type :: string
  lp_cache :: "string option"

record negative_cfg =
  ng_enabled :: "bool option"
  ng_nxdomain_covers_descendants :: "bool option"
  ng_servfail_ttl_secs :: "u32 option"

record truncated_udp_cfg =
  tu_enabled :: "bool option"
  tu_ttl_secs :: "u32 option"

record memory_cfg =
  mem_shard_count :: "u32 option"
  mem_eviction :: "string option"

record lmdb_cfg =
  lm_path :: string
  lm_map_size_bytes :: u64
  lm_when_full :: "string option"
  lm_sample_size :: "u32 option"
  lm_shard_count :: "u32 option"
  lm_sync :: "string option"
  lm_sync_interval :: "string option"

record cache_instance_cfg =
  cic_name :: string
  cic_type :: string
  cic_negative :: "negative_cfg option"
  cic_on_hit :: "string option"
  cic_rotate_rrset_on_serve :: "bool option"
  cic_memory :: "memory_cfg option"
  cic_max_entries :: "u64 option"
  cic_truncated_udp :: "truncated_udp_cfg option"
  cic_lmdb :: "lmdb_cfg option"

type_synonym lookup_cfg = "(string \<times> lookup_provider_cfg list) list"

section \<open>Compiled settings\<close>

datatype cache_backend_type = BackendMemory | BackendLmdb | BackendEbpfMap

definition parse_cache_backend_type :: "string \<Rightarrow> (string, cache_backend_type) result"
  where "parse_cache_backend_type raw =
    (let t = trim raw in
     if t = ''memory'' then Ok BackendMemory
     else if t = ''lmdb'' then Ok BackendLmdb
     else if t = ''ebpf_map'' then Ok BackendEbpfMap
     else Err (''cache type '' @ squote t @ '' must be memory or lmdb (ebpf_map is reserved)''))"

fun cache_backend_type_str :: "cache_backend_type \<Rightarrow> string"
  where
    "cache_backend_type_str BackendMemory = ''memory''"
  | "cache_backend_type_str BackendLmdb = ''lmdb''"
  | "cache_backend_type_str BackendEbpfMap = ''ebpf_map''"

datatype on_hit_response_rules = HitSkip | HitRun

definition parse_on_hit :: "string \<Rightarrow> (string, on_hit_response_rules) result"
  where "parse_on_hit raw =
    (let t = trim raw in
     if t = ''skip'' then Ok HitSkip
     else if t = [] \<or> t = ''run'' then Ok HitRun
     else Err (''on_hit.response_rules '' @ squote t @ '' must be skip or run''))"

fun on_hit_str :: "on_hit_response_rules \<Rightarrow> string"
  where
    "on_hit_str HitSkip = ''skip''"
  | "on_hit_str HitRun = ''run''"

datatype eviction_mode = EvictPassive | EvictActive

definition parse_eviction :: "string \<Rightarrow> (string, eviction_mode) result"
  where "parse_eviction raw =
    (let t = trim raw in
     if t = [] \<or> t = ''passive'' then Ok EvictPassive
     else if t = ''active'' then Ok EvictActive
     else Err (''memory.eviction '' @ squote t @ '' must be passive or active''))"

fun eviction_str :: "eviction_mode \<Rightarrow> string"
  where
    "eviction_str EvictPassive = ''passive''"
  | "eviction_str EvictActive = ''active''"

datatype lmdb_when_full = FullRefuse | FullEvictOne | FullSample

definition parse_when_full :: "string \<Rightarrow> (string, lmdb_when_full) result"
  where "parse_when_full raw =
    (let t = trim raw in
     if t = [] \<or> t = ''evict_one'' then Ok FullEvictOne
     else if t = ''refuse'' then Ok FullRefuse
     else if t = ''sample'' then Ok FullSample
     else Err (''lmdb.when_full '' @ squote t @ '' must be refuse, evict_one, or sample''))"

fun when_full_str :: "lmdb_when_full \<Rightarrow> string"
  where
    "when_full_str FullRefuse = ''refuse''"
  | "when_full_str FullEvictOne = ''evict_one''"
  | "when_full_str FullSample = ''sample''"

datatype lmdb_sync = SyncFull | SyncNoMeta | SyncPeriodic | SyncNone

definition parse_sync :: "string \<Rightarrow> (string, lmdb_sync) result"
  where "parse_sync raw =
    (let t = trim raw in
     if t = [] \<or> t = ''full'' then Ok SyncFull
     else if t = ''no_meta'' then Ok SyncNoMeta
     else if t = ''periodic'' then Ok SyncPeriodic
     else if t = ''none'' then Ok SyncNone
     else Err (''lmdb.sync '' @ squote t @ '' must be full, no_meta, periodic, or none''))"

fun sync_str :: "lmdb_sync \<Rightarrow> string"
  where
    "sync_str SyncFull = ''full''"
  | "sync_str SyncNoMeta = ''no_meta''"
  | "sync_str SyncPeriodic = ''periodic''"
  | "sync_str SyncNone = ''none''"

datatype lookup_provider = ProviderCache string | ProviderForward

record compiled_negative_cache =
  nc_enabled :: bool
  nc_nxdomain_covers_descendants :: bool
  nc_servfail_ttl_secs :: u32

record compiled_memory_cache =
  cm_shard_count :: u32
  cm_eviction :: eviction_mode

record compiled_lmdb_cache =
  cl_path :: string
  cl_map_size_bytes :: u64
  cl_when_full :: lmdb_when_full
  cl_sample_size :: u32
  cl_sync :: lmdb_sync
  cl_sync_interval :: "duration option"
  cl_shard_count :: "u32 option"
  cl_lookup_thread_count :: u32

record compiled_truncated_udp =
  ctu_enabled :: bool
  ctu_ttl_secs :: u32

record compiled_cache_instance =
  cc_name :: string
  cc_backend_type :: cache_backend_type
  cc_negative_cache :: compiled_negative_cache
  cc_on_hit_response_rules :: on_hit_response_rules
  cc_truncated_udp :: compiled_truncated_udp
  cc_rotate_rrset_on_serve :: bool
  cc_memory :: compiled_memory_cache
  cc_lmdb :: "compiled_lmdb_cache option"
  cc_max_entries :: u64

record compiled_lookup_profile =
  lpf_name :: string
  lpf_providers :: "lookup_provider list"

record compiled_lookup =
  lk_enabled :: bool
  lk_profiles :: "(string \<times> compiled_lookup_profile) list"
  lk_cache_instances :: "(string \<times> compiled_cache_instance) list"
  lk_cache_provider_configured :: bool

section \<open>Compilation\<close>

definition DEFAULT_LOOKUP_PROFILE :: string
  where "DEFAULT_LOOKUP_PROFILE = ''default''"

definition DEFAULT_MEMORY_SHARD_COUNT :: u32
  where "DEFAULT_MEMORY_SHARD_COUNT = 16"

definition MAX_LMDB_SHARD_COUNT :: u32
  where "MAX_LMDB_SHARD_COUNT = 64"

definition compile_truncated_udp :: "string \<Rightarrow> truncated_udp_cfg option \<Rightarrow> (string, compiled_truncated_udp) result"
  where "compile_truncated_udp ctx cfg =
    (case cfg of None \<Rightarrow> Ok \<lparr>ctu_enabled = False, ctu_ttl_secs = 60\<rparr>
     | Some t \<Rightarrow>
       if or_default (tu_enabled t) False
       then (case tu_ttl_secs t of
           Some ttl \<Rightarrow> if ttl = 0
             then Err (ctx @ ''.truncated_udp.ttl_secs must be set and > 0 when truncated_udp.enabled is true'')
             else Ok \<lparr>ctu_enabled = True, ctu_ttl_secs = ttl\<rparr>
         | None \<Rightarrow> Err (ctx @ ''.truncated_udp.ttl_secs must be set and > 0 when truncated_udp.enabled is true''))
       else Ok \<lparr>ctu_enabled = False, ctu_ttl_secs = or_default (tu_ttl_secs t) 60\<rparr>)"

definition compile_negative_cache :: "negative_cfg option \<Rightarrow> compiled_negative_cache"
  where "compile_negative_cache cfg =
    (case cfg of
       None \<Rightarrow> \<lparr>nc_enabled = True, nc_nxdomain_covers_descendants = True, nc_servfail_ttl_secs = 10\<rparr>
     | Some n \<Rightarrow> \<lparr>nc_enabled = or_default (ng_enabled n) True,
         nc_nxdomain_covers_descendants = or_default (ng_nxdomain_covers_descendants n) True,
         nc_servfail_ttl_secs = or_default (ng_servfail_ttl_secs n) 10\<rparr>)"

definition compile_on_hit :: "string \<Rightarrow> string option \<Rightarrow> (string, on_hit_response_rules) result"
  where "compile_on_hit ctx cfg =
    (case cfg of None \<Rightarrow> Ok HitRun
     | Some r \<Rightarrow> map_err (\<lambda>e. ctx @ ''.on_hit: '' @ e) (parse_on_hit r))"

definition compile_memory :: "string \<Rightarrow> memory_cfg option \<Rightarrow> (string, compiled_memory_cache) result"
  where "compile_memory ctx cfg =
    (case cfg of None \<Rightarrow> Ok \<lparr>cm_shard_count = DEFAULT_MEMORY_SHARD_COUNT, cm_eviction = EvictPassive\<rparr>
     | Some m \<Rightarrow>
       (let shard_count = or_default (mem_shard_count m) DEFAULT_MEMORY_SHARD_COUNT in
        if shard_count = 0 then Err (ctx @ ''.memory.shard_count must be >= 1'')
        else rbind (map_err (\<lambda>e. ctx @ ''.memory: '' @ e) (parse_eviction (or_default (mem_eviction m) ''passive'')))
          (\<lambda>ev. Ok \<lparr>cm_shard_count = shard_count, cm_eviction = ev\<rparr>)))"

definition compile_sync_interval :: "string \<Rightarrow> lmdb_sync \<Rightarrow> string option \<Rightarrow> (string, duration option) result"
  where "compile_sync_interval ctx sync raw =
    (case raw of
       Some r \<Rightarrow> rbind (map_err (\<lambda>e. ctx @ ''.lmdb.sync_interval: '' @ e) (parse_duration r)) (\<lambda>interval.
         if sync \<noteq> SyncPeriodic then Err (ctx @ ''.lmdb.sync_interval must only be set when lmdb.sync is periodic'')
         else if \<not> (from_millis 250 \<le> interval \<and> interval \<le> from_secs 60)
         then Err (ctx @ ''.lmdb.sync_interval must be between 250ms and 60s'')
         else Ok (Some interval))
     | None \<Rightarrow> Ok (if sync = SyncPeriodic then Some (from_secs 1) else None))"

definition compile_shard_count :: "string \<Rightarrow> u32 option \<Rightarrow> (string, u32 option) result"
  where "compile_shard_count ctx n =
    (case n of None \<Rightarrow> Ok None
     | Some k \<Rightarrow> if k = 0 then Err (ctx @ ''.lmdb.shard_count must be >= 1'')
       else Ok (Some (min k MAX_LMDB_SHARD_COUNT)))"

definition compile_lmdb ::
  "(string \<Rightarrow> string \<Rightarrow> (string, unit) result) \<Rightarrow> string \<Rightarrow> u32 \<Rightarrow> lmdb_cfg option \<Rightarrow> (string, compiled_lmdb_cache) result"
  where "compile_lmdb preflight ctx lookup_thread_count cfg =
    (case cfg of None \<Rightarrow> Err (ctx @ '': type lmdb requires an lmdb block with path and map_size'')
     | Some l \<Rightarrow>
       if lm_path l = [] then Err (ctx @ ''.lmdb.path must not be empty'')
       else if lm_map_size_bytes l = 0 then Err (ctx @ ''.lmdb.map_size must be set and > 0'')
       else
         rbind (map_err (\<lambda>e. ctx @ ''.lmdb: '' @ e) (parse_when_full (or_default (lm_when_full l) ''evict_one''))) (\<lambda>when_full.
         let sample_size = or_default (lm_sample_size l) 16 in
         if when_full = FullSample \<and> sample_size < 1
         then Err (ctx @ ''.lmdb.sample_size must be >= 1 when when_full is sample'')
         else
         rbind (map_err (\<lambda>e. ctx @ ''.lmdb: '' @ e) (parse_sync (or_default (lm_sync l) ''full''))) (\<lambda>sync.
         rbind (compile_sync_interval ctx sync (lm_sync_interval l)) (\<lambda>interval.
         rbind (compile_shard_count ctx (lm_shard_count l)) (\<lambda>shards.
         rbind (preflight (lm_path l) ctx) (\<lambda>_.
           Ok \<lparr>cl_path = lm_path l, cl_map_size_bytes = lm_map_size_bytes l, cl_when_full = when_full,
             cl_sample_size = sample_size, cl_sync = sync, cl_sync_interval = interval, cl_shard_count = shards,
             cl_lookup_thread_count = max lookup_thread_count 1\<rparr>))))))"

definition compile_store ::
  "(string \<Rightarrow> string \<Rightarrow> (string, unit) result) \<Rightarrow> string \<Rightarrow> u32 \<Rightarrow> cache_backend_type \<Rightarrow> cache_instance_cfg
    \<Rightarrow> (string, compiled_memory_cache \<times> compiled_lmdb_cache option) result"
  where "compile_store preflight ctx threads backend_type c =
    (if backend_type = BackendMemory
     then rbind (compile_memory ctx (cic_memory c)) (\<lambda>m. Ok (m, None))
     else rbind (compile_lmdb preflight ctx threads (cic_lmdb c)) (\<lambda>l.
       Ok (\<lparr>cm_shard_count = DEFAULT_MEMORY_SHARD_COUNT, cm_eviction = EvictPassive\<rparr>, Some l)))"

definition check_backend_blocks :: "string \<Rightarrow> cache_backend_type \<Rightarrow> cache_instance_cfg \<Rightarrow> (string, unit) result"
  where "check_backend_blocks ctx backend_type c =
    (case backend_type of
       BackendEbpfMap \<Rightarrow> Err (ctx @ '': type 'ebpf_map' is reserved and not implemented'')
     | BackendMemory \<Rightarrow> if cic_lmdb c \<noteq> None
         then Err (ctx @ '': lmdb block is not allowed when type is memory'') else Ok ()
     | BackendLmdb \<Rightarrow> if cic_memory c \<noteq> None
         then Err (ctx @ '': memory block is not allowed when type is lmdb'') else Ok ())"

definition compile_cache_instance ::
  "(string \<Rightarrow> string \<Rightarrow> (string, unit) result) \<Rightarrow> u32 \<Rightarrow> nat \<Rightarrow> string list \<Rightarrow> cache_instance_cfg
    \<Rightarrow> (string, compiled_cache_instance) result"
  where "compile_cache_instance preflight threads idx names c =
    (let ctx = ''caches['' @ show_nat idx @ '']'' in
     if cic_name c = [] then Err (ctx @ '': name must not be empty'')
     else if cic_name c \<in> set names then Err (''duplicate cache name '' @ squote (cic_name c))
     else
       rbind (map_err (\<lambda>e. ctx @ '': '' @ e) (parse_cache_backend_type (cic_type c))) (\<lambda>backend_type.
       rbind (check_backend_blocks ctx backend_type c) (\<lambda>_.
       rbind (compile_on_hit ctx (cic_on_hit c)) (\<lambda>on_hit.
       rbind (compile_truncated_udp ctx (cic_truncated_udp c)) (\<lambda>tc.
       rbind (compile_store preflight ctx threads backend_type c) (\<lambda>(memory, lmdb).
         Ok \<lparr>cc_name = cic_name c, cc_backend_type = backend_type,
           cc_negative_cache = compile_negative_cache (cic_negative c), cc_on_hit_response_rules = on_hit,
           cc_truncated_udp = tc, cc_rotate_rrset_on_serve = or_default (cic_rotate_rrset_on_serve c) False,
           cc_memory = memory, cc_lmdb = lmdb, cc_max_entries = or_default (cic_max_entries c) 0\<rparr>))))))"

fun compile_instance_list ::
  "(string \<Rightarrow> string \<Rightarrow> (string, unit) result) \<Rightarrow> u32 \<Rightarrow> nat \<Rightarrow> string list \<Rightarrow> cache_instance_cfg list
    \<Rightarrow> (string, (string \<times> compiled_cache_instance) list) result"
  where
    "compile_instance_list preflight threads idx names [] = Ok []"
  | "compile_instance_list preflight threads idx names (c # cs) =
      rbind (compile_cache_instance preflight threads idx names c) (\<lambda>inst.
      rbind (compile_instance_list preflight threads (idx + 1) (cic_name c # names) cs) (\<lambda>rest.
        Ok ((cic_name c, inst) # rest)))"

definition compile_cache_instances ::
  "(string \<Rightarrow> string \<Rightarrow> (string, unit) result) \<Rightarrow> u32 \<Rightarrow> cache_instance_cfg list
    \<Rightarrow> (string, (string \<times> compiled_cache_instance) list) result"
  where "compile_cache_instances preflight threads cs = compile_instance_list preflight threads 0 [] cs"

definition compile_provider ::
  "string \<Rightarrow> (string \<times> compiled_cache_instance) list \<Rightarrow> nat \<times> lookup_provider_cfg \<Rightarrow> (string, lookup_provider) result"
  where "compile_provider profile_name instances = (\<lambda>(idx, p).
    let ctx = ''lookup.profiles.'' @ profile_name @ ''.providers['' @ show_nat idx @ '']''; t = trim (lp_type p) in
    if t = ''forward'' then Ok ProviderForward
    else if t = ''cache''
    then (case nonempty_opt (lp_cache p) of
        None \<Rightarrow> Err (ctx @ '': cache provider requires cache instance name'')
      | Some name \<Rightarrow> if map_of instances name = None
          then Err (ctx @ '': unknown cache instance '' @ squote name) else Ok (ProviderCache name))
    else if t = [] then Err (ctx @ '': provider type must not be empty'')
    else Err (ctx @ '': provider type '' @ squote t @ '' must be cache or forward''))"

definition compile_profile ::
  "(string \<times> compiled_cache_instance) list \<Rightarrow> string \<times> lookup_provider_cfg list
    \<Rightarrow> (string, string \<times> compiled_lookup_profile) result"
  where "compile_profile instances = (\<lambda>(name, providers).
    if name = [] then Err ''lookup profile name must not be empty''
    else if providers = [] then Err (''lookup.profiles.'' @ name @ ''.providers must contain at least one provider'')
    else rbind (traverse (compile_provider name instances) (enumerate 0 providers)) (\<lambda>ps.
      Ok (name, \<lparr>lpf_name = name, lpf_providers = ps\<rparr>)))"

definition is_cache_provider :: "lookup_provider \<Rightarrow> bool"
  where "is_cache_provider p = (case p of ProviderCache _ \<Rightarrow> True | ProviderForward \<Rightarrow> False)"

text \<open>Threads that run lookups: with the synchronous runtime the sum over the listeners, which wraps.\<close>

definition lookup_concurrency_for_lmdb_default :: "dataplane_cfg option \<Rightarrow> listeners_cfg option \<Rightarrow> u32"
  where "lookup_concurrency_for_lmdb_default dp listeners =
    (let runtime = effective_dataplane_runtime dp in
     if runtime = ''split_io'' \<or> runtime = ''tokio'' then max (effective_policy_workers dp) 1
     else case listeners of
       None \<Rightarrow> 1
     | Some block \<Rightarrow>
       if ls_listeners block = [] then max (ls_threads block) 1
       else max (sum_list (map (\<lambda>l. rl_threads (resolve_listener_ingress block l)) (ls_listeners block))) 1)"

definition compile_lookup ::
  "(string \<Rightarrow> string \<Rightarrow> (string, unit) result) \<Rightarrow> dataplane_cfg option \<Rightarrow> listeners_cfg option \<Rightarrow> cache_instance_cfg list
    \<Rightarrow> lookup_cfg option \<Rightarrow> (string, compiled_lookup) result"
  where "compile_lookup preflight dp listeners caches lookup =
    rbind (compile_cache_instances preflight (lookup_concurrency_for_lmdb_default dp listeners) caches) (\<lambda>instances.
    case lookup of
      None \<Rightarrow> Ok \<lparr>lk_enabled = True,
        lk_profiles = [(DEFAULT_LOOKUP_PROFILE, \<lparr>lpf_name = DEFAULT_LOOKUP_PROFILE, lpf_providers = [ProviderForward]\<rparr>)],
        lk_cache_instances = instances, lk_cache_provider_configured = False\<rparr>
    | Some profiles \<Rightarrow>
      if profiles = [] then Err ''lookup.profiles must contain at least one profile when lookup is configured''
      else if list_ex (\<lambda>(_, ps). list_ex (\<lambda>p. trim (lp_type p) = ''cache'') ps) profiles \<and> caches = []
      then Err ''lookup profile references cache provider but caches list is empty''
      else rbind (traverse (compile_profile instances) profiles) (\<lambda>compiled.
        let configured = list_ex (\<lambda>(_, p). list_ex is_cache_provider (lpf_providers p)) compiled in
        if configured \<and> caches = [] then Err ''lookup profile references cache provider but caches list is empty''
        else Ok \<lparr>lk_enabled = True, lk_profiles = compiled, lk_cache_instances = instances,
          lk_cache_provider_configured = configured\<rparr>))"

definition lookup_cache_enabled :: "compiled_lookup \<Rightarrow> bool"
  where "lookup_cache_enabled lk = lk_cache_provider_configured lk"

definition default_profile :: "compiled_lookup \<Rightarrow> compiled_lookup_profile option"
  where "default_profile lk = map_of (lk_profiles lk) DEFAULT_LOOKUP_PROFILE"

definition validate_lookup ::
  "(string \<Rightarrow> string \<Rightarrow> (string, unit) result) \<Rightarrow> dataplane_cfg option \<Rightarrow> listeners_cfg option \<Rightarrow> cache_instance_cfg list
    \<Rightarrow> lookup_cfg option \<Rightarrow> string list"
  where "validate_lookup preflight dp listeners caches lookup = err_list (compile_lookup preflight dp listeners caches lookup)"

section \<open>What compiles is consistent\<close>

definition instance_ok :: "compiled_cache_instance \<Rightarrow> bool"
  where "instance_ok c \<longleftrightarrow> cc_name c \<noteq> [] \<and> cc_backend_type c \<noteq> BackendEbpfMap
    \<and> (cc_lmdb c = None \<longleftrightarrow> cc_backend_type c = BackendMemory)
    \<and> 1 \<le> cm_shard_count (cc_memory c)
    \<and> (ctu_enabled (cc_truncated_udp c) \<longrightarrow> 0 < ctu_ttl_secs (cc_truncated_udp c))
    \<and> (case cc_lmdb c of None \<Rightarrow> True
       | Some l \<Rightarrow> cl_path l \<noteq> [] \<and> 0 < cl_map_size_bytes l \<and> 1 \<le> cl_lookup_thread_count l
         \<and> (cl_when_full l = FullSample \<longrightarrow> 1 \<le> cl_sample_size l)
         \<and> (case cl_shard_count l of None \<Rightarrow> True | Some n \<Rightarrow> 1 \<le> n \<and> n \<le> MAX_LMDB_SHARD_COUNT)
         \<and> (cl_sync_interval l \<noteq> None \<longleftrightarrow> cl_sync l = SyncPeriodic)
         \<and> (case cl_sync_interval l of None \<Rightarrow> True | Some d \<Rightarrow> from_millis 250 \<le> d \<and> d \<le> from_secs 60))"

lemma compile_truncated_udp_ok:
  "compile_truncated_udp ctx cfg = Ok tc \<Longrightarrow> ctu_enabled tc \<Longrightarrow> 0 < ctu_ttl_secs tc"
  by (auto simp: compile_truncated_udp_def word_gt_0 split: option.splits if_splits)

lemma compile_memory_ok: "compile_memory ctx cfg = Ok m \<Longrightarrow> 1 \<le> cm_shard_count m"
  by (auto simp: compile_memory_def rbind_Ok_iff one_le_word_iff DEFAULT_MEMORY_SHARD_COUNT_def Let_def
      split: option.splits if_splits)

lemma compile_shard_count_ok:
  "compile_shard_count ctx n = Ok (Some k) \<Longrightarrow> 1 \<le> k \<and> k \<le> MAX_LMDB_SHARD_COUNT"
  by (auto simp: compile_shard_count_def one_le_word_iff MAX_LMDB_SHARD_COUNT_def min_def split: option.splits if_splits)

lemma compile_sync_interval_ok:
  "compile_sync_interval ctx sync raw = Ok i \<Longrightarrow> (i \<noteq> None \<longleftrightarrow> sync = SyncPeriodic)
    \<and> (case i of None \<Rightarrow> True | Some d \<Rightarrow> from_millis 250 \<le> d \<and> d \<le> from_secs 60)"
  by (auto simp: compile_sync_interval_def rbind_Ok_iff from_millis_def from_secs_def split: option.splits if_splits)

lemma compile_lmdb_ok:
  assumes "compile_lmdb preflight ctx threads cfg = Ok l"
  shows "cl_path l \<noteq> [] \<and> 0 < cl_map_size_bytes l \<and> 1 \<le> cl_lookup_thread_count l
    \<and> (cl_when_full l = FullSample \<longrightarrow> 1 \<le> cl_sample_size l)
    \<and> (case cl_shard_count l of None \<Rightarrow> True | Some n \<Rightarrow> 1 \<le> n \<and> n \<le> MAX_LMDB_SHARD_COUNT)
    \<and> (cl_sync_interval l \<noteq> None \<longleftrightarrow> cl_sync l = SyncPeriodic)
    \<and> (case cl_sync_interval l of None \<Rightarrow> True | Some d \<Rightarrow> from_millis 250 \<le> d \<and> d \<le> from_secs 60)"
proof -
  from assms obtain c where cfg: "cfg = Some c" by (auto simp: compile_lmdb_def split: option.splits)
  with assms obtain wf sy i n where parts: "compile_sync_interval ctx sy (lm_sync_interval c) = Ok i"
      "compile_shard_count ctx (lm_shard_count c) = Ok n"
    and l: "l = \<lparr>cl_path = lm_path c, cl_map_size_bytes = lm_map_size_bytes c, cl_when_full = wf,
      cl_sample_size = or_default (lm_sample_size c) 16, cl_sync = sy, cl_sync_interval = i, cl_shard_count = n,
      cl_lookup_thread_count = max threads 1\<rparr>"
    and simple: "lm_path c \<noteq> []" "lm_map_size_bytes c \<noteq> 0" "\<not> (wf = FullSample \<and> or_default (lm_sample_size c) 16 < 1)"
    by (auto simp: compile_lmdb_def rbind_Ok_iff Let_def split: if_splits)
  show ?thesis
    using compile_sync_interval_ok [OF parts(1)] compile_shard_count_ok [of ctx "lm_shard_count c"] parts(2) simple
    by (cases n) (auto simp: l word_gt_0 one_le_word_iff)
qed

lemma compile_cache_instance_ok:
  assumes "compile_cache_instance preflight threads idx names c = Ok inst"
  shows "instance_ok inst \<and> cc_name inst = cic_name c \<and> cic_name c \<notin> set names"
proof -
  let ?ctx = "''caches['' @ show_nat idx @ '']''"
  from assms obtain bt oh tc m l where parts: "check_backend_blocks ?ctx bt c = Ok ()"
      "compile_truncated_udp ?ctx (cic_truncated_udp c) = Ok tc" "compile_store preflight ?ctx threads bt c = Ok (m, l)"
    and inst: "inst = \<lparr>cc_name = cic_name c, cc_backend_type = bt, cc_negative_cache = compile_negative_cache (cic_negative c),
      cc_on_hit_response_rules = oh, cc_truncated_udp = tc,
      cc_rotate_rrset_on_serve = or_default (cic_rotate_rrset_on_serve c) False, cc_memory = m, cc_lmdb = l,
      cc_max_entries = or_default (cic_max_entries c) 0\<rparr>"
    and names: "cic_name c \<noteq> []" "cic_name c \<notin> set names"
    by (auto simp: compile_cache_instance_def rbind_Ok_iff Let_def split: if_splits)
  have bt: "bt \<noteq> BackendEbpfMap" using parts(1) by (auto simp: check_backend_blocks_def)
  have store: "(l = None \<longleftrightarrow> bt = BackendMemory) \<and> 1 \<le> cm_shard_count m"
    using parts(3) bt by (auto simp: compile_store_def rbind_Ok_iff DEFAULT_MEMORY_SHARD_COUNT_def compile_memory_ok split: if_splits)
  show ?thesis
  proof (cases l)
    case None
    then show ?thesis
      using store bt names compile_truncated_udp_ok [OF parts(2)] by (auto simp: instance_ok_def inst)
  next
    case (Some lm)
    with parts(3) have "compile_lmdb preflight ?ctx threads (cic_lmdb c) = Ok lm"
      by (auto simp: compile_store_def rbind_Ok_iff split: if_splits)
    from compile_lmdb_ok [OF this] Some show ?thesis
      using store bt names compile_truncated_udp_ok [OF parts(2)] by (simp add: instance_ok_def inst)
  qed
qed

lemma compile_instance_list_ok:
  assumes "compile_instance_list preflight threads idx names cs = Ok insts"
  shows "distinct (map fst insts) \<and> fst ` set insts \<inter> set names = {} \<and> map fst insts = map cic_name cs
    \<and> (\<forall>(name, c) \<in> set insts. instance_ok c \<and> cc_name c = name)"
  using assms
proof (induction cs arbitrary: idx names insts)
  case (Cons c cs)
  then obtain inst rest where head: "compile_cache_instance preflight threads idx names c = Ok inst"
    and tail: "compile_instance_list preflight threads (idx + 1) (cic_name c # names) cs = Ok rest"
    and insts: "insts = (cic_name c, inst) # rest"
    by (auto simp: rbind_Ok_iff)
  note IH = Cons.IH [OF tail]
  then have "fst ` set rest = cic_name ` set cs" by (metis set_map)
  with IH compile_cache_instance_ok [OF head] show ?case
    unfolding insts by auto
qed simp

lemma compile_provider_ok:
  "compile_provider name instances (i, p) = Ok (ProviderCache cache) \<Longrightarrow> cache \<in> fst ` set instances"
  by (auto simp: compile_provider_def Let_def map_of_eq_None_iff split: if_splits option.splits)

lemma compile_profile_ok:
  assumes "compile_profile instances np = Ok (name, profile)"
  shows "lpf_name profile = name \<and> lpf_providers profile \<noteq> []
    \<and> (\<forall>cache. ProviderCache cache \<in> set (lpf_providers profile) \<longrightarrow> cache \<in> fst ` set instances)"
proof -
  obtain ps where ps: "traverse (compile_provider name instances) (enumerate 0 (snd np)) = Ok (lpf_providers profile)"
    and np: "np = (name, snd np)" "snd np \<noteq> []" "lpf_name profile = name"
    using assms by (cases np) (auto simp: compile_profile_def rbind_Ok_iff split: if_splits)
  from traverse_OkD [OF ps] have all: "list_all2 (\<lambda>x y. compile_provider name instances x = Ok y) (enumerate 0 (snd np)) (lpf_providers profile)" .
  have "lpf_providers profile \<noteq> []"
    using list_all2_lengthD [OF all] np(2) by auto
  moreover have "cache \<in> fst ` set instances" if "ProviderCache cache \<in> set (lpf_providers profile)" for cache
    using traverse_Ok_mem [OF ps that] compile_provider_ok by fast
  ultimately show ?thesis using np by auto
qed

text \<open>C28: In a lookup configuration that compiles every cache instance keeps the bounds of
  \<open>instance_ok\<close> under its own distinct name, every profile has a provider, and every cache provider
  names one of the compiled instances.\<close>

theorem compiled_lookup_consistent:
  assumes "compile_lookup preflight dp listeners caches lookup = Ok lk"
  shows "distinct (map fst (lk_cache_instances lk))
    \<and> (\<forall>(name, c) \<in> set (lk_cache_instances lk). instance_ok c \<and> cc_name c = name)
    \<and> (\<forall>(name, p) \<in> set (lk_profiles lk). lpf_providers p \<noteq> []
        \<and> (\<forall>cache. ProviderCache cache \<in> set (lpf_providers p) \<longrightarrow> cache \<in> fst ` set (lk_cache_instances lk)))
    \<and> (lookup_cache_enabled lk \<longleftrightarrow> (\<exists>(name, p) \<in> set (lk_profiles lk). \<exists>cache. ProviderCache cache \<in> set (lpf_providers p)))"
proof -
  from assms obtain insts where insts: "compile_cache_instances preflight (lookup_concurrency_for_lmdb_default dp listeners) caches = Ok insts"
    and lk: "lk_cache_instances lk = insts"
    by (cases lookup) (auto simp: compile_lookup_def rbind_Ok_iff Let_def split: if_splits)
  have profiles: "(\<forall>(name, p) \<in> set (lk_profiles lk). lpf_providers p \<noteq> []
        \<and> (\<forall>cache. ProviderCache cache \<in> set (lpf_providers p) \<longrightarrow> cache \<in> fst ` set insts))
    \<and> (lookup_cache_enabled lk \<longleftrightarrow> (\<exists>(name, p) \<in> set (lk_profiles lk). \<exists>cache. ProviderCache cache \<in> set (lpf_providers p)))"
  proof (cases lookup)
    case None
    with assms insts show ?thesis by (auto simp: compile_lookup_def lookup_cache_enabled_def)
  next
    case (Some profiles)
    with assms insts obtain compiled where compiled: "traverse (compile_profile insts) profiles = Ok compiled"
      and lk': "lk_profiles lk = compiled"
        "lk_cache_provider_configured lk \<longleftrightarrow> list_ex (\<lambda>(_, p). list_ex is_cache_provider (lpf_providers p)) compiled"
      by (auto simp: compile_lookup_def rbind_Ok_iff Let_def split: if_splits)
    have ok: "\<forall>(name, p) \<in> set compiled. lpf_providers p \<noteq> []
        \<and> (\<forall>cache. ProviderCache cache \<in> set (lpf_providers p) \<longrightarrow> cache \<in> fst ` set insts)"
    proof (clarify)
      fix name p
      assume "(name, p) \<in> set compiled"
      with traverse_Ok_mem [OF compiled] obtain x where "compile_profile insts x = Ok (name, p)" by blast
      from compile_profile_ok [OF this] show "lpf_providers p \<noteq> []
          \<and> (\<forall>cache. ProviderCache cache \<in> set (lpf_providers p) \<longrightarrow> cache \<in> fst ` set insts)"
        by blast
    qed
    have flag: "list_ex is_cache_provider ps \<longleftrightarrow> (\<exists>cache. ProviderCache cache \<in> set ps)" for ps
      by (induction ps) (auto simp: is_cache_provider_def split: lookup_provider.splits)
    from ok lk' flag show ?thesis
      by (auto simp: lookup_cache_enabled_def list_ex_iff)
  qed
  from insts have "distinct (map fst insts)" "\<forall>(name, c) \<in> set insts. instance_ok c \<and> cc_name c = name"
    using compile_instance_list_ok unfolding compile_cache_instances_def by blast+
  with profiles show ?thesis unfolding lk by blast
qed

definition example_cache_cfg :: cache_instance_cfg
  where "example_cache_cfg = \<lparr>cic_name = ''main'', cic_type = ''memory'', cic_negative = None, cic_on_hit = None,
    cic_rotate_rrset_on_serve = None, cic_memory = None, cic_max_entries = Some 100, cic_truncated_udp = None, cic_lmdb = None\<rparr>"

definition example_instance :: compiled_cache_instance
  where "example_instance = \<lparr>cc_name = ''main'', cc_backend_type = BackendMemory,
    cc_negative_cache = compile_negative_cache None, cc_on_hit_response_rules = HitRun,
    cc_truncated_udp = \<lparr>ctu_enabled = False, ctu_ttl_secs = 60\<rparr>, cc_rotate_rrset_on_serve = False,
    cc_memory = \<lparr>cm_shard_count = 16, cm_eviction = EvictPassive\<rparr>, cc_lmdb = None, cc_max_entries = 100\<rparr>"

definition example_profiles :: "string \<Rightarrow> lookup_cfg"
  where "example_profiles name = [(name, [\<lparr>lp_type = ''cache'', lp_cache = Some ''main''\<rparr>, \<lparr>lp_type = ''forward'', lp_cache = None\<rparr>])]"

definition example_lookup :: "string \<Rightarrow> compiled_lookup"
  where "example_lookup name = \<lparr>lk_enabled = True,
    lk_profiles = [(name, \<lparr>lpf_name = name, lpf_providers = [ProviderCache ''main'', ProviderForward]\<rparr>)],
    lk_cache_instances = [(''main'', example_instance)], lk_cache_provider_configured = True\<rparr>"

lemma example_lookup_compiles:
  assumes "name \<noteq> []"
  shows "compile_lookup preflight None None [example_cache_cfg] (Some (example_profiles name)) = Ok (example_lookup name)"
proof -
  have trims: "trim ''memory'' = ''memory''" "trim ''cache'' = ''cache''" "trim ''forward'' = ''forward''"
    by (simp_all add: trim_id is_ascii_space_def)
  show ?thesis
    using assms
    by (simp add: compile_lookup_def compile_cache_instances_def compile_cache_instance_def compile_profile_def
        compile_provider_def parse_cache_backend_type_def check_backend_blocks_def compile_on_hit_def
        compile_truncated_udp_def compile_store_def compile_memory_def example_cache_cfg_def example_instance_def
        example_profiles_def example_lookup_def nonempty_opt_def or_default_def is_cache_provider_def trims
        DEFAULT_MEMORY_SHARD_COUNT_def Let_def)
qed

theorem compiled_lookup_consistent_witness:
  "instance_ok example_instance \<and> lookup_cache_enabled (example_lookup ''default'')"
  using compiled_lookup_consistent [OF example_lookup_compiles [of "''default''"]]
  by (auto simp: example_lookup_def)

text \<open>A lookup block without a profile called \<open>default\<close> is accepted.\<close>

lemma default_profile_not_required:
  "validate_lookup preflight None None [example_cache_cfg] (Some (example_profiles ''fast'')) = []
    \<and> default_profile (example_lookup ''fast'') = None"
  by (simp add: validate_lookup_def example_lookup_compiles err_list_def default_profile_def example_lookup_def
      DEFAULT_LOOKUP_PROFILE_def)

end
