(* ===== verification/Cache_Registry.thy ===== *)
theory Cache_Registry
  imports Cache_Serve Flight Lookup_Config
begin

text \<open>
  The registry of cache instances (\<open>conduit-core/src/lookup/cache/registry.rs\<close>, \<open>backend.rs\<close>): look-up
  with single flight, filling from an upstream answer, resuming a parked query, the active reaper
  and reconciliation with a new configuration.

  A backend is the memory store of \<open>Cache_Store\<close> or an LMDB store.  The latter, a database on disk,
  is the parameter \<open>lmdb_ops\<close> over an abstract state.  The registry is passed through and returned;
  the queries an operation wakes are part of its result.  A follower that blocks is the outcome
  \<open>LookupBlocked\<close>, continued by \<open>lookup_unblocked\<close> with the value its wait returned.  \<open>None\<close> is an
  insertion that does not return.  Metrics and logs are left out.

  What is shown: what is filled is found; a fill that stores wakes exactly the parked queries; a
  fill that stores nothing wakes nobody; a reconciliation leaves exactly the configured instances,
  with their flights.
\<close>

section \<open>Backends\<close>

record 'l lmdb_ops =
  lo_open :: "compiled_cache_instance \<Rightarrow> (string, 'l) result"
  lo_open_for_shard_reopen :: "compiled_cache_instance \<Rightarrow> (string, 'l \<times> string \<times> string) result"
  lo_finalize_shard_reopen :: "string \<Rightarrow> string \<Rightarrow> 'l \<Rightarrow> (string, unit) result \<times> 'l"
  lo_get :: "cache_key \<Rightarrow> instant \<Rightarrow> 'l \<Rightarrow> cache_entry option \<times> 'l"
  lo_insert :: "cache_key \<Rightarrow> cache_entry \<Rightarrow> instant \<Rightarrow> 'l \<Rightarrow> bool \<times> 'l"
  lo_remove :: "cache_key \<Rightarrow> 'l \<Rightarrow> bool \<times> 'l"
  lo_entry_count :: "'l \<Rightarrow> u64"
  lo_max_entries :: "'l \<Rightarrow> u64"
  lo_set_max_entries :: "u64 \<Rightarrow> 'l \<Rightarrow> 'l"
  lo_apply_policy :: "lmdb_when_full \<Rightarrow> u32 \<Rightarrow> 'l \<Rightarrow> 'l"
  lo_apply_sync_config :: "lmdb_sync \<Rightarrow> duration option \<Rightarrow> 'l \<Rightarrow> (string, unit) result \<times> 'l"
  lo_map_size_bytes :: "'l \<Rightarrow> u64"
  lo_grow_map_size :: "u64 \<Rightarrow> 'l \<Rightarrow> (string, unit) result \<times> 'l"
  lo_shrink_map_size :: "u64 \<Rightarrow> 'l \<Rightarrow> (string, unit) result \<times> 'l"
  lo_shard_count :: "'l \<Rightarrow> nat"
  lo_layout_is_legacy :: "'l \<Rightarrow> bool"

datatype 'l cache_backend = MemoryBackend memory_cache | LmdbBackend 'l

record 'l cache_env =
  ce_codec :: dns_codec
  ce_hash :: "cache_key \<Rightarrow> u64"
  ce_lmdb :: "'l lmdb_ops"

text \<open>A reserved backend type panics; the compiled configuration never has it.\<close>

definition backend_from_config :: "'l cache_env \<Rightarrow> compiled_cache_instance \<Rightarrow> (string, 'l cache_backend) result option"
  where "backend_from_config env cfg =
    (case cc_backend_type cfg of
       BackendMemory \<Rightarrow> Some (Ok (MemoryBackend (memory_from_config (cm_shard_count (cc_memory cfg)) (cc_max_entries cfg))))
     | BackendLmdb \<Rightarrow> Some (map_sum (\<lambda>e. e) LmdbBackend (lo_open (ce_lmdb env) cfg))
     | BackendEbpfMap \<Rightarrow> None)"

definition backend_get :: "'l cache_env \<Rightarrow> cache_key \<Rightarrow> instant \<Rightarrow> 'l cache_backend \<Rightarrow> cache_entry option \<times> 'l cache_backend"
  where "backend_get env key now b =
    (case b of
       MemoryBackend m \<Rightarrow> (mc_get (ce_hash env) key now m, b)
     | LmdbBackend l \<Rightarrow> map_prod id LmdbBackend (lo_get (ce_lmdb env) key now l))"

text \<open>The result tells whether the entry was stored.\<close>

definition backend_insert ::
  "'l cache_env \<Rightarrow> cache_key \<Rightarrow> cache_entry \<Rightarrow> instant \<Rightarrow> 'l cache_backend \<Rightarrow> (bool \<times> 'l cache_backend) option"
  where "backend_insert env key entry now b =
    (case b of
       MemoryBackend m \<Rightarrow> map_option (\<lambda>(m', _). (True, MemoryBackend m')) (mc_insert (ce_hash env) key entry now m)
     | LmdbBackend l \<Rightarrow> Some (map_prod id LmdbBackend (lo_insert (ce_lmdb env) key entry now l)))"

definition backend_remove :: "'l cache_env \<Rightarrow> cache_key \<Rightarrow> 'l cache_backend \<Rightarrow> bool \<times> 'l cache_backend"
  where "backend_remove env key b =
    (case b of
       MemoryBackend m \<Rightarrow> map_prod id MemoryBackend (mc_remove (ce_hash env) key m)
     | LmdbBackend l \<Rightarrow> map_prod id LmdbBackend (lo_remove (ce_lmdb env) key l))"

definition backend_entry_count :: "'l cache_env \<Rightarrow> 'l cache_backend \<Rightarrow> u64"
  where "backend_entry_count env b =
    (case b of MemoryBackend m \<Rightarrow> mc_live_entries m | LmdbBackend l \<Rightarrow> lo_entry_count (ce_lmdb env) l)"

definition backend_max_entries :: "'l cache_env \<Rightarrow> 'l cache_backend \<Rightarrow> u64"
  where "backend_max_entries env b =
    (case b of MemoryBackend m \<Rightarrow> mc_max_entries m | LmdbBackend l \<Rightarrow> lo_max_entries (ce_lmdb env) l)"

definition backend_set_max_entries :: "'l cache_env \<Rightarrow> instant \<Rightarrow> u64 \<Rightarrow> 'l cache_backend \<Rightarrow> 'l cache_backend"
  where "backend_set_max_entries env now n b =
    (case b of
       MemoryBackend m \<Rightarrow> MemoryBackend (set_max_entries now n m)
     | LmdbBackend l \<Rightarrow> LmdbBackend (lo_set_max_entries (ce_lmdb env) n l))"

definition backend_reap ::
  "(nat \<Rightarrow> nat \<Rightarrow> bool) \<Rightarrow> nat \<Rightarrow> instant \<Rightarrow> nat \<Rightarrow> 'l cache_backend \<Rightarrow> reap_outcome \<times> nat \<times> 'l cache_backend"
  where "backend_reap late max_keys now cursor b =
    (case b of
       MemoryBackend m \<Rightarrow> map_prod id (map_prod id MemoryBackend) (reap_expired_budgeted late max_keys now cursor m)
     | LmdbBackend l \<Rightarrow> (\<lparr>ro_removed = 0, ro_incomplete = False\<rparr>, cursor, b))"

section \<open>Instances and the registry\<close>

record 'l cache_runtime =
  cr_config :: compiled_cache_instance
  cr_backend :: "'l cache_backend"
  cr_rebuilding :: bool
  cr_inflight :: "(cache_key \<times> nat) list"
  cr_next_reap_shard :: nat

record 'l registry =
  rg_instances :: "(string \<times> 'l cache_runtime) list"
  rg_gates :: "gate list"
  rg_async_coalesce :: bool
  rg_wake_set :: bool
  rg_rand :: u64

definition runtime_new :: "compiled_cache_instance \<Rightarrow> 'l cache_backend \<Rightarrow> 'l cache_runtime"
  where "runtime_new cfg b = \<lparr>cr_config = cfg, cr_backend = b, cr_rebuilding = False,
    cr_inflight = ft_flights flight_table_new, cr_next_reap_shard = 0\<rparr>"

definition runtime_try_new :: "'l cache_env \<Rightarrow> compiled_cache_instance \<Rightarrow> (string, 'l cache_runtime) result option"
  where "runtime_try_new env cfg = map_option
    (map_sum (\<lambda>e. ''cache '' @ squote (cc_name cfg) @ '': '' @ e) (runtime_new cfg)) (backend_from_config env cfg)"

text \<open>Opening the configured instances panics where one cannot be opened.\<close>

fun from_snapshot :: "'l cache_env \<Rightarrow> (string \<times> compiled_cache_instance) list \<Rightarrow> (string \<times> 'l cache_runtime) list option"
  where
    "from_snapshot env [] = Some []"
  | "from_snapshot env ((name, cfg) # rest) =
      (case runtime_try_new env cfg of
         Some (Ok inst) \<Rightarrow> map_option (\<lambda>insts. AList.update name inst insts) (from_snapshot env rest)
       | _ \<Rightarrow> None)"

definition registry_new :: "'l cache_env \<Rightarrow> u64 \<Rightarrow> (string \<times> compiled_cache_instance) list \<Rightarrow> 'l registry option"
  where "registry_new env s cfgs = map_option
    (\<lambda>insts. \<lparr>rg_instances = insts, rg_gates = [], rg_async_coalesce = False, rg_wake_set = False, rg_rand = s\<rparr>)
    (from_snapshot env cfgs)"

definition put_instance :: "string \<Rightarrow> 'l cache_runtime \<Rightarrow> 'l registry \<Rightarrow> 'l registry"
  where "put_instance name inst r = r\<lparr>rg_instances := AList.update name inst (rg_instances r)\<rparr>"

definition registry_instance :: "string \<Rightarrow> 'l registry \<Rightarrow> 'l cache_runtime option"
  where "registry_instance name r = map_of (rg_instances r) name"

text \<open>The table of an instance, over the gates of all instances: a gate outlives its instance.\<close>

definition flights :: "'l registry \<Rightarrow> 'l cache_runtime \<Rightarrow> flight_table"
  where "flights r inst = \<lparr>ft_flights = cr_inflight inst, ft_gates = rg_gates r\<rparr>"

definition put_flights :: "string \<Rightarrow> 'l cache_runtime \<Rightarrow> flight_table \<Rightarrow> 'l registry \<Rightarrow> 'l registry"
  where "put_flights name inst ft r =
    put_instance name (inst\<lparr>cr_inflight := ft_flights ft\<rparr>) (r\<lparr>rg_gates := ft_gates ft\<rparr>)"

definition apply_max_entries :: "'l cache_env \<Rightarrow> instant \<Rightarrow> u64 \<Rightarrow> 'l cache_runtime \<Rightarrow> 'l cache_runtime"
  where "apply_max_entries env now n inst =
    inst\<lparr>cr_backend := backend_set_max_entries env now n (cr_backend inst),
      cr_config := (if cc_max_entries (cr_config inst) \<noteq> n then (cr_config inst)\<lparr>cc_max_entries := n\<rparr> else cr_config inst)\<rparr>"

definition swap_backend :: "'l cache_backend \<Rightarrow> compiled_cache_instance \<Rightarrow> 'l cache_runtime \<Rightarrow> 'l cache_runtime"
  where "swap_backend b cfg inst = inst\<lparr>cr_backend := b, cr_config := cfg\<rparr>"

section \<open>Look-up\<close>

datatype cache_lookup_outcome =
    LookupHit bytes string bool
  | LookupMiss cache_key nat
  | LookupWaitAsync cache_key
  | LookupBypass
  | LookupBlocked cache_key nat

fun ancestor_labels :: "string list \<Rightarrow> string list"
  where
    "ancestor_labels (l # m # ls) = (join ''.'' (m # ls) @ ''.'') # ancestor_labels (m # ls)"
  | "ancestor_labels _ = []"

definition ancestor_qnames :: "string \<Rightarrow> string list"
  where "ancestor_qnames name =
    (let trimmed = trim_end_dots name in
     if trimmed = [] \<or> trimmed = ''.'' then [] else ancestor_labels (split_on (CHR ''.'') trimmed))"

text \<open>The walk up the name: it ends at the first ancestor that has no entry.\<close>

fun ancestor_walk ::
  "'l cache_env \<Rightarrow> transaction \<Rightarrow> instant \<Rightarrow> string list \<Rightarrow> 'l cache_backend \<Rightarrow> cache_entry option \<times> 'l cache_backend"
  where
    "ancestor_walk env t now [] b = (None, b)"
  | "ancestor_walk env t now (name # names) b =
      (case build_key_from_parts (ce_codec env) name (or_default (qtype t) 0) (or_default (qclass t) 1)
          (query_wire t) KeyComplete of
         None \<Rightarrow> (None, b)
       | Some key \<Rightarrow>
          (case backend_get env key now b of
             (None, b') \<Rightarrow> (None, b')
           | (Some e, b') \<Rightarrow> if ce_kind e = NxDomain then (Some e, b') else ancestor_walk env t now names b'))"

definition try_ancestor_nxdomain_hit ::
  "'l cache_env \<Rightarrow> transaction \<Rightarrow> instant \<Rightarrow> 'l cache_runtime \<Rightarrow> cache_entry option \<times> 'l cache_runtime"
  where "try_ancestor_nxdomain_hit env t now inst =
    (let neg = cc_negative_cache (cr_config inst) in
     if \<not> nc_enabled neg \<or> \<not> nc_nxdomain_covers_descendants neg then (None, inst)
     else map_prod id (\<lambda>b. inst\<lparr>cr_backend := b\<rparr>)
       (ancestor_walk env t now (ancestor_qnames (or_default (qname t) ''.'')) (cr_backend inst)))"

text \<open>Serving a stored wire, with the next state of the generator.\<close>

definition hit_from_wire ::
  "'l cache_env \<Rightarrow> compiled_cache_instance \<Rightarrow> bytes \<Rightarrow> instant \<Rightarrow> transaction \<Rightarrow> instant \<Rightarrow> u64 \<Rightarrow> cache_lookup_outcome \<times> u64"
  where "hit_from_wire env cfg wire filled_at t now s =
    (case prepare_served_wire (ce_codec env) s wire (dns_id t) (cc_rotate_rrset_on_serve cfg) filled_at now (Some (query_wire t)) of
       (Some w, s') \<Rightarrow> (LookupHit w (cc_name cfg) (cc_on_hit_response_rules cfg = HitSkip), s')
     | (None, s') \<Rightarrow> (LookupBypass, s'))"

definition hit_from_entry ::
  "'l cache_env \<Rightarrow> compiled_cache_instance \<Rightarrow> cache_entry \<Rightarrow> transaction \<Rightarrow> instant \<Rightarrow> u64 \<Rightarrow> cache_lookup_outcome \<times> u64"
  where "hit_from_entry env cfg e t now s = hit_from_wire env cfg (ce_wire e) (ce_filled_at e) t now s"

definition hit_from_stored ::
  "'l cache_env \<Rightarrow> compiled_cache_instance \<Rightarrow> bytes \<Rightarrow> transaction \<Rightarrow> instant \<Rightarrow> u64 \<Rightarrow> cache_lookup_outcome \<times> u64"
  where "hit_from_stored env cfg wire t now s = hit_from_wire env cfg wire now t now s"

text \<open>The three reads before a flight: the key, an ancestor, the truncated answer.\<close>

definition read_entry ::
  "'l cache_env \<Rightarrow> cache_key \<Rightarrow> transaction \<Rightarrow> instant \<Rightarrow> 'l cache_runtime \<Rightarrow> cache_entry option \<times> 'l cache_runtime"
  where "read_entry env key t now inst =
    (case backend_get env key now (cr_backend inst) of
       (Some e, b1) \<Rightarrow> (Some e, inst\<lparr>cr_backend := b1\<rparr>)
     | (None, b1) \<Rightarrow>
        (case try_ancestor_nxdomain_hit env t now (inst\<lparr>cr_backend := b1\<rparr>) of
           (Some e, inst2) \<Rightarrow> (Some e, inst2)
         | (None, inst2) \<Rightarrow>
            if ctu_enabled (cc_truncated_udp (cr_config inst2)) \<and> protocol t = Udp
            then (case build_truncated_udp_key (ce_codec env) t of
                None \<Rightarrow> (None, inst2)
              | Some tc_key \<Rightarrow> map_prod id (\<lambda>b. inst2\<lparr>cr_backend := b\<rparr>) (backend_get env tc_key now (cr_backend inst2)))
            else (None, inst2)))"

definition cache_lookup ::
  "'l cache_env \<Rightarrow> string \<Rightarrow> transaction \<Rightarrow> instant \<Rightarrow> 'l registry \<Rightarrow> cache_lookup_outcome \<times> 'l registry"
  where "cache_lookup env cache_name t now r =
    (case registry_instance cache_name r of
       None \<Rightarrow> (LookupBypass, r)
     | Some inst \<Rightarrow>
       if cr_rebuilding inst \<or> \<not> cache_lookup_eligible t then (LookupBypass, r)
       else case build_query_key (ce_codec env) t of
         None \<Rightarrow> (LookupBypass, r)
       | Some key \<Rightarrow>
          (case read_entry env key t now inst of
             (Some e, inst1) \<Rightarrow>
               (let (out, s) = hit_from_entry env (cr_config inst1) e t now (rg_rand r) in
                (out, put_instance cache_name inst1 (r\<lparr>rg_rand := s\<rparr>)))
           | (None, inst1) \<Rightarrow>
               (let (i, ft) = gate_for key (flights r inst1);
                    (role, ft') = table_register i (txn_id t) (rg_async_coalesce r) ft;
                    r' = put_flights cache_name inst1 ft' r in
                case role of
                  Leader \<Rightarrow> (LookupMiss key i, r')
                | Follower \<Rightarrow> if rg_async_coalesce r then (LookupWaitAsync key, r') else (LookupBlocked key i, r'))))"

text \<open>The rest of a blocked follower, after its wait returned \<open>waited\<close>.\<close>

definition lookup_unblocked ::
  "'l cache_env \<Rightarrow> string \<Rightarrow> cache_key \<Rightarrow> bytes option \<Rightarrow> transaction \<Rightarrow> instant \<Rightarrow> 'l registry \<Rightarrow> cache_lookup_outcome \<times> 'l registry"
  where "lookup_unblocked env cache_name key waited t now r =
    (case registry_instance cache_name r of
       None \<Rightarrow> (LookupBypass, r)
     | Some inst \<Rightarrow>
       (let (found, b) = backend_get env key now (cr_backend inst);
            r' = put_flights cache_name (inst\<lparr>cr_backend := b\<rparr>) (flight_remove key (flights r inst)) r in
        case found of
          Some e \<Rightarrow> (let (out, s) = hit_from_entry env (cr_config inst) e t now (rg_rand r) in (out, r'\<lparr>rg_rand := s\<rparr>))
        | None \<Rightarrow>
          (case waited of
             Some w \<Rightarrow> (let (out, s) = hit_from_stored env (cr_config inst) w t now (rg_rand r) in (out, r'\<lparr>rg_rand := s\<rparr>))
           | None \<Rightarrow> (LookupBypass, r'))))"

definition instance_gate :: "string \<Rightarrow> cache_key \<Rightarrow> 'l registry \<Rightarrow> nat option \<times> 'l registry"
  where "instance_gate cache_name key r =
    (case registry_instance cache_name r of
       None \<Rightarrow> (None, r)
     | Some inst \<Rightarrow> (let (i, ft) = gate_for key (flights r inst) in (Some i, put_flights cache_name inst ft r)))"

definition resume_after_wait ::
  "'l cache_env \<Rightarrow> string \<Rightarrow> cache_key \<Rightarrow> transaction \<Rightarrow> instant \<Rightarrow> 'l registry \<Rightarrow> cache_lookup_outcome \<times> 'l registry"
  where "resume_after_wait env cache_name key t now r =
    (case registry_instance cache_name r of
       None \<Rightarrow> (LookupBypass, r)
     | Some inst \<Rightarrow>
       (let (i, ft) = gate_for key (flights r inst);
            (found, b) = backend_get env key now (cr_backend inst);
            inst1 = inst\<lparr>cr_backend := b\<rparr>;
            gone = put_flights cache_name inst1 (flight_remove key ft) r in
        case found of
          Some e \<Rightarrow> (let (out, s) = hit_from_entry env (cr_config inst) e t now (rg_rand r) in (out, gone\<lparr>rg_rand := s\<rparr>))
        | None \<Rightarrow>
          (case gt_result (ft_gates ft ! i) of
             Some w \<Rightarrow> (let (out, s) = hit_from_stored env (cr_config inst) w t now (rg_rand r) in (out, gone\<lparr>rg_rand := s\<rparr>))
           | None \<Rightarrow> (LookupBypass, put_flights cache_name inst1 ft r))))"

section \<open>Filling\<close>

definition is_truncated_udp_wire :: "'l cache_env \<Rightarrow> bytes \<Rightarrow> transaction \<Rightarrow> bool"
  where "is_truncated_udp_wire env wire t \<longleftrightarrow> protocol t = Udp
    \<and> (case dc_parse (ce_codec env) wire of Some m \<Rightarrow> dm_truncated m | None \<Rightarrow> False)"

definition should_store_truncated :: "'l cache_env \<Rightarrow> compiled_cache_instance \<Rightarrow> bytes \<Rightarrow> transaction \<Rightarrow> bool"
  where "should_store_truncated env cfg wire t \<longleftrightarrow>
    ctu_enabled (cc_truncated_udp cfg) \<and> is_truncated_udp_wire env wire t"

text \<open>What to store and under which key; \<open>None\<close> for an answer that is not stored.\<close>

definition fill_entry ::
  "'l cache_env \<Rightarrow> compiled_cache_instance \<Rightarrow> cache_key \<Rightarrow> bytes \<Rightarrow> transaction \<Rightarrow> instant \<Rightarrow> (cache_key \<times> cache_entry \<times> bool) option"
  where "fill_entry env cfg key wire t now =
    (let tc_key = (if should_store_truncated env cfg wire t then build_truncated_udp_key (ce_codec env) t else None);
         neg = cc_negative_cache cfg in
     if tc_key = None \<and> is_truncated_udp_wire env wire t then None
     else case entry_from_wire (ce_codec env) wire (nc_enabled neg) (nc_servfail_ttl_secs neg) now of
       None \<Rightarrow> None
     | Some e \<Rightarrow> (case tc_key of
         Some k \<Rightarrow> Some (k, e\<lparr>ce_expires_at := expires_at_from_ttl now (ctu_ttl_secs (cc_truncated_udp cfg))\<rparr>, True)
       | None \<Rightarrow> Some (key, e, False)))"

text \<open>Insert, then drop the truncated sibling of a complete answer.\<close>

definition fill_store ::
  "'l cache_env \<Rightarrow> cache_key \<times> cache_entry \<times> bool \<Rightarrow> transaction \<Rightarrow> instant \<Rightarrow> 'l cache_backend \<Rightarrow> 'l cache_backend option"
  where "fill_store env what t now b =
    (case what of (insert_key, e, storing_truncated) \<Rightarrow>
       (case backend_insert env insert_key e now b of
          None \<Rightarrow> None
        | Some (stored, b1) \<Rightarrow>
          Some (if stored \<and> \<not> storing_truncated
            then (case build_truncated_udp_key (ce_codec env) t of
                Some tc_key \<Rightarrow> snd (backend_remove env tc_key b1) | None \<Rightarrow> b1)
            else b1)))"

definition wake_waiters :: "u64 list \<Rightarrow> 'l registry \<Rightarrow> u64 list"
  where "wake_waiters ws r = (if rg_wake_set r then ws else [])"

text \<open>The queries it wakes, and the registry.\<close>

definition fill_from_forward ::
  "'l cache_env \<Rightarrow> string \<Rightarrow> cache_key \<Rightarrow> nat \<Rightarrow> bytes \<Rightarrow> transaction \<Rightarrow> instant \<Rightarrow> 'l registry \<Rightarrow> (u64 list \<times> 'l registry) option"
  where "fill_from_forward env cache_name key i wire t now r =
    (case registry_instance cache_name r of
       None \<Rightarrow> Some ([], r)
     | Some inst \<Rightarrow>
       (let what = (if cr_rebuilding inst then None else fill_entry env (cr_config inst) key wire t now) in
        case what of
          None \<Rightarrow>
            (let (_, ft) = table_complete i None (flights r inst) in
             Some ([], put_flights cache_name inst (flight_remove key ft) r))
        | Some w \<Rightarrow>
          (case fill_store env w t now (cr_backend inst) of
             None \<Rightarrow> None
           | Some b \<Rightarrow>
             (let (waiters, ft) = table_complete i (Some wire) (flights r inst) in
              Some (wake_waiters waiters r, put_flights cache_name (inst\<lparr>cr_backend := b\<rparr>) (flight_remove key ft) r)))))"

definition complete_inflight_miss ::
  "string \<Rightarrow> cache_key \<Rightarrow> nat \<Rightarrow> 'l registry \<Rightarrow> u64 list \<times> 'l registry"
  where "complete_inflight_miss cache_name key i r =
    (let (waiters, g) = gate_complete None (rg_gates r ! i);
         r' = r\<lparr>rg_gates := (rg_gates r)[i := g]\<rparr> in
     (wake_waiters waiters r,
      case registry_instance cache_name r' of
        None \<Rightarrow> r'
      | Some inst \<Rightarrow> put_flights cache_name inst (flight_remove key (flights r' inst)) r'))"

section \<open>The active reaper\<close>

definition has_active_eviction :: "'l registry \<Rightarrow> bool"
  where "has_active_eviction r \<longleftrightarrow>
    list_ex (\<lambda>(_, inst). cm_eviction (cc_memory (cr_config inst)) = EvictActive) (rg_instances r)"

fun reap_instances ::
  "(nat \<Rightarrow> nat \<Rightarrow> bool) \<Rightarrow> nat \<Rightarrow> instant \<Rightarrow> (string \<times> 'l cache_runtime) list \<Rightarrow> u64 \<times> (string \<times> 'l cache_runtime) list"
  where
    "reap_instances late max_keys now [] = (0, [])"
  | "reap_instances late max_keys now ((name, inst) # rest) =
      (if cm_eviction (cc_memory (cr_config inst)) = EvictActive
       then case backend_reap late max_keys now (cr_next_reap_shard inst) (cr_backend inst) of
         (out, cursor, b) \<Rightarrow>
           (let (n, rest') = reap_instances late max_keys now rest in
            (ro_removed out + n, (name, inst\<lparr>cr_backend := b, cr_next_reap_shard := cursor\<rparr>) # rest'))
       else let (n, rest') = reap_instances late max_keys now rest in (n, (name, inst) # rest'))"

definition reap_active_expired ::
  "(nat \<Rightarrow> nat \<Rightarrow> bool) \<Rightarrow> nat \<Rightarrow> instant \<Rightarrow> 'l registry \<Rightarrow> u64 \<times> 'l registry"
  where "reap_active_expired late max_keys now r =
    (let (n, insts) = reap_instances late max_keys now (rg_instances r) in (n, r\<lparr>rg_instances := insts\<rparr>))"

definition registry_entry_count :: "'l cache_env \<Rightarrow> string \<Rightarrow> 'l registry \<Rightarrow> u64"
  where "registry_entry_count env name r =
    (case registry_instance name r of Some inst \<Rightarrow> backend_entry_count env (cr_backend inst) | None \<Rightarrow> 0)"

definition all_entry_counts :: "'l cache_env \<Rightarrow> 'l registry \<Rightarrow> (string \<times> u64) list"
  where "all_entry_counts env r = map (\<lambda>(name, inst). (name, backend_entry_count env (cr_backend inst))) (rg_instances r)"

section \<open>Reconciliation with a new configuration\<close>

definition lmdb_path :: "compiled_cache_instance \<Rightarrow> string option"
  where "lmdb_path cfg = map_option cl_path (cc_lmdb cfg)"

definition lmdb_explicit_shard_reopen_needed :: "'l cache_env \<Rightarrow> compiled_cache_instance \<Rightarrow> 'l cache_backend \<Rightarrow> bool"
  where "lmdb_explicit_shard_reopen_needed env new live =
    (case cc_lmdb new of
       None \<Rightarrow> False
     | Some l \<Rightarrow>
       (case cl_shard_count l of
          None \<Rightarrow> False
        | Some explicit \<Rightarrow>
          (case live of
             MemoryBackend _ \<Rightarrow> False
           | LmdbBackend b \<Rightarrow>
             (let want = unat (min (max explicit 1) MAX_LMDB_SHARD_COUNT) in
              if lo_layout_is_legacy (ce_lmdb env) b then want \<noteq> 1 else want \<noteq> lo_shard_count (ce_lmdb env) b))))"

datatype 'l pending_open =
    Replace "'l cache_backend" compiled_cache_instance
  | ShardReopen "'l cache_backend" compiled_cache_instance string string

definition cache_error :: "string \<Rightarrow> string \<Rightarrow> string \<Rightarrow> string"
  where "cache_error name what e = ''cache '' @ squote name @ '': '' @ what @ '': '' @ e"

text \<open>Phase one: what has to be opened for one instance.\<close>

definition preflight_open ::
  "'l cache_env \<Rightarrow> 'l registry \<Rightarrow> string \<Rightarrow> compiled_cache_instance \<Rightarrow> (string, 'l pending_open option) result option"
  where "preflight_open env r name cfg =
    (case registry_instance name r of
       None \<Rightarrow> map_option (map_sum (cache_error name ''failed to open new backend'') (\<lambda>b. Some (Replace b cfg)))
         (backend_from_config env cfg)
     | Some inst \<Rightarrow>
       if cc_backend_type (cr_config inst) \<noteq> cc_backend_type cfg \<or> lmdb_path (cr_config inst) \<noteq> lmdb_path cfg
       then map_option (map_sum (cache_error name ''failed to open replacement backend'') (\<lambda>b. Some (Replace b cfg)))
         (backend_from_config env cfg)
       else if lmdb_explicit_shard_reopen_needed env cfg (cr_backend inst)
       then Some (map_sum (cache_error name ''failed to open replacement shard layout'')
         (\<lambda>(b, operator, staging). Some (ShardReopen (LmdbBackend b) cfg operator staging))
         (lo_open_for_shard_reopen (ce_lmdb env) cfg))
       else Some (Ok None))"

fun preflight ::
  "'l cache_env \<Rightarrow> 'l registry \<Rightarrow> (string \<times> compiled_cache_instance) list \<Rightarrow> (string, (string \<times> 'l pending_open) list) result option"
  where
    "preflight env r [] = Some (Ok [])"
  | "preflight env r ((name, cfg) # rest) =
      (case preflight_open env r name cfg of
         None \<Rightarrow> None
       | Some (Inl e) \<Rightarrow> Some (Err e)
       | Some (Inr p) \<Rightarrow>
           map_option (map_sum (\<lambda>e. e) (\<lambda>ps. case p of Some q \<Rightarrow> (name, q) # ps | None \<Rightarrow> ps)) (preflight env r rest))"

text \<open>Phase two: changes applied to a store that stays open.  An error leaves what was done before it.\<close>

definition resize_map :: "'l cache_env \<Rightarrow> string \<Rightarrow> u64 \<Rightarrow> 'l \<Rightarrow> (string, unit) result \<times> 'l"
  where "resize_map env name want l =
    (let cur = lo_map_size_bytes (ce_lmdb env) l in
     if cur < want then map_prod (map_err (cache_error name ''LMDB map_size grow failed'')) id (lo_grow_map_size (ce_lmdb env) want l)
     else if want < cur then map_prod (map_err (cache_error name ''LMDB map_size shrink failed'')) id (lo_shrink_map_size (ce_lmdb env) want l)
     else (Ok (), l))"

definition hot_apply_lmdb ::
  "'l cache_env \<Rightarrow> string \<Rightarrow> compiled_lmdb_cache \<Rightarrow> 'l \<Rightarrow> (string, unit) result \<times> 'l"
  where "hot_apply_lmdb env name new l =
    (case lo_apply_sync_config (ce_lmdb env) (cl_sync new) (cl_sync_interval new)
        (lo_apply_policy (ce_lmdb env) (cl_when_full new) (cl_sample_size new) l) of
       (Inl e, l1) \<Rightarrow> (Err (cache_error name ''LMDB sync mode Hot apply failed'' e), l1)
     | (Inr _, l1) \<Rightarrow> resize_map env name (cl_map_size_bytes new) l1)"

definition hot_apply_store ::
  "'l cache_env \<Rightarrow> string \<Rightarrow> compiled_cache_instance \<Rightarrow> 'l cache_runtime \<Rightarrow> (string, unit) result \<times> 'l cache_runtime"
  where "hot_apply_store env name cfg inst =
    (case (case (cr_backend inst, cc_lmdb cfg) of
         (LmdbBackend l, Some new) \<Rightarrow> map_prod id LmdbBackend (hot_apply_lmdb env name new l)
       | _ \<Rightarrow> (Ok (), cr_backend inst)) of
       (Inl e, b) \<Rightarrow> (Err e, inst\<lparr>cr_backend := b\<rparr>)
     | (Inr _, b) \<Rightarrow> (Ok (), inst\<lparr>cr_backend := b, cr_config := cfg\<rparr>))"

definition hot_apply ::
  "'l cache_env \<Rightarrow> instant \<Rightarrow> (string \<times> compiled_cache_instance) list \<Rightarrow> string \<Rightarrow> compiled_cache_instance \<Rightarrow>
    'l cache_runtime \<Rightarrow> (string, unit) result \<times> 'l cache_runtime"
  where "hot_apply env now prev name cfg inst = hot_apply_store env name cfg
    (if map_option cc_max_entries (map_of prev name) \<noteq> Some (cc_max_entries cfg)
     then apply_max_entries env now (cc_max_entries cfg) inst else inst)"

fun hot_loop ::
  "'l cache_env \<Rightarrow> instant \<Rightarrow> (string \<times> compiled_cache_instance) list \<Rightarrow> (string \<times> 'l pending_open) list \<Rightarrow>
    (string \<times> compiled_cache_instance) list \<Rightarrow> 'l registry \<Rightarrow> (string, unit) result \<times> 'l registry"
  where
    "hot_loop env now prev pending [] r = (Ok (), r)"
  | "hot_loop env now prev pending ((name, cfg) # rest) r =
      (if map_of pending name \<noteq> None then hot_loop env now prev pending rest r
       else case registry_instance name r of
         None \<Rightarrow> hot_loop env now prev pending rest r
       | Some inst \<Rightarrow>
         (case hot_apply env now prev name cfg inst of
            (Inl e, inst') \<Rightarrow> (Err e, put_instance name inst' r)
          | (Inr _, inst') \<Rightarrow> hot_loop env now prev pending rest (put_instance name inst' r)))"

text \<open>Phase three: install what was opened.\<close>

fun commit_open :: "'l cache_env \<Rightarrow> string \<times> 'l pending_open \<Rightarrow> 'l registry \<Rightarrow> 'l registry"
  where
    "commit_open env (name, Replace b cfg) r =
      (case registry_instance name r of
         Some inst \<Rightarrow> put_instance name (swap_backend b cfg inst) r
       | None \<Rightarrow> put_instance name (runtime_new cfg b) r)"
  | "commit_open env (name, ShardReopen b cfg operator staging) r =
      (case registry_instance name r of
         None \<Rightarrow> r
       | Some inst \<Rightarrow> put_instance name (swap_backend
           (case b of LmdbBackend l \<Rightarrow> LmdbBackend (snd (lo_finalize_shard_reopen (ce_lmdb env) operator staging l)) | _ \<Rightarrow> b)
           cfg inst) r)"

definition drop_removed :: "(string \<times> compiled_cache_instance) list \<Rightarrow> 'l registry \<Rightarrow> 'l registry"
  where "drop_removed new r = r\<lparr>rg_instances := filter (\<lambda>(name, _). map_of new name \<noteq> None) (rg_instances r)\<rparr>"

definition reconcile_caches ::
  "'l cache_env \<Rightarrow> instant \<Rightarrow> (string \<times> compiled_cache_instance) list \<Rightarrow> (string \<times> compiled_cache_instance) list \<Rightarrow>
    'l registry \<Rightarrow> ((string, unit) result \<times> 'l registry) option"
  where "reconcile_caches env now prev new r =
    (case preflight env r new of
       None \<Rightarrow> None
     | Some (Inl e) \<Rightarrow> Some (Err e, r)
     | Some (Inr pending) \<Rightarrow>
       (case hot_loop env now prev pending new r of
          (Inl e, r1) \<Rightarrow> Some (Err e, r1)
        | (Inr _, r1) \<Rightarrow> Some (Ok (), drop_removed new (fold (commit_open env) pending r1))))"

section \<open>Accessing the registry\<close>

lemma registry_instance_put [simp]:
  "registry_instance n (put_instance name inst r) = (if n = name then Some inst else registry_instance n r)"
  by (simp add: registry_instance_def put_instance_def update_conv')

lemma put_instance_fields [simp]:
  "rg_gates (put_instance name inst r) = rg_gates r"
  "rg_rand (put_instance name inst r) = rg_rand r"
  "rg_async_coalesce (put_instance name inst r) = rg_async_coalesce r"
  "rg_wake_set (put_instance name inst r) = rg_wake_set r"
  by (simp_all add: put_instance_def)

lemma registry_instance_update [simp]:
  "registry_instance n (r\<lparr>rg_gates := gs\<rparr>) = registry_instance n r"
  "registry_instance n (r\<lparr>rg_rand := s\<rparr>) = registry_instance n r"
  by (simp_all add: registry_instance_def)

lemma put_flights_simps [simp]:
  "registry_instance n (put_flights name inst ft r) =
    (if n = name then Some (inst\<lparr>cr_inflight := ft_flights ft\<rparr>) else registry_instance n r)"
  "rg_gates (put_flights name inst ft r) = ft_gates ft"
  "rg_rand (put_flights name inst ft r) = rg_rand r"
  by (simp_all add: put_flights_def)

section \<open>What is filled is found\<close>

text \<open>A complete answer and a truncated one of the same query never share a key.\<close>

lemma query_key_not_truncated:
  assumes "build_query_key dc t = Some k" "build_truncated_udp_key dc t = Some k'"
  shows "k' \<noteq> k"
  using assms unfolding build_query_key_def build_truncated_udp_key_def build_key_Some
  by auto

text \<open>Storing a complete answer in memory.\<close>

lemma fill_store_memory:
  assumes "mc_inv (ce_hash env) m" "mc_room m" "build_query_key (ce_codec env) t = Some key"
  shows "\<exists>m'. fill_store env (key, e, False) t now (MemoryBackend m) = Some (MemoryBackend m')
    \<and> mc_inv (ce_hash env) m'
    \<and> (\<forall>now'. mc_get (ce_hash env) key now' m' = (if is_fresh now' e then Some e else None))"
proof -
  let ?put = "map_option fst (mc_insert (ce_hash env) key e now m)"
  obtain m1 ev where ins: "mc_insert (ce_hash env) key e now m = Some (m1, ev)" "mc_inv (ce_hash env) m1"
    "\<forall>now'. mc_get (ce_hash env) key now' m1 = (if is_fresh now' e then Some e else None)"
    using memory_store.put_get [OF assms(1,2), of key e now] by auto
  show ?thesis
  proof (cases "build_truncated_udp_key (ce_codec env) t")
    case None
    then show ?thesis
      using ins by (simp add: fill_store_def backend_insert_def)
  next
    case (Some tc)
    then have "tc \<noteq> key" using query_key_not_truncated [OF assms(3)] by blast
    then show ?thesis
      using Some ins memory_store.get_del [OF ins(2)] memory_store.del_inv [OF ins(2)]
      by (simp add: fill_store_def backend_insert_def backend_remove_def map_prod_def split_beta)
  qed
qed

lemma lookup_reads_key:
  assumes "registry_instance name r = Some inst" "\<not> cr_rebuilding inst" "cache_lookup_eligible t"
    and "build_query_key (ce_codec env) t = Some key"
    and "cr_backend inst = MemoryBackend m" "mc_get (ce_hash env) key now m = Some e"
  shows "fst (cache_lookup env name t now r) = fst (hit_from_entry env (cr_config inst) e t now (rg_rand r))"
  using assms by (simp add: cache_lookup_def read_entry_def backend_get_def split_beta Let_def)

text \<open>What a fill with a complete, cacheable answer leaves behind, in memory.\<close>

lemma fill_memory:
  assumes inst: "registry_instance name r = Some inst" "\<not> cr_rebuilding inst"
    and store: "cr_backend inst = MemoryBackend m" "mc_inv (ce_hash env) m" "mc_room m"
    and key: "build_query_key (ce_codec env) t = Some key" and complete: "\<not> is_truncated_udp_wire env wire t"
    and e: "entry_from_wire (ce_codec env) wire (nc_enabled (cc_negative_cache (cr_config inst)))
        (nc_servfail_ttl_secs (cc_negative_cache (cr_config inst))) now = Some e"
  obtains r' inst' m' where
    "fill_from_forward env name key i wire t now r = Some (wake_waiters (gt_waiters (rg_gates r ! i)) r, r')"
    "registry_instance name r' = Some inst'" "\<not> cr_rebuilding inst'" "cr_config inst' = cr_config inst"
    "cr_backend inst' = MemoryBackend m'" "rg_rand r' = rg_rand r"
    "\<forall>now'. is_fresh now' e \<longrightarrow> mc_get (ce_hash env) key now' m' = Some e"
proof -
  obtain m' where m': "fill_store env (key, e, False) t now (MemoryBackend m) = Some (MemoryBackend m')"
    "\<forall>now'. is_fresh now' e \<longrightarrow> mc_get (ce_hash env) key now' m' = Some e"
    using fill_store_memory [OF store(2,3) key, of e now] by auto
  let ?ft = "snd (table_complete i (Some wire) (flights r inst))"
  let ?r' = "put_flights name (inst\<lparr>cr_backend := MemoryBackend m'\<rparr>) (flight_remove key ?ft) r"
  have "fill_entry env (cr_config inst) key wire t now = Some (key, e, False)"
    using complete e by (simp add: fill_entry_def should_store_truncated_def)
  then have "fill_from_forward env name key i wire t now r
      = Some (wake_waiters (gt_waiters (rg_gates r ! i)) r, ?r')"
    using inst store(1) m'(1)
    by (simp add: fill_from_forward_def table_complete_def gate_complete_def flights_def split_beta Let_def)
  then show thesis
    using inst m'(2)
    by (intro that [of ?r' "inst\<lparr>cr_backend := MemoryBackend m', cr_inflight := ft_flights (flight_remove key ?ft)\<rparr>" m']) simp_all
qed

text \<open>C4: What is filled is found.  After a query filled a cache in memory with a complete, cacheable
  answer, a query with the same key that comes while the entry is fresh is answered from it, with
  the name of the cache and its setting for the response rules.\<close>

theorem fill_then_lookup:
  assumes inst: "registry_instance name r = Some inst" "\<not> cr_rebuilding inst"
    and store: "cr_backend inst = MemoryBackend m" "mc_inv (ce_hash env) m" "mc_room m"
    and key: "build_query_key (ce_codec env) t = Some key" "build_query_key (ce_codec env) t' = Some key"
    and complete: "\<not> is_truncated_udp_wire env wire t"
    and e: "entry_from_wire (ce_codec env) wire (nc_enabled (cc_negative_cache (cr_config inst)))
        (nc_servfail_ttl_secs (cc_negative_cache (cr_config inst))) now = Some e"
    and later: "is_fresh now' e" "cache_lookup_eligible t'"
    and served: "prepare_served_wire (ce_codec env) (rg_rand r) (ce_wire e) (dns_id t')
        (cc_rotate_rrset_on_serve (cr_config inst)) (ce_filled_at e) now' (Some (query_wire t')) = (Some w, s)"
  shows "\<exists>woken r'. fill_from_forward env name key i wire t now r = Some (woken, r')
    \<and> fst (cache_lookup env name t' now' r') =
        LookupHit w (cc_name (cr_config inst)) (cc_on_hit_response_rules (cr_config inst) = HitSkip)"
proof -
  obtain r' inst' m' where r': "fill_from_forward env name key i wire t now r = Some (wake_waiters (gt_waiters (rg_gates r ! i)) r, r')"
    "registry_instance name r' = Some inst'" "\<not> cr_rebuilding inst'" "cr_config inst' = cr_config inst"
    "cr_backend inst' = MemoryBackend m'" "rg_rand r' = rg_rand r" "mc_get (ce_hash env) key now' m' = Some e"
    using fill_memory [OF inst store key(1) complete e] later(1) by metis
  then have "fst (cache_lookup env name t' now' r') = fst (hit_from_entry env (cr_config inst) e t' now' (rg_rand r))"
    using lookup_reads_key [OF r'(2,3) later(2) key(2) r'(5,7)] by simp
  then show ?thesis
    using r'(1) served by (simp add: hit_from_entry_def hit_from_wire_def)
qed

definition example_env :: "unit cache_env"
  where "example_env = \<lparr>ce_codec = answer_codec, ce_hash = (\<lambda>_. 0), ce_lmdb = undefined\<rparr>"

definition example_query :: transaction
  where "example_query = (transaction_new 0 0 1 (SocketV4 0 53) Udp)\<lparr>query_wire := [8], cache_lookup_eligible := True\<rparr>"

definition example_registry :: "unit registry"
  where "example_registry = \<lparr>rg_instances = [(''c'', runtime_new example_instance (MemoryBackend (memory_from_config 1 1)))],
    rg_gates = [], rg_async_coalesce = False, rg_wake_set = False, rg_rand = 1\<rparr>"

text \<open>The concrete fill: a cacheable answer into an empty store.\<close>

lemma example_fill:
  obtains key where "build_query_key answer_codec example_query = Some key"
    "entry_from_wire answer_codec [9] neg ttl 0 = Some \<lparr>ce_kind = Positive, ce_wire = [9], ce_filled_at = 0, ce_expires_at = from_secs 200\<rparr>"
    "prepare_served_wire answer_codec 1 [9] 0 False 0 0 (Some [8]) = (Some [0], 1)"
    "\<not> is_truncated_udp_wire example_env [9] example_query"
proof -
  have "\<exists>key. build_query_key answer_codec example_query = Some key"
    by (simp add: build_query_key_def build_key_from_parts_def dnssec_flags_def ecs_option_bytes_def
        normalize_qname_def answer_codec_def example_query_def example_answer_def transaction_new_def)
  moreover have "entry_from_wire answer_codec [9] neg ttl 0
      = Some \<lparr>ce_kind = Positive, ce_wire = [9], ce_filled_at = 0, ce_expires_at = from_secs 200\<rparr>"
    by (simp add: entry_from_wire_def ttl_for_wire_def answer_codec_def example_answer_def msg_kind_def
        answer_count_u16_def kind_from_rcode_def minimum_ttl_from_message_def example_rr_def
        expires_at_from_ttl_def min_def Let_def)
  moreover have "prepare_served_wire answer_codec 1 [9] 0 False 0 0 (Some [8]) = (Some [0], 1)"
    by (simp add: prepare_served_wire_def served_message_def apply_client_query_def answer_codec_def
        example_answer_def decay_rr_ttls_def cache_age_secs_def as_secs_u32_def Let_def)
  moreover have "\<not> is_truncated_udp_wire example_env [9] example_query"
    by (simp add: is_truncated_udp_wire_def example_env_def answer_codec_def example_answer_def)
  ultimately show thesis
    using that by blast
qed

lemma example_later:
  "is_fresh 0 \<lparr>ce_kind = Positive, ce_wire = [9], ce_filled_at = 0, ce_expires_at = from_secs 200\<rparr>"
  "cache_lookup_eligible example_query" "dns_id example_query = 0" "query_wire example_query = [8]"
  "cc_rotate_rrset_on_serve example_instance = False" "cc_name example_instance = ''main''"
  "cc_on_hit_response_rules example_instance = HitRun"
  by (simp_all add: is_fresh_def from_secs_def example_query_def transaction_new_def example_instance_def)

lemma example_memory: "mc_inv h (memory_from_config 1 1)" "mc_room (memory_from_config 1 1)"
  by (rule mc_inv_from_config) (simp add: mc_room_def memory_from_config_def)

lemma example_runtime:
  "registry_instance ''c'' example_registry = Some (runtime_new example_instance (MemoryBackend (memory_from_config 1 1)))"
  "\<not> cr_rebuilding (runtime_new cfg b)" "cr_backend (runtime_new cfg b) = b" "cr_config (runtime_new cfg b) = cfg"
  "rg_rand example_registry = 1" "ce_codec example_env = answer_codec"
  by (simp_all add: registry_instance_def example_registry_def runtime_new_def example_env_def)

theorem fill_then_lookup_witness:
  "\<exists>key woken r'. fill_from_forward example_env ''c'' key 0 [9] example_query 0 example_registry = Some (woken, r')
    \<and> fst (cache_lookup example_env ''c'' example_query 0 r') = LookupHit [0] ''main'' False"
proof -
  let ?e = "\<lparr>ce_kind = Positive, ce_wire = [9], ce_filled_at = 0, ce_expires_at = from_secs 200\<rparr>"
  obtain key where key: "build_query_key answer_codec example_query = Some key"
    "entry_from_wire answer_codec [9] (nc_enabled (cc_negative_cache example_instance))
        (nc_servfail_ttl_secs (cc_negative_cache example_instance)) 0 = Some ?e"
    "prepare_served_wire answer_codec 1 [9] 0 False 0 0 (Some [8]) = (Some [0], 1)"
    "\<not> is_truncated_udp_wire example_env [9] example_query"
    by (rule example_fill)
  show ?thesis
    using fill_then_lookup [OF example_runtime(1-3) example_memory, of example_env example_query key example_query "[9]" 0 ?e 0 "[0]" 1 0]
    by (auto simp: key example_later example_runtime)
qed

section \<open>Completing a flight\<close>

text \<open>C16: Coalesced queries get the answer.  When the leader of a flight fills a cache in memory with a
  complete, cacheable answer and the waking of parked queries is set up, every query parked on the
  flight is woken, and a woken query that resumes while the entry is fresh is answered from the cache
  with that answer, prepared for its own identifier and question.\<close>

theorem waiters_resume_with_answer:
  assumes inst: "registry_instance name r = Some inst" "\<not> cr_rebuilding inst"
    and store: "cr_backend inst = MemoryBackend m" "mc_inv (ce_hash env) m" "mc_room m"
    and key: "build_query_key (ce_codec env) t = Some key" and complete: "\<not> is_truncated_udp_wire env wire t"
    and e: "entry_from_wire (ce_codec env) wire (nc_enabled (cc_negative_cache (cr_config inst)))
        (nc_servfail_ttl_secs (cc_negative_cache (cr_config inst))) now = Some e"
    and later: "is_fresh now' e" and wake: "rg_wake_set r" "txn \<in> set (gt_waiters (rg_gates r ! i))"
    and served: "prepare_served_wire (ce_codec env) (rg_rand r) (ce_wire e) (dns_id t')
        (cc_rotate_rrset_on_serve (cr_config inst)) (ce_filled_at e) now' (Some (query_wire t')) = (Some w, s)"
  shows "\<exists>woken r'. fill_from_forward env name key i wire t now r = Some (woken, r') \<and> txn \<in> set woken
    \<and> fst (resume_after_wait env name key t' now' r') =
        LookupHit w (cc_name (cr_config inst)) (cc_on_hit_response_rules (cr_config inst) = HitSkip)"
proof -
  obtain r' inst' m' where r': "fill_from_forward env name key i wire t now r = Some (wake_waiters (gt_waiters (rg_gates r ! i)) r, r')"
    "registry_instance name r' = Some inst'" "cr_config inst' = cr_config inst"
    "cr_backend inst' = MemoryBackend m'" "rg_rand r' = rg_rand r" "mc_get (ce_hash env) key now' m' = Some e"
    using fill_memory [OF inst store key complete e] later by metis
  have "fst (resume_after_wait env name key t' now' r') = fst (hit_from_entry env (cr_config inst) e t' now' (rg_rand r))"
    using r'(2-6) by (simp add: resume_after_wait_def backend_get_def split_beta Let_def)
  then show ?thesis
    using r'(1) wake served by (simp add: wake_waiters_def hit_from_entry_def hit_from_wire_def)
qed

theorem waiters_resume_with_answer_witness:
  "\<exists>key r'. fill_from_forward example_env ''c'' key 0 [9] example_query 0
      (example_registry\<lparr>rg_gates := [\<lparr>gt_leader_active = True, gt_result = None, gt_waiters = [7]\<rparr>], rg_wake_set := True\<rparr>) = Some ([7], r')
    \<and> fst (resume_after_wait example_env ''c'' key example_query 0 r') = LookupHit [0] ''main'' False"
proof -
  let ?e = "\<lparr>ce_kind = Positive, ce_wire = [9], ce_filled_at = 0, ce_expires_at = from_secs 200\<rparr>"
  let ?r = "example_registry\<lparr>rg_gates := [\<lparr>gt_leader_active = True, gt_result = None, gt_waiters = [7]\<rparr>], rg_wake_set := True\<rparr>"
  obtain key where key: "build_query_key answer_codec example_query = Some key"
    "entry_from_wire answer_codec [9] (nc_enabled (cc_negative_cache example_instance))
        (nc_servfail_ttl_secs (cc_negative_cache example_instance)) 0 = Some ?e"
    "prepare_served_wire answer_codec 1 [9] 0 False 0 0 (Some [8]) = (Some [0], 1)"
    "\<not> is_truncated_udp_wire example_env [9] example_query"
    by (rule example_fill)
  have inst: "registry_instance ''c'' ?r = Some (runtime_new example_instance (MemoryBackend (memory_from_config 1 1)))"
    by (simp add: registry_instance_def example_registry_def)
  obtain woken r' where r': "fill_from_forward example_env ''c'' key 0 [9] example_query 0 ?r = Some (woken, r')" "7 \<in> set woken"
    "fst (resume_after_wait example_env ''c'' key example_query 0 r') = LookupHit [0] ''main'' False"
    using waiters_resume_with_answer [OF inst example_runtime(2,3) example_memory,
        of example_env example_query key "[9]" 0 ?e 0 7 0 example_query "[0]" 1]
    by (auto simp: key example_later example_runtime)
  have "woken = [7]"
    using r'(1,2) inst by (auto simp: fill_from_forward_def table_complete_def gate_complete_def flights_def wake_waiters_def
        Let_def split: option.splits if_splits)
  then show ?thesis
    using r' by blast
qed

text \<open>An answer that is not stored, because it is not cacheable, truncated or the store is being
  rebuilt, wakes nobody, though the waiters are dropped from the gate.\<close>

lemma unstored_fill_drops_waiters:
  assumes "registry_instance name r = Some inst" "i < length (rg_gates r)"
    and "cr_rebuilding inst \<or> fill_entry env (cr_config inst) key wire t now = None"
  shows "\<exists>r'. fill_from_forward env name key i wire t now r = Some ([], r') \<and> gt_waiters (rg_gates r' ! i) = []
    \<and> \<not> gt_leader_active (rg_gates r' ! i)"
  using assms by (auto simp: fill_from_forward_def table_complete_def gate_complete_def flights_def flight_remove_def Let_def)

text \<open>The walk up the name gives up at the first ancestor without an entry, also if a higher one is
  known not to exist.\<close>

lemma ancestor_walk_stops_at_gap:
  assumes "build_key_from_parts (ce_codec env) name (or_default (qtype t) 0) (or_default (qclass t) 1)
      (query_wire t) KeyComplete = Some key"
    and "mc_get (ce_hash env) key now m = None"
  shows "fst (ancestor_walk env t now (name # ancestors) (MemoryBackend m)) = None"
  using assms by (simp add: backend_get_def)

section \<open>Reconciliation\<close>

text \<open>An instance whose store is of the configured type, exact, and capped as configured.\<close>

definition runtime_ok :: "'l cache_env \<Rightarrow> 'l cache_runtime \<Rightarrow> bool"
  where "runtime_ok env inst =
    (case cr_backend inst of
       MemoryBackend m \<Rightarrow> cc_backend_type (cr_config inst) = BackendMemory \<and> mc_inv (ce_hash env) m
         \<and> (mc_max_entries m = 0 \<or> mc_live_entries m \<le> mc_max_entries m)
         \<and> mc_max_entries m = cc_max_entries (cr_config inst)
     | LmdbBackend l \<Rightarrow> cc_backend_type (cr_config inst) = BackendLmdb)"

text \<open>A registry in line with the configuration \<open>cfgs\<close>.\<close>

definition registry_ok :: "'l cache_env \<Rightarrow> (string \<times> compiled_cache_instance) list \<Rightarrow> 'l registry \<Rightarrow> bool"
  where "registry_ok env cfgs r \<longleftrightarrow> (\<forall>name inst. registry_instance name r = Some inst \<longrightarrow>
    runtime_ok env inst \<and> map_option cc_max_entries (map_of cfgs name) = Some (cc_max_entries (cr_config inst)))"

definition flights_of :: "'l registry \<Rightarrow> string \<Rightarrow> (cache_key \<times> nat) list option"
  where "flights_of r name = map_option cr_inflight (registry_instance name r)"

lemma flights_of_put [simp]:
  "flights_of (put_instance name inst r) = (flights_of r)(name := Some (cr_inflight inst))"
  by (auto simp: flights_of_def)

lemma memory_from_config_fields [simp]:
  "mc_max_entries (memory_from_config n k) = k" "mc_live_entries (memory_from_config n k) = 0"
  by (simp_all add: memory_from_config_def)

lemma backend_from_config_ok:
  assumes "backend_from_config env cfg = Some (Inr (cr_backend inst))" "cr_config inst = cfg"
  shows "runtime_ok env inst"
proof (cases "cc_backend_type cfg")
  case BackendMemory
  then have "cr_backend inst = MemoryBackend (memory_from_config (cm_shard_count (cc_memory cfg)) (cc_max_entries cfg))"
    using assms(1) by (simp add: backend_from_config_def)
  then show ?thesis
    using BackendMemory assms(2) by (simp add: runtime_ok_def mc_inv_from_config)
next
  case BackendLmdb
  then show ?thesis
    using assms by (cases "lo_open (ce_lmdb env) cfg") (auto simp: backend_from_config_def runtime_ok_def split: cache_backend.splits)
next
  case BackendEbpfMap
  then show ?thesis
    using assms(1) by (simp add: backend_from_config_def)
qed

lemma apply_max_entries_ok:
  assumes "runtime_ok env inst"
  shows "runtime_ok env (apply_max_entries env now n inst) \<and> cc_max_entries (cr_config (apply_max_entries env now n inst)) = n
    \<and> cc_backend_type (cr_config (apply_max_entries env now n inst)) = cc_backend_type (cr_config inst)
    \<and> cr_inflight (apply_max_entries env now n inst) = cr_inflight inst"
proof (cases "cr_backend inst")
  case (MemoryBackend m)
  then show ?thesis
    using assms set_max_entries_spec [of "ce_hash env" m now n]
    by (auto simp: apply_max_entries_def runtime_ok_def backend_set_max_entries_def word_gt_0)
next
  case (LmdbBackend l)
  then show ?thesis
    using assms by (auto simp: apply_max_entries_def runtime_ok_def backend_set_max_entries_def)
qed

lemma hot_apply_store_ok:
  assumes ok: "runtime_ok env inst" and ty: "cc_backend_type cfg = cc_backend_type (cr_config inst)"
    and cap: "cc_max_entries (cr_config inst) = cc_max_entries cfg"
    and res: "hot_apply_store env name cfg inst = (res, inst')"
  shows "runtime_ok env inst' \<and> cr_inflight inst' = cr_inflight inst \<and> (\<forall>u. res = Inr u \<longrightarrow> cr_config inst' = cfg)"
proof (cases "cr_backend inst")
  case (MemoryBackend m)
  then show ?thesis
    using res ok ty cap by (auto simp: hot_apply_store_def runtime_ok_def)
next
  case (LmdbBackend l)
  show ?thesis
  proof (cases "cc_lmdb cfg")
    case None
    then show ?thesis
      using res ok ty LmdbBackend by (auto simp: hot_apply_store_def runtime_ok_def)
  next
    case (Some new)
    obtain res' l' where "hot_apply_lmdb env name new l = (res', l')" by fastforce
    then show ?thesis
      using res ok ty LmdbBackend Some by (cases res') (auto simp: hot_apply_store_def runtime_ok_def)
  qed
qed

lemma hot_apply_ok:
  assumes ok: "runtime_ok env inst" and ty: "cc_backend_type cfg = cc_backend_type (cr_config inst)"
    and prev: "map_option cc_max_entries (map_of prev name) = Some (cc_max_entries (cr_config inst))"
    and res: "hot_apply env now prev name cfg inst = (res, inst')"
  shows "runtime_ok env inst' \<and> cr_inflight inst' = cr_inflight inst \<and> (\<forall>u. res = Inr u \<longrightarrow> cr_config inst' = cfg)"
proof -
  let ?inst1 = "if map_option cc_max_entries (map_of prev name) \<noteq> Some (cc_max_entries cfg)
    then apply_max_entries env now (cc_max_entries cfg) inst else inst"
  have "runtime_ok env ?inst1" "cc_max_entries (cr_config ?inst1) = cc_max_entries cfg"
    "cc_backend_type cfg = cc_backend_type (cr_config ?inst1)" "cr_inflight ?inst1 = cr_inflight inst"
    using apply_max_entries_ok [OF ok, of now "cc_max_entries cfg"] ok ty prev by auto
  then show ?thesis
    using hot_apply_store_ok [of env ?inst1 cfg name res inst'] res unfolding hot_apply_def by metis
qed

lemma map_option_map_sum_Ok:
  "map_option (map_sum f g) z = Some (Inr y) \<longleftrightarrow> (\<exists>x. z = Some (Inr x) \<and> y = g x)"
  by (cases z; cases "the z") auto

lemma map_sum_Ok: "map_sum f g z = Inr y \<longleftrightarrow> (\<exists>x. z = Inr x \<and> y = g x)"
  by (cases z) auto

text \<open>What the preflight found out about a name.\<close>

lemma preflight_Ok:
  assumes "preflight env r new = Some (Inr ps)" "distinct (map fst new)"
  shows "distinct (map fst ps) \<and> fst ` set ps \<subseteq> fst ` set new
    \<and> (\<forall>(name, cfg) \<in> set new. preflight_open env r name cfg = Some (Inr (map_of ps name)))"
  using assms
proof (induction new arbitrary: ps)
  case (Cons x new)
  obtain name cfg where x: "x = (name, cfg)" by fastforce
  from Cons.prems(1) obtain p ps' where p: "preflight_open env r name cfg = Some (Inr p)"
    "preflight env r new = Some (Inr ps')" "ps = (case p of Some q \<Rightarrow> (name, q) # ps' | None \<Rightarrow> ps')"
    by (auto simp: x map_option_map_sum_Ok map_sum_Ok split: option.splits sum.splits)
  note IH = Cons.IH [OF p(2)]
  have "name \<notin> fst ` set ps'" "name \<notin> fst ` set new"
    using IH Cons.prems(2) x by auto
  then have "map_of ps name = p" "\<And>n. n \<noteq> name \<Longrightarrow> map_of ps n = map_of ps' n"
    using p(3) by (auto split: option.splits simp: map_of_eq_None_iff)
  moreover have "\<And>n c. (n, c) \<in> set new \<Longrightarrow> n \<noteq> name"
    using \<open>name \<notin> fst ` set new\<close> by force
  ultimately show ?case
    using IH Cons.prems(2) p \<open>name \<notin> fst ` set ps'\<close> by (auto simp: x split: option.splits)
qed simp

lemma preflight_kept:
  assumes "preflight_open env r name cfg = Some (Inr None)"
  shows "\<exists>inst. registry_instance name r = Some inst \<and> cc_backend_type cfg = cc_backend_type (cr_config inst)"
  using assms by (cases "registry_instance name r") (auto simp: preflight_open_def map_option_map_sum_Ok map_sum_Ok split: if_splits)

lemma preflight_opened:
  assumes "preflight_open env r name cfg = Some (Inr (Some p))"
    and ok: "\<And>inst. registry_instance name r = Some inst \<Longrightarrow> runtime_ok env inst"
    and same: "registry_instance name r1 = registry_instance name r"
  shows "\<exists>inst. commit_open env (name, p) r1 = put_instance name inst r1 \<and> runtime_ok env inst \<and> cr_config inst = cfg
    \<and> cr_inflight inst = or_default (flights_of r name) []"
proof (cases "registry_instance name r")
  case None
  then obtain b where "backend_from_config env cfg = Some (Inr b)" "p = Replace b cfg"
    using assms(1) by (auto simp: preflight_open_def map_option_map_sum_Ok map_sum_Ok)
  then show ?thesis
    using None same backend_from_config_ok [of env cfg "runtime_new cfg b"]
    by (auto simp: runtime_new_def flights_of_def flight_table_new_def or_default_def)
next
  case (Some inst)
  show ?thesis
  proof (cases "cc_backend_type (cr_config inst) \<noteq> cc_backend_type cfg \<or> lmdb_path (cr_config inst) \<noteq> lmdb_path cfg")
    case True
    then obtain b where "backend_from_config env cfg = Some (Inr b)" "p = Replace b cfg"
      using assms(1) Some by (auto simp: preflight_open_def map_option_map_sum_Ok map_sum_Ok)
    then show ?thesis
      using Some same backend_from_config_ok [of env cfg "swap_backend b cfg inst"]
      by (auto simp: swap_backend_def flights_of_def or_default_def)
  next
    case False
    then obtain l operator staging where p: "lmdb_explicit_shard_reopen_needed env cfg (cr_backend inst)"
      "p = ShardReopen (LmdbBackend l) cfg operator staging"
      using assms(1) Some by (auto simp: preflight_open_def map_option_map_sum_Ok map_sum_Ok split: if_splits)
    then obtain l' where "cr_backend inst = LmdbBackend l'"
      by (auto simp: lmdb_explicit_shard_reopen_needed_def split: option.splits cache_backend.splits)
    then have "cc_backend_type cfg = BackendLmdb"
      using False ok [OF Some] by (simp add: runtime_ok_def)
    then show ?thesis
      using Some same p(2) by (auto simp: swap_backend_def runtime_ok_def flights_of_def or_default_def)
  qed
qed

text \<open>The changes applied in place.\<close>

definition all_ok :: "'l cache_env \<Rightarrow> 'l registry \<Rightarrow> bool"
  where "all_ok env r \<longleftrightarrow> (\<forall>name inst. registry_instance name r = Some inst \<longrightarrow> runtime_ok env inst)"

definition hot_pre ::
  "(string \<times> compiled_cache_instance) list \<Rightarrow> (string \<times> 'l pending_open) list \<Rightarrow> (string \<times> compiled_cache_instance) list \<Rightarrow> 'l registry \<Rightarrow> bool"
  where "hot_pre prev pending new r \<longleftrightarrow> (\<forall>name cfg inst. (name, cfg) \<in> set new \<and> map_of pending name = None
    \<and> registry_instance name r = Some inst \<longrightarrow> cc_backend_type cfg = cc_backend_type (cr_config inst)
        \<and> map_option cc_max_entries (map_of prev name) = Some (cc_max_entries (cr_config inst)))"

lemma hot_pre_put:
  assumes "hot_pre prev pending ((name, cfg) # new) r" "name \<notin> fst ` set new"
  shows "hot_pre prev pending new (put_instance name inst r)"
  unfolding hot_pre_def
proof (intro allI impI)
  fix n c i
  assume h: "(n, c) \<in> set new \<and> map_of pending n = None \<and> registry_instance n (put_instance name inst r) = Some i"
  then have "n \<noteq> name" using assms(2) by (metis fst_conv image_eqI)
  then show "cc_backend_type c = cc_backend_type (cr_config i)
      \<and> map_option cc_max_entries (map_of prev n) = Some (cc_max_entries (cr_config i))"
    using h assms(1) unfolding hot_pre_def by (metis list.set_intros(2) registry_instance_put)
qed

lemma hot_loop_spec:
  assumes "hot_loop env now prev pending new r = (res, r')" "distinct (map fst new)"
    and "all_ok env r" "hot_pre prev pending new r"
  shows "flights_of r' = flights_of r \<and> rg_gates r' = rg_gates r \<and> all_ok env r'
    \<and> (\<forall>name. map_of pending name \<noteq> None \<or> name \<notin> fst ` set new \<longrightarrow> registry_instance name r' = registry_instance name r)
    \<and> (\<forall>u. res = Inr u \<longrightarrow> (\<forall>(name, cfg) \<in> set new. map_of pending name = None \<longrightarrow>
          (\<forall>inst. registry_instance name r' = Some inst \<longrightarrow> cr_config inst = cfg)))"
  using assms
proof (induction new arbitrary: r)
  case (Cons x new)
  obtain name cfg where x: "x = (name, cfg)" by fastforce
  have fresh: "name \<notin> fst ` set new" "distinct (map fst new)" using Cons.prems(2) x by auto
  show ?case
  proof (cases "map_of pending name = None \<and> registry_instance name r \<noteq> None")
    case False
    then have step: "hot_loop env now prev pending new r = (res, r')"
      using Cons.prems(1) by (auto simp: x split: if_splits option.splits)
    have "hot_pre prev pending new r"
      using Cons.prems(4) unfolding hot_pre_def x by auto
    note IH = Cons.IH [OF step fresh(2) Cons.prems(3) this]
    then have "registry_instance name r' = None" if "map_of pending name = None"
      using False that by (auto simp: flights_of_def dest!: fun_cong [where x = name])
    then show ?thesis
      using IH by (auto simp: x)
  next
    case True
    then obtain inst where inst: "map_of pending name = None" "registry_instance name r = Some inst" by blast
    obtain res1 inst' where h: "hot_apply env now prev name cfg inst = (res1, inst')" by fastforce
    have "cc_backend_type cfg = cc_backend_type (cr_config inst)"
      "map_option cc_max_entries (map_of prev name) = Some (cc_max_entries (cr_config inst))" "runtime_ok env inst"
      using Cons.prems(3,4) inst unfolding hot_pre_def all_ok_def x by (metis list.set_intros(1))+
    then have ok: "runtime_ok env inst'" "cr_inflight inst' = cr_inflight inst" "\<And>u. res1 = Inr u \<Longrightarrow> cr_config inst' = cfg"
      using hot_apply_ok [OF _ _ _ h] by auto
    let ?r1 = "put_instance name inst' r"
    have flights: "flights_of ?r1 = flights_of r"
      using ok(2) inst(2) by (auto simp: flights_of_def)
    have all: "all_ok env ?r1"
      using ok(1) Cons.prems(3) by (simp add: all_ok_def)
    show ?thesis
    proof (cases res1)
      case (Inl e)
      then show ?thesis
        using Cons.prems(1) inst h all flights by (auto simp: x)
    next
      case (Inr u)
      have step: "hot_loop env now prev pending new ?r1 = (res, r')"
        using Cons.prems(1) inst h Inr by (simp add: x)
      have "hot_pre prev pending new ?r1"
        using Cons.prems(4) fresh(1) unfolding x by (rule hot_pre_put)
      note IH = Cons.IH [OF step fresh(2) all this]
      have "registry_instance name r' = Some inst'"
        using IH fresh(1) by simp
      moreover have "flights_of r' = flights_of r"
        using IH flights by metis
      ultimately show ?thesis
        using IH inst ok(3) [OF Inr] by (auto simp: x simp del: flights_of_put)
    qed
  qed
qed simp

text \<open>The installation of what was opened.\<close>

lemma commit_spec:
  assumes "distinct (map fst pending)"
    and "\<forall>(name, p) \<in> set pending. \<forall>r1. registry_instance name r1 = registry_instance name r \<longrightarrow>
      (\<exists>inst. commit_open env (name, p) r1 = put_instance name inst r1 \<and> Q name inst)"
  shows "rg_gates (fold (commit_open env) pending r) = rg_gates r
    \<and> (\<forall>name. if map_of pending name = None
        then registry_instance name (fold (commit_open env) pending r) = registry_instance name r
        else \<exists>inst. registry_instance name (fold (commit_open env) pending r) = Some inst \<and> Q name inst)"
  using assms
proof (induction pending arbitrary: r)
  case (Cons x pending)
  obtain name p where x: "x = (name, p)" by fastforce
  obtain inst where inst: "commit_open env (name, p) r = put_instance name inst r" "Q name inst"
    using Cons.prems(2) x by auto
  have fresh: "name \<notin> fst ` set pending" "distinct (map fst pending)" using Cons.prems(1) x by auto
  have "\<forall>(n, q) \<in> set pending. \<forall>r1. registry_instance n r1 = registry_instance n (put_instance name inst r) \<longrightarrow>
      (\<exists>i. commit_open env (n, q) r1 = put_instance n i r1 \<and> Q n i)"
  proof (clarify)
    fix n q r1
    assume q: "(n, q) \<in> set pending" and same: "registry_instance n r1 = registry_instance n (put_instance name inst r)"
    then have "registry_instance n r1 = registry_instance n r"
      using fresh(1) by (metis fst_conv image_eqI registry_instance_put)
    moreover have "(n, q) \<in> set (x # pending)" using q by simp
    ultimately show "\<exists>i. commit_open env (n, q) r1 = put_instance n i r1 \<and> Q n i"
      using Cons.prems(2) by blast
  qed
  note IH = Cons.IH [OF fresh(2) this]
  have "map_of pending name = None" using fresh(1) by (simp add: map_of_eq_None_iff)
  then show ?case
    using IH inst by (auto simp: x dest: spec [of _ name])
qed simp

lemma map_of_filter_key: "map_of (filter (\<lambda>(n, _). P n) xs) k = (if P k then map_of xs k else None)"
  by (induction xs) auto

lemma registry_instance_drop:
  "registry_instance name (drop_removed new r) = (if map_of new name = None then None else registry_instance name r)"
  "rg_gates (drop_removed new r) = rg_gates r"
  unfolding registry_instance_def drop_removed_def by (simp_all add: map_of_filter_key del: not_None_eq)

text \<open>The preflight and the changes in place, for a registry in line with the old configuration.\<close>

lemma reconcile_prepared:
  assumes "preflight env r new = Some (Inr pending)" "hot_loop env now prev pending new r = (hres, r1)"
    and "registry_ok env prev r" "distinct (map fst new)"
  shows "flights_of r1 = flights_of r \<and> rg_gates r1 = rg_gates r \<and> all_ok env r1
    \<and> (\<forall>name. map_of pending name \<noteq> None \<longrightarrow> registry_instance name r1 = registry_instance name r)
    \<and> (\<forall>name cfg. hres = Inr () \<and> map_of new name = Some cfg \<and> map_of pending name = None \<longrightarrow>
          (\<exists>inst. registry_instance name r1 = Some inst \<and> cr_config inst = cfg))"
proof -
  have kept: "\<exists>inst. registry_instance name r = Some inst \<and> cc_backend_type cfg = cc_backend_type (cr_config inst)"
    if "(name, cfg) \<in> set new" "map_of pending name = None" for name cfg
    using preflight_Ok [OF assms(1,4)] that preflight_kept [of env r name cfg] by fastforce
  have "hot_pre prev pending new r" "all_ok env r"
    using kept assms(3) unfolding hot_pre_def all_ok_def registry_ok_def by fastforce+
  note hs = hot_loop_spec [OF assms(2,4) this(2,1)]
  have "\<exists>inst. registry_instance name r1 = Some inst \<and> cr_config inst = cfg"
    if res: "hres = Inr ()" and new: "map_of new name = Some cfg" and none: "map_of pending name = None" for name cfg
  proof -
    have cfg: "(name, cfg) \<in> set new" using new by (rule map_of_SomeD)
    then obtain inst0 where "registry_instance name r = Some inst0" using kept none by blast
    then have "registry_instance name r1 \<noteq> None"
      using hs by (auto simp: flights_of_def dest!: fun_cong [where x = name])
    then show ?thesis using hs res none cfg by fastforce
  qed
  with hs show ?thesis by blast
qed

text \<open>What an accepted configuration leaves under a configured name.\<close>

definition installed ::
  "'l cache_env \<Rightarrow> (string \<times> compiled_cache_instance) list \<Rightarrow> 'l registry \<Rightarrow> string \<Rightarrow> 'l cache_runtime \<Rightarrow> bool"
  where "installed env new r name inst \<longleftrightarrow> runtime_ok env inst \<and> map_of new name = Some (cr_config inst)
    \<and> cr_inflight inst = or_default (flights_of r name) []"

lemma reconcile_installs:
  assumes pre: "preflight env r new = Some (Inr pending)" and hot: "hot_loop env now prev pending new r = (Inr (), r1)"
    and ok: "registry_ok env prev r" "distinct (map fst new)"
  shows "map_of new name \<noteq> None \<Longrightarrow>
      \<exists>inst. registry_instance name (fold (commit_open env) pending r1) = Some inst \<and> installed env new r name inst"
    and "rg_gates (fold (commit_open env) pending r1) = rg_gates r"
proof -
  note p = preflight_Ok [OF pre ok(2)]
  note hs = reconcile_prepared [OF pre hot ok]
  have "\<exists>inst. commit_open env (n, q) r2 = put_instance n inst r2 \<and> installed env new r n inst"
    if q: "(n, q) \<in> set pending" and same: "registry_instance n r2 = registry_instance n r1" for n q r2
  proof -
    obtain cfg where cfg: "(n, cfg) \<in> set new" using q p by force
    have pend: "map_of pending n = Some q" using q p by simp
    moreover have "map_of new n = Some cfg" using cfg ok(2) by simp
    moreover have "preflight_open env r n cfg = Some (Inr (Some q))" using p cfg pend by fastforce
    moreover have "runtime_ok env inst" if "registry_instance n r = Some inst" for inst
      using ok(1) that by (simp add: registry_ok_def)
    ultimately show ?thesis
      using preflight_opened [of env r n cfg q r2] same hs unfolding installed_def by (metis option.distinct(1))
  qed
  then have cs: "rg_gates (fold (commit_open env) pending r1) = rg_gates r1
      \<and> (\<forall>n. if map_of pending n = None
          then registry_instance n (fold (commit_open env) pending r1) = registry_instance n r1
          else \<exists>inst. registry_instance n (fold (commit_open env) pending r1) = Some inst \<and> installed env new r n inst)"
    using p by (intro commit_spec) blast+
  then show "rg_gates (fold (commit_open env) pending r1) = rg_gates r" using hs by simp
  assume name: "map_of new name \<noteq> None"
  show "\<exists>inst. registry_instance name (fold (commit_open env) pending r1) = Some inst \<and> installed env new r name inst"
  proof (cases "map_of pending name")
    case None
    from name obtain cfg where cfg: "map_of new name = Some cfg" by blast
    with None hs obtain inst where inst: "registry_instance name r1 = Some inst" "cr_config inst = cfg" by blast
    moreover have "flights_of r name = Some (cr_inflight inst)"
      using hs inst(1) by (metis flights_of_def option.map(2))
    ultimately show ?thesis
      using cs None hs cfg by (auto simp: installed_def all_ok_def or_default_def)
  next
    case (Some q)
    then show ?thesis using cs by (metis option.distinct(1))
  qed
qed

text \<open>A registry built from a configuration agrees with it.\<close>

lemma from_snapshot_spec:
  "from_snapshot env cfgs = Some insts \<Longrightarrow> map_of insts name = Some inst \<Longrightarrow>
   \<exists>cfg. map_of cfgs name = Some cfg \<and> cr_config inst = cfg \<and> backend_from_config env cfg = Some (Inr (cr_backend inst))"
proof (induction env cfgs arbitrary: insts rule: from_snapshot.induct)
  case (2 env n cfg rest)
  then obtain inst0 insts0 where i: "runtime_try_new env cfg = Some (Ok inst0)" "from_snapshot env rest = Some insts0"
    "insts = AList.update n inst0 insts0"
    by (auto split: option.splits sum.splits)
  have "cr_config inst0 = cfg \<and> backend_from_config env cfg = Some (Inr (cr_backend inst0))"
    using i(1) by (auto simp: runtime_try_new_def runtime_new_def map_sum_Ok split: sum.splits)
  then show ?case
    using 2 i by (auto simp: update_conv split: if_splits)
qed simp

lemma registry_new_ok: "registry_new env s cfgs = Some r \<Longrightarrow> registry_ok env cfgs r"
  using from_snapshot_spec [of env cfgs] backend_from_config_ok [of env]
  by (fastforce simp: registry_new_def registry_ok_def registry_instance_def)

text \<open>C7: Reconciling the caches with a new configuration, from a registry that agrees with the previous
  one: every instance has a store of its configured type, in memory capped as configured, and the cap
  the previous configuration gives.  A new registry agrees with its configuration, and an accepted
  reconciliation leaves one that does; a rejected one need not, since a cap it has applied stays.
  A rejected configuration drops and adds no instance.  An accepted one leaves exactly the configured
  instances, each with its new configuration, a store of the configured type and, in memory, capped
  as configured.  Either way no gate changes and an instance that stays keeps its flights.\<close>

theorem reconcile_spec:
  assumes "reconcile_caches env now prev new r = Some (res, r')"
    and "registry_ok env prev r" "distinct (map fst new)"
  shows "rg_gates r' = rg_gates r
    \<and> (case res of
         Inl e \<Rightarrow> flights_of r' = flights_of r \<and> all_ok env r'
       | Inr _ \<Rightarrow> registry_ok env new r'
           \<and> (\<lambda>name. map_option cr_config (registry_instance name r')) = map_of new
           \<and> (\<forall>name \<in> fst ` set new. flights_of r' name = Some (or_default (flights_of r name) [])))"
proof (cases "\<exists>pending r1. preflight env r new = Some (Inr pending) \<and> hot_loop env now prev pending new r = (Inr (), r1)")
  case False
  then show ?thesis
    using assms reconcile_prepared [of env r new _ now prev]
    by (fastforce simp: reconcile_caches_def registry_ok_def all_ok_def split: option.splits sum.splits prod.splits)
next
  case True
  then obtain pending r1 where p: "preflight env r new = Some (Inr pending)" "hot_loop env now prev pending new r = (Inr (), r1)"
    by blast
  then have r': "r' = drop_removed new (fold (commit_open env) pending r1)" "res = Inr ()"
    using assms(1) by (auto simp: reconcile_caches_def)
  note inst = reconcile_installs [OF p assms(2,3)]
  have is_new: "\<exists>inst. registry_instance name r' = Some inst \<and> installed env new r name inst" if "map_of new name \<noteq> None" for name
    using inst(1) [OF that] that by (simp add: r'(1) registry_instance_drop)
  have gone: "registry_instance name r' = None" if "map_of new name = None" for name
    using that by (simp add: r'(1) registry_instance_drop)
  have "rg_gates r' = rg_gates r"
    using inst(2) by (simp add: r'(1) registry_instance_drop)
  moreover have "registry_ok env new r'"
    unfolding registry_ok_def using is_new gone
    by (metis installed_def option.distinct(1) option.map(2) option.sel)
  moreover have "map_option cr_config (registry_instance name r') = map_of new name" for name
    using is_new [of name] gone [of name] by (cases "map_of new name") (auto simp: installed_def)
  moreover have "flights_of r' name = Some (or_default (flights_of r name) [])" if "name \<in> fst ` set new" for name
    using is_new [of name] that by (cases "map_of new name") (auto simp: installed_def flights_of_def map_of_eq_None_iff)
  ultimately show ?thesis
    by (auto simp: r'(2))
qed

definition sized_lmdb :: "u64 lmdb_ops"
  where "sized_lmdb = \<lparr>lo_open = (\<lambda>_. Ok 1), lo_open_for_shard_reopen = (\<lambda>_. Ok (1, [], [])),
    lo_finalize_shard_reopen = (\<lambda>_ _ l. (Ok (), l)), lo_get = (\<lambda>_ _ l. (None, l)), lo_insert = (\<lambda>_ _ _ l. (False, l)),
    lo_remove = (\<lambda>_ l. (False, l)), lo_entry_count = (\<lambda>_. 0), lo_max_entries = (\<lambda>_. 0), lo_set_max_entries = (\<lambda>_ l. l),
    lo_apply_policy = (\<lambda>_ _ l. l), lo_apply_sync_config = (\<lambda>_ _ l. (Ok (), l)), lo_map_size_bytes = (\<lambda>l. l),
    lo_grow_map_size = (\<lambda>_ l. (Err ''disk full'', l)), lo_shrink_map_size = (\<lambda>n l. (Ok (), n)),
    lo_shard_count = (\<lambda>_. 1), lo_layout_is_legacy = (\<lambda>_. False)\<rparr>"

definition sized_env :: "u64 cache_env"
  where "sized_env = \<lparr>ce_codec = answer_codec, ce_hash = (\<lambda>_. 0), ce_lmdb = sized_lmdb\<rparr>"

definition example_lmdb_instance :: "u64 \<Rightarrow> compiled_cache_instance"
  where "example_lmdb_instance bytes = example_instance\<lparr>cc_backend_type := BackendLmdb,
    cc_lmdb := Some \<lparr>cl_path = ''d'', cl_map_size_bytes = bytes, cl_when_full = FullRefuse, cl_sample_size = 1,
      cl_sync = SyncNone, cl_sync_interval = None, cl_shard_count = None, cl_lookup_thread_count = 1\<rparr>\<rparr>"

text \<open>Two caches, the cap of the first and the size of the second.\<close>

definition two_caches :: "u64 \<Rightarrow> u64 \<Rightarrow> (string \<times> compiled_cache_instance) list"
  where "two_caches cap bytes = [(''a'', example_instance\<lparr>cc_max_entries := cap\<rparr>), (''b'', example_lmdb_instance bytes)]"

definition two_registry :: "u64 \<Rightarrow> u64 \<Rightarrow> u64 registry"
  where "two_registry cap bytes = \<lparr>rg_instances =
      [(''a'', runtime_new (example_instance\<lparr>cc_max_entries := cap\<rparr>) (MemoryBackend (memory_from_config 1 cap))),
       (''b'', runtime_new (example_lmdb_instance bytes) (LmdbBackend bytes))],
    rg_gates = [], rg_async_coalesce = False, rg_wake_set = False, rg_rand = 1\<rparr>"

lemmas two_simps = two_caches_def two_registry_def example_lmdb_instance_def example_instance_def registry_instance_def
  runtime_new_def put_instance_def reconcile_caches_def preflight_open_def lmdb_path_def
  lmdb_explicit_shard_reopen_needed_def hot_apply_def hot_apply_store_def hot_apply_lmdb_def resize_map_def
  apply_max_entries_def backend_set_max_entries_def set_max_entries_def sized_env_def sized_lmdb_def drop_removed_def

lemma two_registry_ok: "registry_ok sized_env (two_caches cap bytes) (two_registry cap bytes)"
  using mc_inv_from_config [of "ce_hash sized_env" 1 cap]
  by (auto simp: registry_ok_def runtime_ok_def two_caches_def two_registry_def example_lmdb_instance_def
      example_instance_def registry_instance_def runtime_new_def split: if_splits)

lemma two_accepted:
  "\<exists>r'. reconcile_caches sized_env 0 (two_caches 1 9) (two_caches 5 2) (two_registry 1 9) = Some (Ok (), r')"
  by (simp add: two_simps memory_from_config_def Let_def)

theorem reconcile_spec_witness:
  "\<exists>r'. reconcile_caches sized_env 0 (two_caches 1 9) (two_caches 5 2) (two_registry 1 9) = Some (Ok (), r')
    \<and> registry_ok sized_env (two_caches 5 2) r'"
proof -
  obtain r' where r': "reconcile_caches sized_env 0 (two_caches 1 9) (two_caches 5 2) (two_registry 1 9) = Some (Ok (), r')"
    using two_accepted by blast
  then have "registry_ok sized_env (two_caches 5 2) r'"
    using reconcile_spec [OF r' two_registry_ok] by (simp add: two_caches_def)
  with r' show ?thesis by blast
qed

text \<open>A cap that a rejected configuration set stays in force after going back to the old one: the
  cap is compared with the previous configuration and not with the one in force.\<close>

lemma rejected_cap_stays:
  "case reconcile_caches sized_env 0 (two_caches 1 9) (two_caches 5 20) (two_registry 1 9) of
     Some (Inl _, r1) \<Rightarrow>
       (case reconcile_caches sized_env 0 (two_caches 1 9) (two_caches 1 9) r1 of
          Some (Inr _, r2) \<Rightarrow> map_option (\<lambda>inst. (cc_max_entries (cr_config inst), backend_max_entries sized_env (cr_backend inst)))
            (registry_instance ''a'' r2) = Some (1, 5)
        | _ \<Rightarrow> False)
   | _ \<Rightarrow> False"
  by (simp add: two_simps memory_from_config_def backend_max_entries_def Let_def)

end
