(* ===== verification/Lookup_Stage.thy ===== *)
theory Lookup_Stage
  imports Cache_Registry Forward
begin

text \<open>
  The Lookup stage (\<open>conduit-core/src/lookup/stage.rs\<close>): the providers of a profile in their order,
  caches and the forward provider, which runs Route, Forward and WaitResponse itself.

  The three inner stages are functions on a transaction and a world of their own.  The clock is a
  sequence of readings, each taken by the code being the next one.  A query that blocks on another
  one's flight is continued with what \<open>ls_others\<close>, the other threads, made of the registry and of the
  wait; no instance is removed while a query blocks on it.  \<open>None\<close> is an insertion that does not
  return.  Metrics are left out.

  What is shown: the stage leaves only by the top-level phases; a hit does not touch the upstream
  side; an answered leader closes its flight; a leader that fails on the way does not, and the key
  is stuck.
\<close>

section \<open>State and environment\<close>

record ('l, 'w) lookup_world =
  lw_cache :: "'l registry option"
  lw_clock :: "nat \<Rightarrow> instant"
  lw_ticks :: nat
  lw_woken :: "u64 list"
  lw_rest :: 'w

type_synonym 'w inner_stage = "transaction \<Rightarrow> 'w \<Rightarrow> stage_outcome \<times> transaction \<times> 'w"

record ('l, 'w) lookup_env =
  ls_route :: "'w inner_stage"
  ls_forward :: "'w inner_stage"
  ls_wait :: "'w inner_stage"
  ls_cache_env :: "'l cache_env"
  ls_net :: net_env
  ls_others :: "cache_key \<Rightarrow> nat \<Rightarrow> 'l registry \<Rightarrow> bytes option \<times> 'l registry"
  ls_lookup :: compiled_lookup
  ls_max_attempts :: "u32 option"
  ls_needs_wire_meta :: bool

type_synonym ('l, 'w) lookup_result = "stage_outcome \<times> transaction \<times> ('l, 'w) lookup_world"

definition read_clock :: "('l, 'w) lookup_world \<Rightarrow> instant \<times> ('l, 'w) lookup_world"
  where "read_clock w = (lw_clock w (lw_ticks w), w\<lparr>lw_ticks := lw_ticks w + 1\<rparr>)"

definition run_inner :: "'w inner_stage \<Rightarrow> transaction \<Rightarrow> ('l, 'w) lookup_world \<Rightarrow> ('l, 'w) lookup_result"
  where "run_inner f t w = (case f t (lw_rest w) of (out, t', x) \<Rightarrow> (out, t', w\<lparr>lw_rest := x\<rparr>))"

definition trace_nested ::
  "string \<Rightarrow> string option \<Rightarrow> string option \<Rightarrow> string option \<Rightarrow> transaction \<Rightarrow> ('l, 'w) lookup_world
    \<Rightarrow> transaction \<times> ('l, 'w) lookup_world"
  where "trace_nested message pool backend cache t w =
    (if trace_log t \<noteq> None
     then let (now, w') = read_clock w in
       (trace_record_phase now ''lookup'' (Some message) pool backend cache t, w')
     else (t, w))"

section \<open>The forward provider\<close>

text \<open>The fill after an answer, with the key the leader left in the transaction.\<close>

definition fill_cache ::
  "('l, 'w) lookup_env \<Rightarrow> transaction \<Rightarrow> ('l, 'w) lookup_world \<Rightarrow> ('l, 'w) lookup_world option"
  where "fill_cache env t w =
    (case (lw_cache w, lookup_cache_fill t) of
       (Some r, Some fill) \<Rightarrow>
         (case instance_gate (ref_cache_name fill) (ref_key fill) r of
            (None, r1) \<Rightarrow> Some (w\<lparr>lw_cache := Some r1\<rparr>)
          | (Some i, r1) \<Rightarrow>
            (case response_wire t of
               Some wire \<Rightarrow>
                 (let (now, w1) = read_clock w in
                  map_option (\<lambda>(woken, r2). w1\<lparr>lw_cache := Some r2, lw_woken := lw_woken w1 @ woken\<rparr>)
                    (fill_from_forward (ls_cache_env env) (ref_cache_name fill) (ref_key fill) i wire t now r1))
             | None \<Rightarrow>
                 (let (woken, r2) = complete_inflight_miss (ref_cache_name fill) (ref_key fill) i r1 in
                  Some (w\<lparr>lw_cache := Some r2, lw_woken := lw_woken w @ woken\<rparr>))))
     | _ \<Rightarrow> Some w)"

definition finish_forward_answer ::
  "('l, 'w) lookup_env \<Rightarrow> transaction \<Rightarrow> ('l, 'w) lookup_world \<Rightarrow> ('l, 'w) lookup_result option"
  where "finish_forward_answer env t w =
    (case run_inner (ls_wait env) t w of
       (Drop, t1, w1) \<Rightarrow> Some (Drop, t1, w1)
     | (out, t1, w1) \<Rightarrow>
        map_option (\<lambda>w2.
          let t2 = t1\<lparr>lookup_cache_fill := None, lookup_outcome_of := Some Answered,
                answer_source_of := Some FromForward, cache_instance := None\<rparr>;
              (t3, w3) = trace_nested ''provider forward answered'' None None None t2 w2 in
          (Continue (if out = Continue ResponseRules then ResponseRules else Send), t3, w3))
        (fill_cache env t1 w1))"

definition after_route ::
  "('l, 'w) lookup_env \<Rightarrow> transaction \<Rightarrow> ('l, 'w) lookup_world \<Rightarrow> ('l, 'w) lookup_result option"
  where "after_route env t w =
    (case run_inner (ls_forward env) t w of
       (Suspend WaitResponse, t1, w1) \<Rightarrow>
         (let (t2, w2) = trace_nested ''provider forward pending'' None None None
                (t1\<lparr>lookup_forward_step_of := Some StepWait\<rparr>) w1 in
          Some (Suspend Lookup, t2, w2))
     | (Continue WaitResponse, t1, w1) \<Rightarrow> finish_forward_answer env t1 w1
     | (Continue ResponseRules, t1, w1) \<Rightarrow> finish_forward_answer env t1 w1
     | (Drop, t1, w1) \<Rightarrow> Some (Drop, t1, w1)
     | (_, t1, w1) \<Rightarrow> Some (Continue Send, t1, w1))"

definition run_forward_chain ::
  "('l, 'w) lookup_env \<Rightarrow> transaction \<Rightarrow> ('l, 'w) lookup_world \<Rightarrow> ('l, 'w) lookup_result option"
  where "run_forward_chain env t w =
    (let t0 = t\<lparr>cache_lookup_eligible := False\<rparr> in
     if or_default (ls_max_attempts env) 3 \<le> attempt_count t0
     then Some (Continue Send, set_rcode_name ''SERVFAIL'' t0, w)
     else case run_inner (ls_route env) t0 w of
       (Continue Forward, t1, w1) \<Rightarrow>
         (let (t2, w2) = trace_nested ''route selected backend'' (selected_pool t1) (selected_backend_label t1) None t1 w1 in
          after_route env t2 w2)
     | (Drop, t1, w1) \<Rightarrow> Some (Drop, t1, w1)
     | (_, t1, w1) \<Rightarrow> Some (Continue Send, t1, w1))"

section \<open>The cache provider\<close>

definition apply_cache_hit ::
  "('l, 'w) lookup_env \<Rightarrow> bytes \<Rightarrow> string \<Rightarrow> bool \<Rightarrow> transaction \<Rightarrow> ('l, 'w) lookup_world \<Rightarrow> ('l, 'w) lookup_result"
  where "apply_cache_hit env wire cache_name skip_response_rules t w =
    (let t1 = (record_upstream_response (ls_net env) wire (ls_needs_wire_meta env) t)\<lparr>
           response_wire := Some wire, lookup_outcome_of := Some Answered, answer_source_of := Some FromCache,
           cache_instance := Some cache_name, last_forward_ms := 0\<rparr>;
         (t2, w2) = trace_nested ''provider cache answered'' None None (Some cache_name) t1 w in
     (Continue (if skip_response_rules then Send else ResponseRules), t2, w2))"

text \<open>One look-up, blocking included.\<close>

definition lookup_cache ::
  "('l, 'w) lookup_env \<Rightarrow> string \<Rightarrow> transaction \<Rightarrow> 'l registry \<Rightarrow> ('l, 'w) lookup_world
    \<Rightarrow> cache_lookup_outcome \<times> ('l, 'w) lookup_world"
  where "lookup_cache env cache_name t r w =
    (let (now, w1) = read_clock w in
     case cache_lookup (ls_cache_env env) cache_name t now r of
       (LookupBlocked key i, r1) \<Rightarrow>
         (let (waited, r2) = ls_others env key i r1;
              (now2, w2) = read_clock w1;
              (out, r3) = lookup_unblocked (ls_cache_env env) cache_name key waited t now2 r2 in
          (out, w2\<lparr>lw_cache := Some r3\<rparr>))
     | (out, r1) \<Rightarrow> (out, w1\<lparr>lw_cache := Some r1\<rparr>))"

definition try_cache_provider ::
  "('l, 'w) lookup_env \<Rightarrow> string \<Rightarrow> transaction \<Rightarrow> ('l, 'w) lookup_world
    \<Rightarrow> stage_outcome option \<times> transaction \<times> ('l, 'w) lookup_world"
  where "try_cache_provider env cache_name t w =
    (case lw_cache w of
       None \<Rightarrow> (None, t, w)
     | Some r \<Rightarrow>
       if \<not> lookup_cache_enabled (ls_lookup env) then (None, t, w)
       else case lookup_cache env cache_name t r w of
         (LookupHit wire name skip_response_rules, w1) \<Rightarrow>
           (case apply_cache_hit env wire name skip_response_rules t w1 of (out, t2, w2) \<Rightarrow> (Some out, t2, w2))
       | (LookupMiss key _, w1) \<Rightarrow>
           (case trace_nested ''provider cache miss'' None None (Some cache_name) t w1 of (t2, w2) \<Rightarrow>
              (None, t2\<lparr>lookup_outcome_of := Some Miss,
                 lookup_cache_fill := Some \<lparr>ref_cache_name = cache_name, ref_key = key\<rparr>\<rparr>, w2))
       | (LookupWaitAsync key, w1) \<Rightarrow>
           (Some (Suspend Lookup),
            t\<lparr>lookup_cache_wait := Some \<lparr>ref_cache_name = cache_name, ref_key = key\<rparr>\<rparr>, w1)
       | (_, w1) \<Rightarrow>
           (case trace_nested ''provider cache bypass'' None None (Some cache_name) t w1 of (t2, w2) \<Rightarrow> (None, t2, w2)))"

definition resume_cache_wait ::
  "('l, 'w) lookup_env \<Rightarrow> lookup_cache_ref \<Rightarrow> transaction \<Rightarrow> ('l, 'w) lookup_world \<Rightarrow> ('l, 'w) lookup_result option"
  where "resume_cache_wait env wait t w =
    (case lw_cache w of
       None \<Rightarrow> run_forward_chain env t w
     | Some r \<Rightarrow>
       (let (now, w1) = read_clock w in
        case resume_after_wait (ls_cache_env env) (ref_cache_name wait) (ref_key wait) t now r of
          (LookupHit wire name skip_response_rules, r1) \<Rightarrow>
            Some (apply_cache_hit env wire name skip_response_rules t (w1\<lparr>lw_cache := Some r1\<rparr>))
        | (_, r1) \<Rightarrow>
            run_forward_chain env (t\<lparr>lookup_outcome_of := Some Miss, lookup_cache_fill := Some wait\<rparr>)
              (w1\<lparr>lw_cache := Some r1\<rparr>)))"

section \<open>The stage\<close>

fun provider_loop ::
  "('l, 'w) lookup_env \<Rightarrow> lookup_provider list \<Rightarrow> transaction \<Rightarrow> ('l, 'w) lookup_world \<Rightarrow> ('l, 'w) lookup_result option"
  where
    "provider_loop env [] t w = Some (Continue ResponseRules, t\<lparr>lookup_outcome_of := Some Miss\<rparr>, w)"
  | "provider_loop env (ProviderCache cache_name # ps) t w =
      (if \<not> cache_lookup_eligible t
       then (case trace_nested ''provider cache bypass'' None None (Some cache_name) t w of (t1, w1) \<Rightarrow>
         provider_loop env ps t1 w1)
       else case try_cache_provider env cache_name t w of
         (Some out, t1, w1) \<Rightarrow> Some (out, t1, w1)
       | (None, t1, w1) \<Rightarrow> provider_loop env ps t1 w1)"
  | "provider_loop env (ProviderForward # ps) t w = run_forward_chain env t w"

definition lookup_handle ::
  "('l, 'w) lookup_env \<Rightarrow> transaction \<Rightarrow> ('l, 'w) lookup_world \<Rightarrow> ('l, 'w) lookup_result option"
  where "lookup_handle env t w =
    (case lookup_cache_wait t of
       Some wait \<Rightarrow> resume_cache_wait env wait (t\<lparr>lookup_cache_wait := None\<rparr>) w
     | None \<Rightarrow>
       if lookup_forward_step_of t = Some StepWait
       then finish_forward_answer env (t\<lparr>lookup_forward_step_of := None\<rparr>) w
       else case map_of (lk_profiles (ls_lookup env)) (or_default (lookup_profile t) DEFAULT_LOOKUP_PROFILE) of
         None \<Rightarrow> Some (Continue Send, set_rcode_name ''SERVFAIL'' t, w)
       | Some profile \<Rightarrow> provider_loop env (lpf_providers profile) (t\<lparr>lookup_profile := Some (lpf_name profile)\<rparr>) w)"

section \<open>How the stage ends\<close>

definition top_level :: "stage_outcome \<Rightarrow> bool"
  where "top_level out \<longleftrightarrow> out \<in> {Continue Send, Continue ResponseRules, Drop, Suspend Lookup}"

lemma finish_top_level: "finish_forward_answer env t w = Some (out, t', w') \<Longrightarrow> top_level out"
  by (auto simp: finish_forward_answer_def top_level_def split: prod.splits stage_outcome.splits if_splits)

lemma forward_top_level: "run_forward_chain env t w = Some (out, t', w') \<Longrightarrow> top_level out"
  by (auto simp: run_forward_chain_def after_route_def Let_def top_level_def
      dest!: finish_top_level split: prod.splits stage_outcome.splits phase.splits if_splits)

lemma try_cache_top_level: "try_cache_provider env c t w = (Some out, t', w') \<Longrightarrow> top_level out"
  by (auto simp: try_cache_provider_def apply_cache_hit_def top_level_def Let_def
      split: prod.splits option.splits cache_lookup_outcome.splits if_splits)

lemma loop_top_level: "provider_loop env ps t w = Some (out, t', w') \<Longrightarrow> top_level out"
  by (induction env ps t w rule: provider_loop.induct)
    (auto dest: forward_top_level try_cache_top_level simp: top_level_def [of "Continue ResponseRules"]
      split: if_splits prod.splits option.splits)

text \<open>Whatever its inner stages return, the Lookup stage leaves by a phase of the top-level graph:
  on to the response rules or to Send, dropped, or suspended with itself as the phase to resume at.
  The phases inside the forward provider never reach the orchestrator.\<close>

theorem lookup_leaves_top_level:
  assumes "lookup_handle env t w = Some (out, t', w')"
  shows "out \<in> {Continue Send, Continue ResponseRules, Drop, Suspend Lookup}"
proof -
  have "top_level out"
  proof (cases "lookup_cache_wait t")
    case None
    then show ?thesis
      using assms finish_top_level loop_top_level
      by (fastforce simp: lookup_handle_def top_level_def split: if_splits option.splits)
  next
    case (Some wait)
    then show ?thesis
      using assms forward_top_level
      by (fastforce simp: lookup_handle_def resume_cache_wait_def apply_cache_hit_def top_level_def Let_def
          split: if_splits option.splits prod.splits cache_lookup_outcome.splits)
  qed
  then show ?thesis by (simp add: top_level_def)
qed

section \<open>A hit\<close>

lemma trace_nested_keeps:
  assumes "trace_nested message pool backend cache t w = (t', w')"
  shows "lw_rest w' = lw_rest w" "lw_cache w' = lw_cache w" "response_wire t' = response_wire t"
    "answer_source_of t' = answer_source_of t" "attempt_count t' = attempt_count t" "started_at t' = started_at t"
    "lookup_cache_fill t' = lookup_cache_fill t" "lookup_cache_wait t' = lookup_cache_wait t"
    "cache_lookup_eligible t' = cache_lookup_eligible t" "lw_woken w' = lw_woken w"
  using assms by (auto simp: trace_nested_def trace_record_phase_def read_clock_def Let_def split: if_splits option.splits)

lemma record_upstream_response_keeps [simp]:
  "attempt_count (record_upstream_response env wire meta t) = attempt_count t"
  "started_at (record_upstream_response env wire meta t) = started_at t"
  "lookup_cache_fill (record_upstream_response env wire meta t) = lookup_cache_fill t"
  by (simp_all add: record_upstream_response_def set_rcode_def Let_def split: option.splits)

lemma apply_cache_hit_spec:
  "\<exists>t' w'. apply_cache_hit env wire name skip t w = (Continue (if skip then Send else ResponseRules), t', w')
    \<and> response_wire t' = Some wire \<and> answer_source_of t' = Some FromCache
    \<and> attempt_count t' = attempt_count t \<and> started_at t' = started_at t \<and> lw_rest w' = lw_rest w \<and> lw_cache w' = lw_cache w"
proof -
  let ?t1 = "(record_upstream_response (ls_net env) wire (ls_needs_wire_meta env) t)\<lparr>
    response_wire := Some wire, lookup_outcome_of := Some Answered, answer_source_of := Some FromCache,
    cache_instance := Some name, last_forward_ms := 0\<rparr>"
  obtain t' w' where tr: "trace_nested ''provider cache answered'' None None (Some name) ?t1 w = (t', w')" by fastforce
  then show ?thesis
    using trace_nested_keeps [OF tr] by (simp add: apply_cache_hit_def)
qed


section \<open>Flights\<close>

text \<open>The leader closes the flight when it has an answer, and when upstream had none.\<close>

lemma instance_gate_flight:
  assumes "registry_instance name r = Some inst" "map_of (cr_inflight inst) key = Some i"
  shows "instance_gate name key r = (Some i, put_flights name inst (flights r inst) r)"
  using assms by (simp add: instance_gate_def gate_for_def flights_def)

lemma fill_completes_core:
  assumes "fill_from_forward env name key i wire t now r = Some (woken, r')"
    and "registry_instance name r = Some inst" "i < length (rg_gates r)"
  shows "\<not> gt_leader_active (rg_gates r' ! i) \<and> flights_of r' name = Some (AList.delete key (cr_inflight inst))"
proof (cases "if cr_rebuilding inst then None else fill_entry env (cr_config inst) key wire t now")
  case None
  then show ?thesis
    using assms by (auto simp: fill_from_forward_def table_complete_def gate_complete_def flights_def flight_remove_def
        flights_of_def Let_def split: if_splits)
next
  case (Some w)
  moreover obtain k e truncated where "w = (k, e, truncated)" by (cases w)
  ultimately show ?thesis
    using assms by (auto simp: fill_from_forward_def table_complete_def gate_complete_def flights_def flight_remove_def
        flights_of_def Let_def split: if_splits option.splits)
qed

lemma complete_miss_core:
  assumes "complete_inflight_miss name key i r = (woken, r')"
    and "registry_instance name r = Some inst" "i < length (rg_gates r)"
  shows "\<not> gt_leader_active (rg_gates r' ! i) \<and> flights_of r' name = Some (AList.delete key (cr_inflight inst))"
  using assms by (auto simp: complete_inflight_miss_def gate_complete_def flights_def flight_remove_def flights_of_def Let_def)

text \<open>C15: A leader that comes back from upstream closes its flight, with an answer or without one:
  afterwards its gate is free and the key has no flight, so the next query that misses leads again.\<close>

theorem returned_leader_closes_flight:
  assumes "finish_forward_answer env t w = Some (Continue ph, t', w')"
    and "run_inner (ls_wait env) t w = (out, t1, w1)" "lookup_cache_fill t1 = Some \<lparr>ref_cache_name = name, ref_key = key\<rparr>"
    and "lw_cache w1 = Some r" "registry_instance name r = Some inst"
    and "map_of (cr_inflight inst) key = Some i" "i < length (rg_gates r)"
  shows "\<exists>r'. lw_cache w' = Some r' \<and> \<not> gt_leader_active (rg_gates r' ! i)
    \<and> flights_of r' name = Some (AList.delete key (cr_inflight inst)) \<and> lookup_cache_fill t' = None"
proof -
  let ?r1 = "put_flights name inst (flights r inst) r"
  have r1: "registry_instance name ?r1 = Some inst" "rg_gates ?r1 = rg_gates r"
    by (simp_all add: flights_def)
  from assms obtain w2 where w2: "fill_cache env t1 w1 = Some w2" "lw_cache w' = lw_cache w2" "lookup_cache_fill t' = None"
    by (auto simp: finish_forward_answer_def Let_def trace_nested_keeps(2,7) split: stage_outcome.splits prod.splits)
  have "\<exists>r'. lw_cache w2 = Some r' \<and> \<not> gt_leader_active (rg_gates r' ! i)
      \<and> flights_of r' name = Some (AList.delete key (cr_inflight inst))"
  proof (cases "response_wire t1")
    case None
    then show ?thesis
      using w2(1) assms(3-7) complete_miss_core [of name key i ?r1 _ _ inst] r1
      by (auto simp: fill_cache_def instance_gate_flight split: prod.splits)
  next
    case (Some wire)
    then show ?thesis
      using w2(1) assms(3-7) fill_completes_core [of "ls_cache_env env" name key i wire t1 _ ?r1 _ _ inst] r1
      by (auto simp: fill_cache_def instance_gate_flight read_clock_def split: prod.splits)
  qed
  then show ?thesis using w2 by simp
qed

section \<open>A leader that does not come back\<close>

lemma read_entry_keeps:
  assumes "read_entry env key t now inst = (found, inst')"
  shows "cr_inflight inst' = cr_inflight inst \<and> cr_rebuilding inst' = cr_rebuilding inst"
  using assms
  by (auto simp: read_entry_def try_ancestor_nxdomain_hit_def Let_def map_prod_def split: prod.splits option.splits if_splits)

lemma hit_from_entry_not_miss: "fst (hit_from_entry env cfg e t now s) \<noteq> LookupMiss key i"
  by (simp add: hit_from_entry_def hit_from_wire_def split: prod.splits option.splits)

lemma cache_lookup_Miss:
  assumes miss: "cache_lookup env name t now r = (LookupMiss key i, r1)"
    and ok: "\<forall>inst. registry_instance name r = Some inst \<longrightarrow> flights_ok (flights r inst)"
  shows "\<exists>inst1. registry_instance name r1 = Some inst1 \<and> \<not> cr_rebuilding inst1 \<and> map_of (cr_inflight inst1) key = Some i
    \<and> gt_leader_active (rg_gates r1 ! i) \<and> rg_async_coalesce r1 = rg_async_coalesce r"
proof -
  from miss obtain inst where inst: "registry_instance name r = Some inst" "\<not> cr_rebuilding inst"
    and el: "cache_lookup_eligible t"
    by (auto simp: cache_lookup_def split: option.splits if_splits)
  with miss obtain key' where k: "build_query_key (ce_codec env) t = Some key'"
    by (auto simp: cache_lookup_def split: option.splits)
  obtain found inst0 where rd: "read_entry env key' t now inst = (found, inst0)" by fastforce
  have found: "found = None"
  proof (cases found)
    case (Some e)
    then show ?thesis
      using miss inst el k rd hit_from_entry_not_miss [of env "cr_config inst0" e t now "rg_rand r" key i]
      by (auto simp: cache_lookup_def Let_def split: prod.splits)
  qed
  note keeps = read_entry_keeps [OF rd]
  obtain j ft where g: "gate_for key' (flights r inst0) = (j, ft)" by fastforce
  have "flights r inst0 = flights r inst" using keeps by (simp add: flights_def)
  then have ft: "map_of (ft_flights ft) key' = Some j" "j < length (ft_gates ft)"
    using gate_for_spec [of "flights r inst" key'] ok inst(1) g by auto
  have act: "\<not> gt_leader_active (ft_gates ft ! j)" "key' = key" "j = i"
    "r1 = put_flights name inst0 (snd (table_register i (txn_id t) (rg_async_coalesce r) ft)) r"
    using miss inst el k rd found g
    by (auto simp: cache_lookup_def table_register_def gate_register_def Let_def split: if_splits)
  then show ?thesis
    using ft keeps inst(2)
    by (auto simp: table_register_def gate_register_def put_flights_def put_instance_def registry_instance_def update_conv')
qed

text \<open>While a leader is under way every query for its key that is not in the cache is parked.\<close>

lemma miss_then_wait:
  assumes miss: "cache_lookup env name t now r = (LookupMiss key i, r1)" and async: "rg_async_coalesce r"
    and ok: "\<forall>inst. registry_instance name r = Some inst \<longrightarrow> flights_ok (flights r inst)"
    and t2: "build_query_key (ce_codec env) t2 = Some key" "cache_lookup_eligible t2"
    and uncached: "\<forall>inst. registry_instance name r1 = Some inst \<longrightarrow> fst (read_entry env key t2 now2 inst) = None"
  shows "fst (cache_lookup env name t2 now2 r1) = LookupWaitAsync key"
proof -
  obtain inst1 where inst1: "registry_instance name r1 = Some inst1" "\<not> cr_rebuilding inst1"
    "map_of (cr_inflight inst1) key = Some i" "gt_leader_active (rg_gates r1 ! i)" "rg_async_coalesce r1"
    using cache_lookup_Miss [OF miss ok] async by auto
  obtain inst2 where rd: "read_entry env key t2 now2 inst1 = (None, inst2)"
    using uncached inst1(1) by (metis prod.collapse)
  then show ?thesis
    using inst1 t2 read_entry_keeps [OF rd]
    by (simp add: cache_lookup_def gate_for_def flights_def table_register_def gate_register_def Let_def)
qed

text \<open>A leader for which Route finds no backend answers SERVFAIL and leaves its flight open: with
  parked queries, every later query for the key that the cache does not answer is parked, and
  nothing is left to wake it.\<close>

lemma failed_leader_wedges_key:
  assumes start: "lookup_cache_wait t = None" "lookup_forward_step_of t = None" "cache_lookup_eligible t"
    "attempt_count t < or_default (ls_max_attempts env) 3"
    and profile: "map_of (lk_profiles (ls_lookup env)) (or_default (lookup_profile t) DEFAULT_LOOKUP_PROFILE) = Some profile"
      "lpf_providers profile = [ProviderCache name, ProviderForward]" "lookup_cache_enabled (ls_lookup env)"
    and cache: "lw_cache w = Some r" "rg_async_coalesce r"
      "\<forall>inst. registry_instance name r = Some inst \<longrightarrow> flights_ok (flights r inst)"
      "cache_lookup (ls_cache_env env) name (t\<lparr>lookup_profile := Some (lpf_name profile)\<rparr>)
        (lw_clock w (lw_ticks w)) r = (LookupMiss key i, r1)"
    and route: "\<And>u x. fst (ls_route env u x) = Continue Send"
  shows "\<exists>t' w'. lookup_handle env t w = Some (Continue Send, t', w') \<and> lw_cache w' = Some r1 \<and> lw_woken w' = lw_woken w
    \<and> (\<forall>t2 now2. build_query_key (ce_codec (ls_cache_env env)) t2 = Some key \<and> cache_lookup_eligible t2
        \<and> (\<forall>inst. registry_instance name r1 = Some inst \<longrightarrow> fst (read_entry (ls_cache_env env) key t2 now2 inst) = None)
        \<longrightarrow> fst (cache_lookup (ls_cache_env env) name t2 now2 r1) = LookupWaitAsync key)"
proof -
  let ?t = "t\<lparr>lookup_profile := Some (lpf_name profile)\<rparr>"
  let ?w1 = "w\<lparr>lw_ticks := lw_ticks w + 1, lw_cache := Some r1\<rparr>"
  obtain t2 w2 where tr: "trace_nested ''provider cache miss'' None None (Some name) ?t ?w1 = (t2, w2)" by fastforce
  let ?t3 = "t2\<lparr>lookup_outcome_of := Some Miss, lookup_cache_fill := Some \<lparr>ref_cache_name = name, ref_key = key\<rparr>\<rparr>"
  obtain t4 x where rt: "ls_route env (?t3\<lparr>cache_lookup_eligible := False\<rparr>) (lw_rest w2) = (Continue Send, t4, x)"
    using route by (metis prod.collapse)
  have "try_cache_provider env name ?t w = (None, ?t3, w2)"
    using profile(3) cache(1,4) tr by (simp add: try_cache_provider_def lookup_cache_def read_clock_def)
  moreover have "run_forward_chain env ?t3 w2 = Some (Continue Send, t4, w2\<lparr>lw_rest := x\<rparr>)"
    using rt start(4) trace_nested_keeps(5) [OF tr] by (simp add: run_forward_chain_def run_inner_def Let_def)
  ultimately have "lookup_handle env t w = Some (Continue Send, t4, w2\<lparr>lw_rest := x\<rparr>)"
    using start profile by (simp add: lookup_handle_def)
  moreover have "lw_cache w2 = Some r1" "lw_woken w2 = lw_woken w"
    using trace_nested_keeps(2,10) [OF tr] by simp_all
  ultimately show ?thesis
    using miss_then_wait [OF cache(4,2,3)] by auto
qed

section \<open>Witnesses\<close>

definition stored_registry :: "unit registry"
  where "stored_registry = example_registry\<lparr>rg_instances :=
    [(''main'', runtime_new example_instance (MemoryBackend \<lparr>mc_max_entries = 0, mc_live_entries = 1,
       mc_shards = [[(the (build_query_key answer_codec example_query),
         \<lparr>ce_kind = Positive, ce_wire = [9], ce_filled_at = 0, ce_expires_at = from_secs 200\<rparr>)]]\<rparr>))]\<rparr>"

definition example_lookup_env :: "(unit, unit) lookup_env"
  where "example_lookup_env = \<lparr>ls_route = (\<lambda>t x. (Continue Send, t, x)), ls_forward = (\<lambda>t x. (Continue Send, t, x)),
    ls_wait = (\<lambda>t x. (Continue ResponseRules, t, x)), ls_cache_env = example_env,
    ls_net = \<lparr>ne_send = (\<lambda>_ _ _. True), ne_recv = (\<lambda>_. None), ne_tcp = (\<lambda>_ _ _ _. None), ne_message = (\<lambda>_. None)\<rparr>,
    ls_others = (\<lambda>_ _ r. (None, r)), ls_lookup = example_lookup DEFAULT_LOOKUP_PROFILE, ls_max_attempts = None,
    ls_needs_wire_meta = False\<rparr>"

definition example_world :: "(unit, unit) lookup_world"
  where "example_world = \<lparr>lw_cache = Some stored_registry, lw_clock = (\<lambda>_. 0), lw_ticks = 0, lw_woken = [], lw_rest = ()\<rparr>"

lemma example_key: "\<exists>key. build_query_key answer_codec (example_query\<lparr>lookup_profile := p\<rparr>) = Some key
    \<and> build_query_key answer_codec example_query = Some key"
  by (simp add: build_query_key_def build_key_from_parts_def dnssec_flags_def ecs_option_bytes_def
      normalize_qname_def answer_codec_def example_query_def example_answer_def transaction_new_def)

lemma example_hit:
  "fst (cache_lookup example_env ''main'' (example_query\<lparr>lookup_profile := p\<rparr>) 0 stored_registry) = LookupHit [0] ''main'' False"
proof -
  let ?t = "example_query\<lparr>lookup_profile := p\<rparr>"
  let ?e = "\<lparr>ce_kind = Positive, ce_wire = [9], ce_filled_at = 0, ce_expires_at = from_secs 200\<rparr>"
  obtain key where key: "build_query_key answer_codec ?t = Some key" "build_query_key answer_codec example_query = Some key"
    using example_key by blast
  let ?m = "\<lparr>mc_max_entries = 0, mc_live_entries = 1, mc_shards = [[(key, ?e)]]\<rparr>"
  let ?inst = "runtime_new example_instance (MemoryBackend ?m)"
  have "registry_instance ''main'' stored_registry = Some ?inst"
    using key by (simp add: registry_instance_def stored_registry_def)
  moreover have "mc_get (ce_hash example_env) key 0 ?m = Some ?e"
    by (simp add: mc_get_def mc_shard_def mc_shard_index_def is_fresh_def from_secs_def)
  moreover have "prepare_served_wire answer_codec 1 [9] 0 False 0 0 (Some [8]) = (Some [0], 1)"
    by (simp add: prepare_served_wire_def served_message_def apply_client_query_def answer_codec_def
        example_answer_def decay_rr_ttls_def cache_age_secs_def as_secs_u32_def Let_def)
  ultimately show ?thesis
    using key lookup_reads_key [of "''main''" stored_registry ?inst ?t example_env key ?m 0 ?e]
    by (simp add: example_env_def runtime_new_def hit_from_entry_def hit_from_wire_def example_instance_def
        example_query_def transaction_new_def stored_registry_def example_registry_def)
qed


theorem lookup_leaves_top_level_witness:
  "\<exists>out t' w'. lookup_handle example_lookup_env (example_query\<lparr>cache_lookup_eligible := False\<rparr>) example_world = Some (out, t', w')
    \<and> out \<in> {Continue Send, Continue ResponseRules, Drop, Suspend Lookup}"
proof -
  have "\<exists>out t' w'. lookup_handle example_lookup_env (example_query\<lparr>cache_lookup_eligible := False\<rparr>) example_world = Some (out, t', w')"
    by (simp add: lookup_handle_def example_lookup_env_def example_query_def transaction_new_def example_lookup_def
        or_default_def run_forward_chain_def run_inner_def trace_nested_def)
  then show ?thesis using lookup_leaves_top_level by blast
qed

text \<open>A leader under way, in the registry and in its transaction.\<close>

definition leading_registry :: "unit registry"
  where "leading_registry = stored_registry\<lparr>rg_instances :=
      [(''main'', (runtime_new example_instance (MemoryBackend (memory_from_config 1 1)))\<lparr>cr_inflight := [([1], 0)]\<rparr>)],
    rg_gates := [gate_fresh\<lparr>gt_leader_active := True\<rparr>]\<rparr>"

theorem returned_leader_closes_flight_witness:
  "\<exists>t' w' r'. finish_forward_answer example_lookup_env
      (example_query\<lparr>lookup_cache_fill := Some \<lparr>ref_cache_name = ''main'', ref_key = [1]\<rparr>\<rparr>)
      (example_world\<lparr>lw_cache := Some leading_registry\<rparr>) = Some (Continue ResponseRules, t', w')
    \<and> lw_cache w' = Some r' \<and> \<not> gt_leader_active (rg_gates r' ! 0) \<and> flights_of r' ''main'' = Some []"
proof -
  let ?t = "example_query\<lparr>lookup_cache_fill := Some \<lparr>ref_cache_name = ''main'', ref_key = [1]\<rparr>\<rparr>"
  let ?w = "example_world\<lparr>lw_cache := Some leading_registry\<rparr>"
  let ?inst = "(runtime_new example_instance (MemoryBackend (memory_from_config 1 1)))\<lparr>cr_inflight := [([1], 0)]\<rparr>"
  have inner: "run_inner (ls_wait example_lookup_env) ?t ?w = (Continue ResponseRules, ?t, ?w)"
    by (simp add: run_inner_def example_lookup_env_def)
  have inst: "registry_instance ''main'' leading_registry = Some ?inst"
    by (simp add: registry_instance_def leading_registry_def)
  have "response_wire ?t = None" by (simp add: example_query_def transaction_new_def)
  then have "\<exists>t' w'. finish_forward_answer example_lookup_env ?t ?w = Some (Continue ResponseRules, t', w')"
    using inst by (auto simp: finish_forward_answer_def inner fill_cache_def instance_gate_def Let_def split: prod.splits option.splits)
  then obtain t' w' where "finish_forward_answer example_lookup_env ?t ?w = Some (Continue ResponseRules, t', w')" by blast
  with returned_leader_closes_flight [OF this inner _ _ inst, of "[1]" 0] show ?thesis
    by (auto simp: runtime_new_def leading_registry_def)
qed

end
