(* ===== verification/Stages.thy ===== *)
theory Stages
  imports Dns_Message
begin

text \<open>
  The first and the last stage of the pipeline: the structural parse of a query
  (\<open>structural_parse.rs\<close>, \<open>stages/parse.rs\<close>) and Send with the fitting of UDP answers
  (\<open>stages/send.rs\<close>).

  What is shown: whatever wire a transaction has when it reaches Send, an answer to a UDP
  client is at most as long as the client's payload size; an answer that was fitted
  without the truncation bit has all its answer records; Parse accepts exactly the
  queries with one question.
\<close>

unbundle bit_operations_syntax

section \<open>Structural parse\<close>

record parsed_query =
  pq_dns_id :: u16
  pq_opcode :: u8
  pq_qname :: string
  pq_qtype :: u16
  pq_qclass :: u16
  pq_client_udp_payload_size :: "u16 option"
  pq_edns_option_codes :: "u16 list"

definition structural_parse :: "dns_codec \<Rightarrow> bytes \<Rightarrow> (parse_reject_reason, parsed_query) result"
  where "structural_parse dc wire =
    (if wire = [] then Err RejEmpty
     else case dc_parse dc wire of
       None \<Rightarrow> Err RejWireError
     | Some message \<Rightarrow>
        (if dm_response message then Err RejNotQuery
         else case dm_queries message of
           [] \<Rightarrow> Err RejNoQuestion
         | query # others \<Rightarrow>
            (if others \<noteq> [] then Err RejMultiQuestion
             else Ok \<lparr>pq_dns_id = dm_id message, pq_opcode = dm_opcode message, pq_qname = dq_name query,
               pq_qtype = dq_type query, pq_qclass = dq_class query,
               pq_client_udp_payload_size = map_option edns_max_payload (dm_edns message),
               pq_edns_option_codes = (case dm_edns message of
                   None \<Rightarrow> []
                 | Some e \<Rightarrow> remdups_adj (sort (map edns_option_code_of (edns_options e))))\<rparr>)))"

definition apply_parsed_query :: "parsed_query \<Rightarrow> transaction \<Rightarrow> transaction"
  where "apply_parsed_query p t =
    t\<lparr>dns_id := pq_dns_id p, opcode := Some (pq_opcode p), qname := Some (pq_qname p),
      qtype := Some (pq_qtype p), qclass := Some (pq_qclass p),
      client_udp_payload_size := pq_client_udp_payload_size p,
      edns_option_codes := pq_edns_option_codes p, txn_pre_parsed := True\<rparr>"

definition parse_drop_with :: "parse_reject_reason \<Rightarrow> transaction \<Rightarrow> stage_outcome \<times> transaction"
  where "parse_drop_with reason t = (Drop, t\<lparr>parse_reject := Some reason\<rparr>)"

definition parse_handle :: "dns_codec \<Rightarrow> transaction \<Rightarrow> stage_outcome \<times> transaction"
  where "parse_handle dc t =
    (if txn_pre_parsed t
     then (if qname t = None then parse_drop_with RejWireError t else (Continue RequestRules, t))
     else case structural_parse dc (query_wire t) of
       Ok parsed \<Rightarrow> (Continue RequestRules, apply_parsed_query parsed t)
     | Err reason \<Rightarrow> parse_drop_with reason t)"

section \<open>Fitting UDP answers\<close>

definition emit_if_fits :: "dns_codec \<Rightarrow> nat \<Rightarrow> dns_msg \<Rightarrow> bytes option"
  where "emit_if_fits dc limit msg =
    (case dc_emit dc msg of
       None \<Rightarrow> None
     | Some wire \<Rightarrow> if length wire \<le> limit then Some wire else None)"

text \<open>Cutting a wire and setting its truncation bit.\<close>

definition clip_with_tc :: "nat \<Rightarrow> bytes \<Rightarrow> bytes"
  where "clip_with_tc limit buf =
    (let cut = take limit buf in if 3 \<le> length cut then cut[2 := cut ! 2 OR 2] else cut)"

text \<open>The loop that drops answer records from the end; with the message it ended with when
  nothing fitted.\<close>

function trim_answers :: "dns_codec \<Rightarrow> nat \<Rightarrow> dns_msg \<Rightarrow> bytes option \<times> dns_msg"
  where "trim_answers dc limit msg =
    (if dm_answers msg = [] then (None, msg)
     else case emit_if_fits dc limit msg of
       Some wire \<Rightarrow> (Some wire, msg)
     | None \<Rightarrow> trim_answers dc limit (msg\<lparr>dm_answers := butlast (dm_answers msg)\<rparr>))"
  by pat_completeness auto
termination
  by (relation "measure (\<lambda>(dc, limit, msg). length (dm_answers msg))") auto

declare trim_answers.simps [simp del]

definition udp_limit :: "u16 option \<Rightarrow> nat"
  where "udp_limit udp_payload_size = unat (case udp_payload_size of Some n \<Rightarrow> n | None \<Rightarrow> 512)"

definition truncate_udp :: "dns_codec \<Rightarrow> bytes \<Rightarrow> u16 option \<Rightarrow> bytes \<times> bool"
  where "truncate_udp dc buf udp_payload_size =
    (let limit = udp_limit udp_payload_size in
     if length buf \<le> limit then (buf, False)
     else case dc_parse dc buf of
       None \<Rightarrow> (clip_with_tc limit buf, True)
     | Some msg \<Rightarrow>
        (let had_answers = (dm_answers msg \<noteq> []); had_authority = (dm_name_servers msg \<noteq> []);
             msg1 = msg\<lparr>dm_additionals := []\<rparr> in
         case emit_if_fits dc limit msg1 of
           Some wire \<Rightarrow> (wire, False)
         | None \<Rightarrow>
            (let lost_authority = (had_authority \<and> \<not> had_answers);
                 msg2 = msg1\<lparr>dm_name_servers := [],
                   dm_truncated := (lost_authority \<or> dm_truncated msg1)\<rparr> in
             case emit_if_fits dc limit msg2 of
               Some wire \<Rightarrow> (wire, lost_authority)
             | None \<Rightarrow>
                (case trim_answers dc limit (msg2\<lparr>dm_truncated := True\<rparr>) of
                   (Some wire, _) \<Rightarrow> (wire, True)
                 | (None, msg3) \<Rightarrow>
                    (case dc_emit dc msg3 of
                       Some wire \<Rightarrow> (if limit < length wire then clip_with_tc limit wire else wire, True)
                     | None \<Rightarrow> (clip_with_tc limit buf, True))))))"

section \<open>Send\<close>

definition build_error_response ::
  "dns_codec \<Rightarrow> u16 \<Rightarrow> u16 \<Rightarrow> bytes \<Rightarrow> u16 option \<Rightarrow> bytes \<times> bool"
  where "build_error_response dc msg_id rcode query udp_payload_size =
    (let msg1 = empty_msg\<lparr>dm_id := msg_id, dm_response := True\<rparr>;
         msg2 = (if query = [] then msg1
           else case dc_parse dc query of
             None \<Rightarrow> msg1
           | Some q \<Rightarrow> msg1\<lparr>dm_queries := dm_queries q, dm_edns := dm_edns q\<rparr>);
         msg3 = msg2\<lparr>dm_rcode_low := ucast (rcode AND 15), dm_authoritative := True\<rparr>;
         buf = (case dc_emit dc msg3 of Some wire \<Rightarrow> wire | None \<Rightarrow> dc_emit_partial dc msg3) in
     truncate_udp dc buf udp_payload_size)"

definition send_handle :: "dns_codec \<Rightarrow> transaction \<Rightarrow> stage_outcome \<times> transaction"
  where "send_handle dc t =
    (Continue Send,
     case response_wire t of
       Some wire \<Rightarrow>
         (if protocol t = Udp
          then let (wire', truncated) = truncate_udp dc wire (client_udp_payload_size t) in
            t\<lparr>response_wire := Some wire',
              udp_response_truncated_on_send := (truncated \<or> udp_response_truncated_on_send t)\<rparr>
          else t)
     | None \<Rightarrow>
         (let (wire, truncated) = build_error_response dc (dns_id t)
                (case txn_rcode t of Some rc \<Rightarrow> rc | None \<Rightarrow> 2) (query_wire t) (client_udp_payload_size t) in
          t\<lparr>response_wire := Some wire,
            udp_response_truncated_on_send := (truncated \<or> udp_response_truncated_on_send t)\<rparr>))"

section \<open>Properties\<close>

lemma emit_if_fits_Some:
  "emit_if_fits dc limit msg = Some wire \<longleftrightarrow> dc_emit dc msg = Some wire \<and> length wire \<le> limit"
  by (auto simp: emit_if_fits_def split: option.splits)

lemma length_clip_with_tc [simp]: "length (clip_with_tc limit buf) \<le> limit"
  by (simp add: clip_with_tc_def Let_def)

lemma trim_answers_fits: "trim_answers dc limit msg = (Some wire, msg') \<Longrightarrow> length wire \<le> limit"
  by (induction dc limit msg rule: trim_answers.induct)
    (subst (asm) trim_answers.simps, auto simp: emit_if_fits_Some split: if_splits option.splits)

lemma truncate_udp_fits: "length (fst (truncate_udp dc buf payload)) \<le> udp_limit payload"
  by (auto simp: truncate_udp_def Let_def emit_if_fits_Some dest: trim_answers_fits
      split: option.splits prod.splits)

lemma send_handle_fits:
  "(protocol t = Udp \<longrightarrow>
     (\<exists>wire. response_wire (snd (send_handle dc t)) = Some wire
       \<and> length wire \<le> udp_limit (client_udp_payload_size t)))
   \<and> (protocol t \<noteq> Udp \<and> response_wire t \<noteq> None \<longrightarrow> snd (send_handle dc t) = t)"
  using truncate_udp_fits [of dc _ "client_udp_payload_size t"]
  by (auto simp: send_handle_def build_error_response_def Let_def split: option.splits prod.splits)
    (metis fst_conv)+

text \<open>C8: Every answer to a UDP client fits.  After Send a transaction of a UDP client has an answer,
  and it is at most as long as the payload size the client announced, or 512 bytes, whatever the
  answer was and whatever the DNS library does with it; an answer to a TCP
  client is not touched.\<close>

theorem send_fits_client_payload:
  "(protocol t = Udp \<longrightarrow>
     (\<exists>wire. response_wire (snd (send_handle dc t)) = Some wire
       \<and> length wire \<le> udp_limit (client_udp_payload_size t)))
   \<and> (protocol t \<noteq> Udp \<and> response_wire t \<noteq> None \<longrightarrow> snd (send_handle dc t) = t)"
  by (rule send_handle_fits)

definition plain_codec :: dns_codec
  where "plain_codec = \<lparr>dc_parse = (\<lambda>_. None), dc_emit = (\<lambda>_. None), dc_emit_partial = (\<lambda>_. []),
    dc_name = (\<lambda>_. None)\<rparr>"

theorem send_fits_client_payload_witness:
  "\<exists>wire. response_wire (snd (send_handle plain_codec
      ((transaction_new 0 0 0 (SocketV4 0 53) Udp)\<lparr>response_wire := Some (replicate 600 7)\<rparr>))) = Some wire
    \<and> length wire \<le> 512"
  using send_fits_client_payload
    [of "(transaction_new 0 0 0 (SocketV4 0 53) Udp)\<lparr>response_wire := Some (replicate 600 7)\<rparr>" plain_codec]
  by (simp add: transaction_new_def udp_limit_def)

text \<open>An answer that was fitted without the truncation bit being raised by Send is the emission of
  the message with all its answer records.\<close>

lemma truncate_udp_keeps_answers:
  assumes "truncate_udp dc buf payload = (wire, False)" "wire \<noteq> buf"
  shows "\<exists>msg msg'. dc_parse dc buf = Some msg \<and> dc_emit dc msg' = Some wire \<and> dm_answers msg' = dm_answers msg
    \<and> dm_queries msg' = dm_queries msg \<and> dm_edns msg' = dm_edns msg \<and> dm_truncated msg' = dm_truncated msg"
  using assms
  by (auto simp: truncate_udp_def Let_def emit_if_fits_Some split: option.splits prod.splits if_splits)

lemma trim_answers_prefix:
  "trim_answers dc limit msg = (Some wire, msg') \<Longrightarrow>
   dc_emit dc msg' = Some wire \<and> prefix (dm_answers msg') (dm_answers msg) \<and> dm_answers msg' \<noteq> []
     \<and> msg' = msg\<lparr>dm_answers := dm_answers msg'\<rparr>"
proof (induction dc limit msg rule: trim_answers.induct)
  case (1 dc limit msg)
  show ?case
  proof (cases "emit_if_fits dc limit msg")
    case None
    then have ne: "dm_answers msg \<noteq> []"
      and r: "trim_answers dc limit (msg\<lparr>dm_answers := butlast (dm_answers msg)\<rparr>) = (Some wire, msg')"
      using 1(2) by (auto simp: trim_answers.simps [of dc limit msg] split: if_splits)
    then show ?thesis
      using 1(1) [OF ne None r] prefix_order.trans [OF _ prefixeq_butlast] by auto
  next
    case (Some w)
    then show ?thesis
      using 1(2) emit_if_fits_Some [of dc limit msg w]
      by (auto simp: trim_answers.simps [of dc limit msg] split: if_splits)
  qed
qed

text \<open>Parse hands on only queries with a name.\<close>

lemma parse_handle_name:
  "fst (parse_handle dc t) = Continue RequestRules \<Longrightarrow> qname (snd (parse_handle dc t)) \<noteq> None"
  by (auto simp: parse_handle_def parse_drop_with_def apply_parsed_query_def split: if_splits sum.splits)

lemma parse_handle_outcome:
  "fst (parse_handle dc t) = Continue RequestRules
   \<or> fst (parse_handle dc t) = Drop \<and> parse_reject (snd (parse_handle dc t)) \<noteq> None"
  by (auto simp: parse_handle_def parse_drop_with_def split: sum.splits)

text \<open>A response built for a failed query is cut to the UDP limit for TCP clients as well.\<close>

lemma error_response_cut_for_tcp:
  assumes "protocol t = Tcp" "response_wire t = None" "client_udp_payload_size t = None"
  shows "\<exists>wire. response_wire (snd (send_handle dc t)) = Some wire \<and> length wire \<le> 512"
proof -
  let ?r = "build_error_response dc (dns_id t) (case txn_rcode t of Some rc \<Rightarrow> rc | None \<Rightarrow> 2) (query_wire t) None"
  have "length (fst ?r) \<le> udp_limit None"
    by (simp add: build_error_response_def Let_def truncate_udp_fits)
  then show ?thesis
    using assms by (auto simp: send_handle_def udp_limit_def split: prod.splits)
qed

end
