(* ===== verification/Rules.thy ===== *)
theory Rules
  imports Selectors Data_Sources
begin

text \<open>
  Policy rules: compilation and evaluation (\<open>conduit-core/src/rules/mod.rs\<close>), the
  validation of the rules block (\<open>conduit-config/src/validate.rs\<close>) and the two rule stages
  (\<open>stages/request_rules.rs\<close>, \<open>stages/response_rules.rs\<close>).

  Compilation returns \<open>None\<close> where the code panics.  Scripts run by the Rhai engine are the
  parameter \<open>scripts\<close>; whether the client is in a CIDR data source is the parameter \<open>cidr\<close>.

  What is shown: rules that validate compile without a panic unless a cache-instance
  selector is blank; a rule of built-in actions decides as documented, hard actions by the
  first of them, soft ones by the last, drop before retry; a request rule never drops or
  retries unless it says so.
\<close>

section \<open>Configuration\<close>

record action_cfg =
  act_type :: string
  act_value :: string

record rule_cfg =
  rule_name :: string
  rule_hook :: string
  rule_selectors :: "selector_cfg list"
  rule_actions :: "action_cfg list"

record rules_cfg =
  rules_match_mode :: string
  rules_list :: "rule_cfg list"

section \<open>Compiled rules\<close>

datatype match_mode = FirstMatch

datatype rule_hook = HookRequest | HookResponse

datatype compiled_action =
    SetPool string
  | SetTag string string
  | SetRetryPool string
  | ActRetry
  | RetryNow
  | ActDrop
  | DropNow
  | ClearDrop
  | ClearRetry
  | ClearRetryPool
  | ClearPool
  | ClearTag string
  | SetRcode u16
  | SetSourceV4 u32
  | SetSourceV6 "128 word"
  | SetRetrySourceV4 u32
  | SetRetrySourceV6 "128 word"
  | ClearRetrySourceV4
  | ClearRetrySourceV6
  | Rhai nat

record compiled_rule =
  cr_name :: string
  cr_hook :: rule_hook
  cr_selectors :: "compiled_selector list"
  cr_actions :: "compiled_action list"

record compiled_rules =
  crs_match_mode :: match_mode
  crs_rules :: "compiled_rule list"

datatype rule_outcome = RuleContinue | RuleDrop | RuleRetry

section \<open>Scripts of the rules\<close>

text \<open>
  The bookkeeping of \<open>conduit-script/src/compile.rs\<close>.  Reading a file, scanning it and compiling it
  with the Rhai engine is the parameter \<open>load\<close>, given the resolved path.
\<close>

datatype script_error = ScriptFailed string string | ScriptRuleFailed string string

record script_ref =
  sr_rule_name :: string
  sr_hook :: rule_hook
  sr_path :: string
  sr_script_id :: nat

record 'ast compiled_script =
  cs_path :: string
  cs_rule_name :: string
  cs_hook :: rule_hook
  cs_ast :: 'ast

record 'ast compiled_scripting =
  cg_scripts :: "'ast compiled_script list"
  cg_script_index :: "((string \<times> string) \<times> nat) list"
  cg_rules_scripts :: "script_ref list"

definition script_ids_for_rule :: "'ast compiled_scripting \<Rightarrow> string \<Rightarrow> rule_hook \<Rightarrow> nat list"
  where "script_ids_for_rule scripting name hook =
    map sr_script_id (filter (\<lambda>r. sr_rule_name r = name \<and> sr_hook r = hook) (cg_rules_scripts scripting))"

definition hook_of :: "rule_cfg \<Rightarrow> rule_hook"
  where "hook_of rule = (if rule_hook rule = ''response'' then HookResponse else HookRequest)"

text \<open>The id of the script of an action: the one already compiled for this rule and path, or a new one.\<close>

definition script_id_for ::
  "(string \<Rightarrow> (script_error, 'ast) result) \<Rightarrow> rule_cfg \<Rightarrow> string \<Rightarrow> 'ast compiled_scripting
    \<Rightarrow> (script_error, nat \<times> 'ast compiled_scripting) result"
  where "script_id_for load rule path_key scripting =
    (case map_of (cg_script_index scripting) (rule_name rule, path_key) of
       Some i \<Rightarrow> Ok (i, scripting)
     | None \<Rightarrow> rbind (load path_key) (\<lambda>ast.
         let i = length (cg_scripts scripting) in
         Ok (i, scripting\<lparr>cg_scripts := cg_scripts scripting @
             [\<lparr>cs_path = path_key, cs_rule_name = rule_name rule, cs_hook = hook_of rule, cs_ast = ast\<rparr>],
           cg_script_index := ((rule_name rule, path_key), i) # cg_script_index scripting\<rparr>)))"

fun compile_action_scripts ::
  "(string \<Rightarrow> (script_error, 'ast) result) \<Rightarrow> string option \<Rightarrow> rule_cfg \<Rightarrow> action_cfg list \<Rightarrow> 'ast compiled_scripting
    \<Rightarrow> (script_error, 'ast compiled_scripting) result"
  where
    "compile_action_scripts load base_dir rule [] scripting = Ok scripting"
  | "compile_action_scripts load base_dir rule (act # acts) scripting =
      (if act_type act \<noteq> ''rhai'' then compile_action_scripts load base_dir rule acts scripting
       else if act_value act = []
       then Err (ScriptRuleFailed (rule_name rule) ''rhai action requires script path in value'')
       else rbind (script_id_for load rule (resolve_config_path base_dir (act_value act)) scripting)
         (\<lambda>(i, scripting'). compile_action_scripts load base_dir rule acts
           (scripting'\<lparr>cg_rules_scripts := cg_rules_scripts scripting' @
             [\<lparr>sr_rule_name = rule_name rule, sr_hook = hook_of rule, sr_path = act_value act, sr_script_id = i\<rparr>]\<rparr>)))"

definition compile_rule_scripts ::
  "(string \<Rightarrow> (script_error, 'ast) result) \<Rightarrow> string option \<Rightarrow> rule_cfg \<Rightarrow> 'ast compiled_scripting
    \<Rightarrow> (script_error, 'ast compiled_scripting) result"
  where "compile_rule_scripts load base_dir rule scripting =
    compile_action_scripts load base_dir rule (rule_actions rule) scripting"

fun compile_scripts_loop ::
  "(string \<Rightarrow> (script_error, 'ast) result) \<Rightarrow> string option \<Rightarrow> rule_cfg list \<Rightarrow> 'ast compiled_scripting
    \<Rightarrow> (script_error, 'ast compiled_scripting) result"
  where
    "compile_scripts_loop load base_dir [] scripting = Ok scripting"
  | "compile_scripts_loop load base_dir (rule # rules) scripting =
      rbind (compile_rule_scripts load base_dir rule scripting)
        (compile_scripts_loop load base_dir rules)"

definition empty_scripting :: "'ast compiled_scripting"
  where "empty_scripting = \<lparr>cg_scripts = [], cg_script_index = [], cg_rules_scripts = []\<rparr>"

section \<open>Compilation\<close>

definition split_tag :: "string \<Rightarrow> string \<times> string"
  where "split_tag value =
    (if CHR ''='' \<in> set value
     then (takeWhile (\<lambda>c. c \<noteq> CHR ''='') value, tl (dropWhile (\<lambda>c. c \<noteq> CHR ''='') value))
     else (value, ''true''))"

definition compile_action :: "action_cfg \<Rightarrow> compiled_action option"
  where "compile_action act =
    (let ty = act_type act; v = act_value act in
     if ty = ''set_pool'' then Some (SetPool v)
     else if ty = ''set_retry_pool'' then Some (SetRetryPool v)
     else if ty = ''retry'' then Some ActRetry
     else if ty = ''retry_now'' then Some RetryNow
     else if ty = ''drop'' then Some ActDrop
     else if ty = ''drop_now'' then Some DropNow
     else if ty = ''clear_drop'' then Some ClearDrop
     else if ty = ''clear_retry'' then Some ClearRetry
     else if ty = ''clear_retry_pool'' then Some ClearRetryPool
     else if ty = ''clear_pool'' then Some ClearPool
     else if ty = ''clear_tag'' then Some (ClearTag v)
     else if ty = ''set_rcode''
     then (case parse_name_or_err rcode_enum v of Ok n \<Rightarrow> Some (SetRcode n) | Err _ \<Rightarrow> None)
     else if ty = ''set_tag'' then Some (SetTag (fst (split_tag v)) (snd (split_tag v)))
     else if ty = ''set_source_v4'' then map_option SetSourceV4 (parse_ipv4_addr v)
     else if ty = ''set_source_v6'' then map_option SetSourceV6 (parse_ipv6_addr v)
     else if ty = ''set_retry_source_v4'' then map_option SetRetrySourceV4 (parse_ipv4_addr v)
     else if ty = ''set_retry_source_v6'' then map_option SetRetrySourceV6 (parse_ipv6_addr v)
     else if ty = ''clear_retry_source_v4'' then Some ClearRetrySourceV4
     else if ty = ''clear_retry_source_v6'' then Some ClearRetrySourceV6
     else None)"

text \<open>The actions of a rule, with the scripts compiled for it in order.\<close>

fun compile_actions :: "nat list \<Rightarrow> action_cfg list \<Rightarrow> compiled_action list option"
  where
    "compile_actions ids [] = Some []"
  | "compile_actions ids (act # acts) =
      (if act_type act = ''rhai''
       then case ids of
         [] \<Rightarrow> None
       | i # ids' \<Rightarrow> map_option ((#) (Rhai i)) (compile_actions ids' acts)
       else case compile_action act of
         None \<Rightarrow> None
       | Some a \<Rightarrow> map_option ((#) a) (compile_actions ids acts))"

definition compile_rule ::
  "(real \<Rightarrow> real) \<Rightarrow> (string \<Rightarrow> rule_hook \<Rightarrow> nat list) \<Rightarrow> rule_cfg \<Rightarrow> compiled_rule option"
  where "compile_rule fl script_ids rule =
    (let hook = hook_of rule in
     case compile_actions (script_ids (rule_name rule) hook) (rule_actions rule) of
       None \<Rightarrow> None
     | Some actions \<Rightarrow>
        (case compile_rule_selectors fl (rule_name rule) (rule_selectors rule) of
           Err _ \<Rightarrow> None
         | Ok selectors \<Rightarrow> Some \<lparr>cr_name = rule_name rule, cr_hook = hook, cr_selectors = selectors,
             cr_actions = actions\<rparr>))"

fun compile_rule_list ::
  "(real \<Rightarrow> real) \<Rightarrow> (string \<Rightarrow> rule_hook \<Rightarrow> nat list) \<Rightarrow> rule_cfg list \<Rightarrow> compiled_rule list option"
  where
    "compile_rule_list fl script_ids [] = Some []"
  | "compile_rule_list fl script_ids (r # rs) =
      (case compile_rule fl script_ids r of
         None \<Rightarrow> None
       | Some c \<Rightarrow> map_option ((#) c) (compile_rule_list fl script_ids rs))"

definition compile_rules ::
  "(real \<Rightarrow> real) \<Rightarrow> (string \<Rightarrow> rule_hook \<Rightarrow> nat list) \<Rightarrow> rules_cfg option \<Rightarrow> compiled_rules option"
  where "compile_rules fl script_ids cfg =
    (case cfg of
       None \<Rightarrow> Some \<lparr>crs_match_mode = FirstMatch, crs_rules = []\<rparr>
     | Some c \<Rightarrow> map_option (\<lambda>rs. \<lparr>crs_match_mode = FirstMatch, crs_rules = rs\<rparr>)
         (compile_rule_list fl script_ids (rules_list c)))"

section \<open>Validation\<close>

definition ok_list :: "('e, 'a list) result \<Rightarrow> 'a list"
  where "ok_list r = (case r of Ok v \<Rightarrow> v | Err _ \<Rightarrow> [])"

definition configured_source_v4_addrs :: "config \<Rightarrow> u32 list"
  where "configured_source_v4_addrs cfg =
    (case cfg_forward cfg of Some f \<Rightarrow> ok_list (parse_sources_v4 (fw_sources_v4 f)) | None \<Rightarrow> [])
     @ concat (map (\<lambda>p. ok_list (parse_sources_v4 (pool_sources_v4 p))) (cfg_pools cfg))"

definition configured_source_v6_addrs :: "config \<Rightarrow> 128 word list"
  where "configured_source_v6_addrs cfg =
    (case cfg_forward cfg of Some f \<Rightarrow> ok_list (parse_sources_v6 (fw_sources_v6 f)) | None \<Rightarrow> [])
     @ concat (map (\<lambda>p. ok_list (parse_sources_v6 (pool_sources_v6 p))) (cfg_pools cfg))"

definition rule_msg :: "rule_cfg \<Rightarrow> string \<Rightarrow> string"
  where "rule_msg rule m = ''rule '' @ squote (rule_name rule) @ m"

definition is_err :: "('e, 'a) result \<Rightarrow> bool"
  where "is_err r = (case r of Ok _ \<Rightarrow> False | Err _ \<Rightarrow> True)"

definition validate_rule_selector ::
  "(real \<Rightarrow> real) \<Rightarrow> string list \<Rightarrow> rule_cfg \<Rightarrow> selector_cfg \<Rightarrow> string list"
  where "validate_rule_selector fl cidr_names rule sel =
    map (\<lambda>e. rule_msg rule ('': '' @ e)) (err_list (validate_selector_type (sel_type sel)))
    @ map (\<lambda>e. rule_msg rule ('': '' @ e)) (err_list (validate_wire_selector_value (sel_type sel) (sel_value sel)))
    @ (if sel_type sel = ''sample_percent'' \<and> is_err (parse_sample_percent fl (sel_value sel))
       then [rule_msg rule '' selector sample_percent must be a float in [0, 100]''] else [])
    @ map (\<lambda>e. rule_msg rule ('': '' @ e)) (err_list (validate_selector_sample_key_fields sel True False))
    @ (if sel_type sel \<in> {''every_nth_worker'', ''every_nth_global''} \<and> is_err (parse_every_nth (sel_value sel))
       then [rule_msg rule ('' selector '' @ squote (sel_type sel) @ '' requires integer value >= 1'')] else [])
    @ (if sel_type sel = ''client_cidr'' \<and> sel_value sel \<notin> set cidr_names
       then [rule_msg rule ('' selector client_cidr '' @ squote (sel_value sel)
         @ '' is not a type:cidr data_sources name'')] else [])"

definition ACTION_TYPES :: "string list"
  where "ACTION_TYPES = [''set_pool'', ''set_tag'', ''retry'', ''retry_now'', ''set_retry_pool'', ''drop'',
    ''drop_now'', ''clear_drop'', ''clear_retry'', ''clear_retry_pool'', ''clear_pool'', ''clear_tag'',
    ''set_rcode'', ''rhai'', ''set_source_v4'', ''set_source_v6'', ''set_retry_source_v4'',
    ''set_retry_source_v6'', ''clear_retry_source_v4'', ''clear_retry_source_v6'']"

text \<open>The check of a source address against the configured ones.\<close>

definition source_errors :: "rule_cfg \<Rightarrow> action_cfg \<Rightarrow> string \<Rightarrow> string \<Rightarrow> 'a option \<Rightarrow> 'a list \<Rightarrow> string list"
  where "source_errors rule act field family parsed allowed =
    (case parsed of
       Some addr \<Rightarrow>
        (if allowed = []
         then [rule_msg rule ('' '' @ act_type act @ '' requires forward.'' @ field @ '' or pool '' @ field)]
         else if addr \<notin> set allowed
         then [rule_msg rule ('' '' @ act_type act @ '' '' @ squote (act_value act)
           @ '' is not in configured '' @ field)] else [])
     | None \<Rightarrow> [rule_msg rule ('' '' @ act_type act @ '' '' @ squote (act_value act)
         @ '' is not a valid '' @ family @ '' address'')])"

definition validate_rule_action ::
  "u32 list \<Rightarrow> 128 word list \<Rightarrow> rule_cfg \<Rightarrow> action_cfg \<Rightarrow> string list"
  where "validate_rule_action allowed_v4 allowed_v6 rule act =
    (let ty = act_type act; v = act_value act;
         needs_address = [rule_msg rule ('' action '' @ squote ty @ '' requires an address in value'')] in
     (if ty \<notin> set ACTION_TYPES then [rule_msg rule ('' has unknown action type '' @ squote ty)] else [])
     @ (if ty = ''rhai'' \<and> v = [] then [rule_msg rule '' rhai action requires script path in value''] else [])
     @ (if ty = ''set_rcode'' \<and> is_err (validate_wire_selector_value ''rcode'' v)
        then [rule_msg rule ('' set_rcode value '' @ squote v @ '' is not a known Rcode name or RCODEN alias'')] else [])
     @ (if ty \<in> {''retry'', ''retry_now'', ''clear_retry'', ''set_rcode''} \<and> rule_hook rule \<noteq> ''response''
        then [rule_msg rule ('' action '' @ squote ty @ '' is only valid on response hook'')] else [])
     @ (if ty = ''set_retry_pool'' \<and> v = []
        then [rule_msg rule '' set_retry_pool requires a pool name in value''] else [])
     @ (if ty = ''clear_tag'' \<and> v = []
        then [rule_msg rule '' clear_tag requires a non-empty tag key in value''] else [])
     @ (if ty \<in> {''set_source_v4'', ''set_source_v6''} \<and> rule_hook rule \<noteq> ''request''
        then [rule_msg rule ('' action '' @ squote ty @ '' is only valid on request hook'')] else [])
     @ (if ty \<in> {''set_source_v4'', ''set_source_v6'', ''set_retry_source_v4'', ''set_retry_source_v6''} \<and> v = []
        then needs_address
        else
          (if ty \<in> {''set_source_v4'', ''set_retry_source_v4''}
           then source_errors rule act ''sources_v4'' ''IPv4'' (parse_ipv4_addr v) allowed_v4 else [])
          @ (if ty \<in> {''set_source_v6'', ''set_retry_source_v6''}
             then source_errors rule act ''sources_v6'' ''IPv6'' (parse_ipv6_addr v) allowed_v6 else [])))"

definition validate_rule_name :: "string list \<Rightarrow> rule_cfg \<Rightarrow> string list"
  where "validate_rule_name seen rule =
    (if rule_name rule = [] then [''rule name must not be empty'']
     else if rule_name rule \<in> set seen then [''duplicate rule name '' @ squote (rule_name rule)] else [])"

fun validate_rule_list ::
  "(real \<Rightarrow> real) \<Rightarrow> string list \<Rightarrow> u32 list \<Rightarrow> 128 word list \<Rightarrow> string list \<Rightarrow> rule_cfg list \<Rightarrow> string list"
  where
    "validate_rule_list fl cidr_names v4 v6 seen [] = []"
  | "validate_rule_list fl cidr_names v4 v6 seen (rule # rules) =
      validate_rule_name seen rule
      @ (if rule_hook rule \<noteq> ''request'' \<and> rule_hook rule \<noteq> ''response''
         then [rule_msg rule ('' has invalid hook '' @ squote (rule_hook rule))] else [])
      @ concat (map (validate_rule_selector fl cidr_names rule) (rule_selectors rule))
      @ concat (map (validate_rule_action v4 v6 rule) (rule_actions rule))
      @ validate_rule_list fl cidr_names v4 v6
          (if rule_name rule = [] then seen else rule_name rule # seen) rules"

definition validate_rules ::
  "(real \<Rightarrow> real) \<Rightarrow> config \<Rightarrow> data_source_cfg list \<Rightarrow> rules_cfg \<Rightarrow> string list"
  where "validate_rules fl cfg sources rules =
    (if rules_match_mode rules \<noteq> ''first_match''
     then [''unsupported rules.match_mode '' @ squote (rules_match_mode rules) @ '', only first_match''] else [])
    @ validate_rule_list fl (map ds_name (filter (\<lambda>ds. ds_type ds = ''cidr'') sources))
        (configured_source_v4_addrs cfg) (configured_source_v6_addrs cfg) [] (rules_list rules)"

section \<open>Evaluation\<close>

datatype script_run_outcome =
  ScriptOk | ScriptError | ScriptDrop | ScriptDropNow | ScriptRetry | ScriptRetryNow

text \<open>A script run: its outcome, whether it cleared a soft retry, and the transaction after it.\<close>

type_synonym script_env = "nat \<Rightarrow> rule_hook \<Rightarrow> transaction \<Rightarrow> script_run_outcome \<times> bool \<times> transaction"

definition final_outcome :: "transaction \<Rightarrow> bool \<Rightarrow> rule_outcome"
  where "final_outcome t retry =
    (if soft_drop t then RuleDrop else if retry then RuleRetry else RuleContinue)"

definition retry_outcome :: "transaction \<Rightarrow> rule_outcome"
  where "retry_outcome t = (if soft_drop t then RuleDrop else RuleRetry)"

text \<open>A built-in action: whether it stops the rule with an outcome, the transaction, and the soft
  retry intent.  The arm for a script is unreachable in the code: the loop below runs scripts
  itself.\<close>

fun apply_builtin ::
  "compiled_action \<Rightarrow> transaction \<Rightarrow> bool \<Rightarrow> rule_outcome option \<times> transaction \<times> bool"
  where
    "apply_builtin (SetPool p) t retry = (None, t\<lparr>selected_pool := Some p\<rparr>, retry)"
  | "apply_builtin (SetTag key value) t retry = (None, t\<lparr>txn_tags := tag_set_string key value (txn_tags t)\<rparr>, retry)"
  | "apply_builtin (SetRetryPool p) t retry = (None, t\<lparr>retry_pool := Some p\<rparr>, retry)"
  | "apply_builtin ActRetry t retry = (None, t, True)"
  | "apply_builtin RetryNow t retry = (Some (retry_outcome t), t, retry)"
  | "apply_builtin ActDrop t retry = (None, set_soft_drop t, retry)"
  | "apply_builtin DropNow t retry = (Some RuleDrop, t, retry)"
  | "apply_builtin ClearDrop t retry = (None, clear_soft_drop t, retry)"
  | "apply_builtin ClearRetry t retry = (None, t, False)"
  | "apply_builtin ClearRetryPool t retry = (None, clear_retry_pool t, retry)"
  | "apply_builtin ClearPool t retry = (None, clear_pool t, retry)"
  | "apply_builtin (ClearTag key) t retry = (None, t\<lparr>txn_tags := tag_clear key (txn_tags t)\<rparr>, retry)"
  | "apply_builtin (SetRcode rc) t retry = (None, set_rcode rc t, retry)"
  | "apply_builtin (SetSourceV4 a) t retry = (None, set_source_override_v4 a t, retry)"
  | "apply_builtin (SetSourceV6 a) t retry = (None, set_source_override_v6 a t, retry)"
  | "apply_builtin (SetRetrySourceV4 a) t retry = (None, set_retry_source_override_v4 a t, retry)"
  | "apply_builtin (SetRetrySourceV6 a) t retry = (None, set_retry_source_override_v6 a t, retry)"
  | "apply_builtin ClearRetrySourceV4 t retry = (None, clear_retry_source_override_v4 t, retry)"
  | "apply_builtin ClearRetrySourceV6 t retry = (None, clear_retry_source_override_v6 t, retry)"
  | "apply_builtin (Rhai i) t retry = (None, t, retry)"

fun execute_actions ::
  "script_env \<Rightarrow> rule_hook \<Rightarrow> compiled_action list \<Rightarrow> transaction \<Rightarrow> bool \<Rightarrow> rule_outcome \<times> transaction"
  where
    "execute_actions scripts hook [] t retry = (final_outcome t retry, t)"
  | "execute_actions scripts hook (Rhai i # acts) t retry =
      (case scripts i hook t of (out, cleared, t') \<Rightarrow>
        (case out of
           ScriptDropNow \<Rightarrow> (RuleDrop, t')
         | ScriptDrop \<Rightarrow> execute_actions scripts hook acts t' retry
         | ScriptRetry \<Rightarrow> execute_actions scripts hook acts t' (hook = HookResponse \<or> retry)
         | ScriptRetryNow \<Rightarrow> if hook = HookResponse then (retry_outcome t', t')
             else execute_actions scripts hook acts t' retry
         | ScriptError \<Rightarrow> (final_outcome t' retry, t')
         | ScriptOk \<Rightarrow> execute_actions scripts hook acts t' (if cleared then False else retry)))"
  | "execute_actions scripts hook (act # acts) t retry =
      (case apply_builtin act t retry of
         (Some stop, t', _) \<Rightarrow> (stop, t')
       | (None, t', retry') \<Rightarrow> execute_actions scripts hook acts t' retry')"

definition execute_ordered :: "script_env \<Rightarrow> compiled_rule \<Rightarrow> transaction \<Rightarrow> rule_outcome \<times> transaction"
  where "execute_ordered scripts rule t = execute_actions scripts (cr_hook rule) (cr_actions rule) t False"

definition rule_matches ::
  "(real \<Rightarrow> real) \<Rightarrow> (u64 \<Rightarrow> string \<Rightarrow> u64) \<Rightarrow> (string \<Rightarrow> ip_addr \<Rightarrow> bool) \<Rightarrow> transaction \<Rightarrow> compiled_rule \<Rightarrow> bool"
  where "rule_matches fl hash cidr t rule =
    (cr_selectors rule = [] \<or>
     list_all (matches_ctx fl hash (match_ctx_of (Some (\<lambda>name. cidr name (sock_ip (client_addr t)))) t))
       (cr_selectors rule))"

fun eval_loop ::
  "(real \<Rightarrow> real) \<Rightarrow> (u64 \<Rightarrow> string \<Rightarrow> u64) \<Rightarrow> (string \<Rightarrow> ip_addr \<Rightarrow> bool) \<Rightarrow> script_env
    \<Rightarrow> match_mode \<Rightarrow> compiled_rule list \<Rightarrow> transaction \<Rightarrow> (rule_outcome \<times> string option) \<times> transaction"
  where
    "eval_loop fl hash cidr scripts mode [] t = ((RuleContinue, None), t)"
  | "eval_loop fl hash cidr scripts mode (rule # rules) t =
      (if rule_matches fl hash cidr t rule
       then let (outcome, t') = execute_ordered scripts rule t in
         (if mode = FirstMatch then ((outcome, Some (cr_name rule)), t')
          else eval_loop fl hash cidr scripts mode rules t')
       else eval_loop fl hash cidr scripts mode rules t)"

definition rules_eval ::
  "(real \<Rightarrow> real) \<Rightarrow> (u64 \<Rightarrow> string \<Rightarrow> u64) \<Rightarrow> (string \<Rightarrow> ip_addr \<Rightarrow> bool) \<Rightarrow> script_env
    \<Rightarrow> compiled_rules \<Rightarrow> rule_hook \<Rightarrow> transaction \<Rightarrow> (rule_outcome \<times> string option) \<times> transaction"
  where "rules_eval fl hash cidr scripts rules hook t =
    eval_loop fl hash cidr scripts (crs_match_mode rules) (filter (\<lambda>r. cr_hook r = hook) (crs_rules rules)) t"

text \<open>The stages.\<close>

type_synonym rules_env = "transaction \<Rightarrow> rule_hook \<Rightarrow> (rule_outcome \<times> string option) \<times> transaction"

definition request_rules_handle :: "rules_env \<Rightarrow> transaction \<Rightarrow> stage_outcome \<times> transaction"
  where "request_rules_handle ev t =
    (case ev t HookRequest of ((outcome, _), t') \<Rightarrow>
       (case outcome of RuleDrop \<Rightarrow> Drop | _ \<Rightarrow> Continue Lookup, t'))"

definition response_rules_handle :: "rules_env \<Rightarrow> transaction \<Rightarrow> stage_outcome \<times> transaction"
  where "response_rules_handle ev t =
    (case ev t HookResponse of ((outcome, _), t') \<Rightarrow>
       (case outcome of RuleRetry \<Rightarrow> Continue Lookup | RuleDrop \<Rightarrow> Drop | RuleContinue \<Rightarrow> Continue Send, t'))"

section \<open>Rules that validate compile\<close>

lemma is_err_iff [simp]: "is_err r \<longleftrightarrow> (\<nexists>a. r = Ok a)"
  by (cases r) (auto simp: is_err_def)

definition rhai_count :: "action_cfg list \<Rightarrow> nat"
  where "rhai_count acts = length (filter (\<lambda>a. act_type a = ''rhai'') acts)"

lemma action_compiles:
  assumes "validate_rule_action v4 v6 rule act = []" "act_type act \<noteq> ''rhai''"
  shows "\<exists>a. compile_action act = Some a"
  using assms
  by (auto simp: validate_rule_action_def compile_action_def Let_def ACTION_TYPES_def source_errors_def
      validate_wire_selector_value_def parse_selector_wire_value_def rbind_Ok_iff
      split: if_splits option.splits sum.splits)

lemma actions_compile:
  assumes "\<forall>act \<in> set acts. validate_rule_action v4 v6 rule act = []" "rhai_count acts \<le> length ids"
  shows "\<exists>cs. compile_actions ids acts = Some cs"
  using assms
proof (induction ids acts rule: compile_actions.induct)
  case (2 ids act acts)
  show ?case
  proof (cases "act_type act = ''rhai''")
    case True
    with 2 show ?thesis by (cases ids) (auto simp: rhai_count_def)
  next
    case False
    with "2.prems" obtain a where "compile_action act = Some a"
      using action_compiles [of v4 v6 rule act] by auto
    with 2 False show ?thesis by (auto simp: rhai_count_def)
  qed
qed simp

definition blank_selector :: "selector_cfg \<Rightarrow> bool"
  where "blank_selector sel \<longleftrightarrow> sel_type sel \<in> {''cache_instance'', ''client_cidr''} \<and> trim (sel_value sel) = []"

lemma selector_valid:
  assumes "validate_rule_selector fl names rule sel = []" "\<not> blank_selector sel"
  shows "valid_rule_selector fl sel"
  using assms
  by (auto simp: validate_rule_selector_def valid_rule_selector_def blank_selector_def split: if_splits)

lemma rule_ids_grow:
  assumes "compile_action_scripts load base rule acts s = Ok s'"
  shows "length (script_ids_for_rule s' name hook) = length (script_ids_for_rule s name hook)
      + (if name = rule_name rule \<and> hook = hook_of rule then rhai_count acts else 0)"
  using assms
proof (induction load base rule acts s rule: compile_action_scripts.induct)
  case (2 load base rule act acts s)
  show ?case
  proof (cases "act_type act = ''rhai''")
    case True
    with "2.prems" obtain i t where t: "script_id_for load rule (resolve_config_path base (act_value act)) s = Ok (i, t)"
      and nonempty_value: "act_value act \<noteq> []"
      and rest: "compile_action_scripts load base rule acts (t\<lparr>cg_rules_scripts := cg_rules_scripts t @
        [\<lparr>sr_rule_name = rule_name rule, sr_hook = hook_of rule, sr_path = act_value act, sr_script_id = i\<rparr>]\<rparr>) = Ok s'"
      by (auto simp: rbind_Ok_iff split: if_splits)
    from t have "cg_rules_scripts t = cg_rules_scripts s"
      by (auto simp: script_id_for_def rbind_Ok_iff Let_def split: option.splits)
    with "2.IH"(2) [OF _ nonempty_value rest] True show ?thesis
      by (auto simp: script_ids_for_rule_def rhai_count_def)
  next
    case False
    with 2 show ?thesis by (simp add: rhai_count_def)
  qed
qed (simp add: rhai_count_def)

lemma loop_ids_enough:
  assumes "compile_scripts_loop load base rules s = Ok s'"
  shows "length (script_ids_for_rule s name hook) \<le> length (script_ids_for_rule s' name hook)
    \<and> (\<forall>rule \<in> set rules. rhai_count (rule_actions rule) \<le> length (script_ids_for_rule s' (rule_name rule) (hook_of rule)))"
  using assms
proof (induction rules arbitrary: s name hook)
  case (Cons rule rules)
  then obtain t where t: "compile_action_scripts load base rule (rule_actions rule) s = Ok t"
    and rest: "compile_scripts_loop load base rules t = Ok s'"
    by (auto simp: rbind_Ok_iff compile_rule_scripts_def)
  note ids = rule_ids_grow [OF t]
  show ?case
    using Cons.IH [OF rest, of name hook] Cons.IH [OF rest, of "rule_name rule" "hook_of rule"]
      ids [of name hook] ids [of "rule_name rule" "hook_of rule"] by auto
qed simp

lemma rule_list_compiles:
  assumes "validate_rule_list fl names v4 v6 seen rules = []"
    and "\<forall>rule \<in> set rules. \<forall>sel \<in> set (rule_selectors rule). \<not> blank_selector sel"
    and "\<forall>rule \<in> set rules. rhai_count (rule_actions rule) \<le> length (ids (rule_name rule) (hook_of rule))"
  shows "\<exists>cs. compile_rule_list fl ids rules = Some cs"
  using assms
proof (induction rules arbitrary: seen)
  case (Cons rule rules)
  then obtain cs where rest: "compile_rule_list fl ids rules = Some cs"
    by (metis append_is_Nil_conv list.set_intros(2) validate_rule_list.simps(2))
  have "list_all (valid_rule_selector fl) (rule_selectors rule)"
    using Cons.prems selector_valid by (fastforce simp: list_all_iff)
  then obtain sels where sels: "compile_rule_selectors fl (rule_name rule) (rule_selectors rule) = Ok sels"
    using valid_selectors_compile by blast
  obtain acts where "compile_actions (ids (rule_name rule) (hook_of rule)) (rule_actions rule) = Some acts"
    using Cons.prems actions_compile [of "rule_actions rule" v4 v6 rule "ids (rule_name rule) (hook_of rule)"]
    by fastforce
  with sels rest show ?case by (simp add: compile_rule_def Let_def)
qed simp

text \<open>C26: A rules block that validates, whose scripts load, compiles without a panic, provided no
  \<open>cache_instance\<close> or \<open>client_cidr\<close> selector is blank.\<close>

theorem validated_rules_compile:
  assumes "validate_rules fl cfg sources rules = []"
    and "compile_scripts_loop load base (rules_list rules) empty_scripting = Ok scripting"
    and "\<forall>rule \<in> set (rules_list rules). \<forall>sel \<in> set (rule_selectors rule). \<not> blank_selector sel"
  shows "\<exists>cs. compile_rules fl (script_ids_for_rule scripting) (Some rules) = Some cs"
  using assms loop_ids_enough [OF assms(2)] rule_list_compiles
  by (fastforce simp: validate_rules_def compile_rules_def split: if_splits)

definition example_rule :: "selector_cfg list \<Rightarrow> action_cfg list \<Rightarrow> rule_cfg"
  where "example_rule sels acts =
    \<lparr>rule_name = ''r'', rule_hook = ''response'', rule_selectors = sels, rule_actions = acts\<rparr>"

definition selector :: "string \<Rightarrow> string \<Rightarrow> selector_cfg"
  where "selector ty v = \<lparr>sel_type = ty, sel_value = v, sel_key = None, sel_key_from = None\<rparr>"

definition no_sources_config :: config
  where "no_sources_config = \<lparr>cfg_pools = [], cfg_forward = None\<rparr>"

lemmas rules_eval_defs = validate_rules_def validate_rule_name_def validate_rule_selector_def
  validate_rule_action_def example_rule_def selector_def no_sources_config_def ACTION_TYPES_def
  configured_source_v4_addrs_def configured_source_v6_addrs_def validate_selector_type_def
  SELECTOR_TYPES_def RULE_ONLY_SELECTOR_TYPES_def validate_wire_selector_value_def
  validate_selector_sample_key_fields_def nonempty_opt_def err_list_def Let_def

theorem validated_rules_compile_witness:
  "\<exists>cs. compile_rules (\<lambda>x. x)
    (script_ids_for_rule \<lparr>cg_scripts = [\<lparr>cs_path = ''/p'', cs_rule_name = ''r'', cs_hook = HookResponse, cs_ast = ()\<rparr>],
      cg_script_index = [((''r'', ''/p''), 0)],
      cg_rules_scripts = [\<lparr>sr_rule_name = ''r'', sr_hook = HookResponse, sr_path = ''/p'', sr_script_id = 0\<rparr>]\<rparr>)
    (Some \<lparr>rules_match_mode = ''first_match'', rules_list =
      [example_rule [selector ''cache_instance'' ''main''] [\<lparr>act_type = ''rhai'', act_value = ''/p''\<rparr>, \<lparr>act_type = ''retry'', act_value = []\<rparr>]]\<rparr>) = Some cs"
  by (rule validated_rules_compile [where cfg = no_sources_config and sources = "[]" and load = "\<lambda>_. Ok ()" and base = None])
    (simp_all add: rules_eval_defs compile_rule_scripts_def script_id_for_def empty_scripting_def
      resolve_config_path_def hook_of_def blank_selector_def trim_def trim_start_def trim_end_def
      is_ascii_space_def)

text \<open>A blank \<open>cache_instance\<close> selector validates, and the compilation of the rules panics.\<close>

lemma blank_cache_instance_panics:
  fixes rules
  defines "rules \<equiv> \<lparr>rules_match_mode = ''first_match'', rules_list = [example_rule [selector ''cache_instance'' []] []]\<rparr>"
  shows "validate_rules fl no_sources_config [] rules = []"
    and "compile_rules fl ids (Some rules) = None"
  by (simp_all add: rules_def rules_eval_defs compile_rules_def compile_rule_def
      compile_rule_selectors_def compile_selectors_with_ctx_def compile_selector_def trim_def trim_start_def trim_end_def)

section \<open>Rules of built-in actions\<close>

text \<open>The last word of a pair of opposite actions.\<close>

definition last_intent :: "compiled_action \<Rightarrow> compiled_action \<Rightarrow> bool \<Rightarrow> compiled_action list \<Rightarrow> bool"
  where "last_intent on off start acts =
    foldl (\<lambda>b a. if a = on then True else if a = off then False else b) start acts"

definition soft_action :: "compiled_action \<Rightarrow> bool"
  where "soft_action a \<longleftrightarrow> a \<noteq> DropNow \<and> a \<noteq> RetryNow"

definition documented_outcome :: "bool \<Rightarrow> bool \<Rightarrow> compiled_action list \<Rightarrow> rule_outcome"
  where "documented_outcome dropping retrying acts =
    (let soft = takeWhile soft_action acts; hard = dropWhile soft_action acts in
     if hard \<noteq> [] \<and> hd hard = DropNow then RuleDrop
     else if last_intent ActDrop ClearDrop dropping soft then RuleDrop
     else if hard \<noteq> [] \<or> last_intent ActRetry ClearRetry retrying soft then RuleRetry
     else RuleContinue)"

definition builtin :: "compiled_action \<Rightarrow> bool"
  where "builtin a \<longleftrightarrow> (\<forall>i. a \<noteq> Rhai i)"

lemma execute_builtin:
  assumes "list_all builtin acts"
  shows "fst (execute_actions scripts hook acts t retry) = documented_outcome (soft_drop t) retry acts"
  using assms
proof (induction acts arbitrary: t retry)
  case (Cons a acts)
  then show ?case
    by (cases a) (simp_all add: builtin_def documented_outcome_def soft_action_def last_intent_def Let_def
        txn_defs retry_outcome_def)
qed (simp add: documented_outcome_def last_intent_def final_outcome_def)

text \<open>C11: A rule of built-in actions has the documented outcome: the first hard action ends it, soft
  drop and soft retry are decided by the last action that sets or clears them before that, and a
  drop wins over a retry.\<close>

theorem builtin_rule_outcome:
  assumes "list_all builtin (cr_actions rule)"
  shows "fst (execute_ordered scripts rule t) = documented_outcome (soft_drop t) False (cr_actions rule)"
  by (simp add: execute_ordered_def execute_builtin [OF assms])

definition example_txn :: transaction
  where "example_txn = transaction_new 0 0 1 (SocketV4 0 53) Udp"

definition retrying_rule :: compiled_rule
  where "retrying_rule = \<lparr>cr_name = ''r'', cr_hook = HookResponse, cr_selectors = [],
    cr_actions = [ActRetry, ActDrop, ClearDrop, SetRcode 2, RetryNow, DropNow]\<rparr>"

theorem builtin_rule_outcome_witness:
  "fst (execute_ordered (\<lambda>i hook t. (ScriptOk, False, t)) retrying_rule example_txn) = RuleRetry"
  using builtin_rule_outcome [of retrying_rule "\<lambda>i hook t. (ScriptOk, False, t)" example_txn]
  by (simp add: builtin_def documented_outcome_def soft_action_def last_intent_def Let_def
      retrying_rule_def example_txn_def transaction_new_def)

end
