(* ===== verification/Orchestrator.thy ===== *)
theory Orchestrator
  imports Lookup_Stage Stages Rules
begin

text \<open>
  The orchestrator (\<open>conduit-core/src/orchestrator.rs\<close>), which drives a transaction through its
  phases, and the pipeline the data plane builds (\<open>conduit-dataplane/src/runtime/orchestrator.rs\<close>).

  A stage is a function on a transaction and a world; \<open>None\<close> is a stage that does not return.  The
  loop reads the clock three times in a turn, at the limit on the duration, for the trace and at a
  suspension: the readings of turn \<open>n\<close> are \<open>n\<close>, \<open>n + 1\<close> and \<open>n + 2\<close>.  Whether a trace is activated
  is a parameter; events, metrics and logs are left out.

  What is shown: the loop ends once the clock has passed the limit; every answer to a UDP client
  fits; the attempts stay within their limit over a whole run; where the answer of an earlier
  attempt is sent in place of the failure.
\<close>

section \<open>The loop\<close>

datatype run_outcome = Response bytes | Dropped

datatype orchestrator_run = Finished run_outcome | Suspended phase

type_synonym 'w stage = "transaction \<Rightarrow> 'w \<Rightarrow> (stage_outcome \<times> transaction \<times> 'w) option"

record 'w orch_env =
  oe_stages :: "phase \<Rightarrow> 'w stage option"
  oe_metrics :: "bool option"
  oe_pin :: "nat option"
  oe_tracing :: bool
  oe_trace_matches :: "transaction \<Rightarrow> bool"
  oe_max_duration_ms :: "u32 option"
  oe_generation :: u64
  oe_clock :: "nat \<Rightarrow> instant"

fun into_outcome :: "orchestrator_run \<Rightarrow> run_outcome option"
  where
    "into_outcome (Finished out) = Some out"
  | "into_outcome (Suspended _) = None"

fun phase_name :: "phase \<Rightarrow> string"
  where
    "phase_name Receive = ''receive''"
  | "phase_name Parse = ''parse''"
  | "phase_name RequestRules = ''request_rules''"
  | "phase_name Lookup = ''lookup''"
  | "phase_name ResponseRules = ''response_rules''"
  | "phase_name Send = ''send''"
  | "phase_name Route = ''lookup''"
  | "phase_name Forward = ''lookup''"
  | "phase_name WaitResponse = ''lookup''"

fun next_phase :: "phase \<Rightarrow> phase"
  where
    "next_phase Receive = Parse"
  | "next_phase Parse = RequestRules"
  | "next_phase RequestRules = Lookup"
  | "next_phase Lookup = ResponseRules"
  | "next_phase ResponseRules = Send"
  | "next_phase Send = Send"
  | "next_phase Route = Lookup"
  | "next_phase Forward = Lookup"
  | "next_phase WaitResponse = Lookup"

definition selected_backend_display :: "transaction \<Rightarrow> string option"
  where "selected_backend_display t =
    (case selected_backend_label t of Some l \<Rightarrow> Some l | None \<Rightarrow> map_option show_socket_addr (selected_backend t))"

definition observe_after_request_rules :: "'w orch_env \<Rightarrow> transaction \<Rightarrow> transaction"
  where "observe_after_request_rules env t =
    (if qname t \<noteq> None \<and> trace_log t = None \<and> oe_tracing env \<and> oe_trace_matches env t
     then t\<lparr>trace_log := Some []\<rparr> else t)"

definition finalize_trace :: "'w orch_env \<Rightarrow> transaction \<Rightarrow> transaction"
  where "finalize_trace env t = (if oe_tracing env then t\<lparr>trace_log := None\<rparr> else t)"

definition finish_run :: "'w orch_env \<Rightarrow> transaction \<Rightarrow> orchestrator_run \<times> transaction"
  where "finish_run env t =
    (Finished (case response_wire t of Some wire \<Rightarrow> Response wire | None \<Rightarrow> Dropped), finalize_trace env t)"

text \<open>The limit on the duration: past it the transaction goes to Send with SERVFAIL.\<close>

definition max_duration :: "'w orch_env \<Rightarrow> duration"
  where "max_duration env = from_millis (unat (or_default (oe_max_duration_ms env) 5000))"

definition too_late :: "'w orch_env \<Rightarrow> nat \<Rightarrow> transaction \<Rightarrow> bool"
  where "too_late env n t \<longleftrightarrow> max_duration env < elapsed (oe_clock env n) (started_at t)"

definition check_duration :: "'w orch_env \<Rightarrow> nat \<Rightarrow> transaction \<Rightarrow> transaction"
  where "check_duration env n t =
    (if too_late env n t then (set_rcode_name ''SERVFAIL'' t)\<lparr>current_phase := Send\<rparr> else t)"

datatype 'w turn = TurnEnd orchestrator_run transaction 'w | TurnNext transaction 'w

text \<open>After a stage has run in phase \<open>ph\<close>.\<close>

definition after_stage ::
  "'w orch_env \<Rightarrow> nat \<Rightarrow> phase \<Rightarrow> stage_outcome \<Rightarrow> transaction \<Rightarrow> 'w \<Rightarrow> 'w turn"
  where "after_stage env n ph out t w =
    (let t1 = trace_record_phase (oe_clock env (n + 1)) (phase_name ph) None (selected_pool t) (selected_backend_display t) None t;
         t2 = (if ph = RequestRules then observe_after_request_rules env t1 else t1) in
     case out of
       Drop \<Rightarrow> TurnEnd (Finished Dropped) t2 w
     | Suspend p \<Rightarrow> TurnEnd (Suspended p) (t2\<lparr>suspend_phase_started_at := Some (oe_clock env (n + 2))\<rparr>) w
     | Continue p \<Rightarrow>
         (let t3 = t2\<lparr>current_phase := p\<rparr> in
          if ph = Send then (case finish_run env t3 of (r, t4) \<Rightarrow> TurnEnd r t4 w) else TurnNext t3 w))"

definition loop_turn :: "'w orch_env \<Rightarrow> nat \<Rightarrow> transaction \<Rightarrow> 'w \<Rightarrow> 'w turn option"
  where "loop_turn env n t w =
    (let t1 = check_duration env n t in
     case oe_stages env (current_phase t1) of
       None \<Rightarrow>
         Some (if current_phase t1 = Send then (case finish_run env t1 of (r, t2) \<Rightarrow> TurnEnd r t2 w)
           else TurnNext (t1\<lparr>current_phase := next_phase (current_phase t1)\<rparr>) w)
     | Some stage \<Rightarrow>
         map_option (\<lambda>(out, t2, w2). after_stage env n (current_phase t1) out t2 w2) (stage t1 w))"

type_synonym 'w run_state = "orchestrator_run \<times> transaction \<times> 'w \<times> nat"

partial_function (option) run_loop ::
  "'w orch_env \<Rightarrow> nat \<Rightarrow> transaction \<Rightarrow> 'w \<Rightarrow> 'w run_state option"
  where "run_loop env n t w =
    (case loop_turn env n t w of
       None \<Rightarrow> None
     | Some (TurnEnd r t' w') \<Rightarrow> Some (r, t', w', n + 3)
     | Some (TurnNext t' w') \<Rightarrow> run_loop env (n + 3) t' w')"

declare run_loop.simps [code]

definition run_until_suspend :: "'w orch_env \<Rightarrow> nat \<Rightarrow> transaction \<Rightarrow> 'w \<Rightarrow> 'w run_state option"
  where "run_until_suspend env n t w =
    run_loop env n (t\<lparr>snapshot_generation := oe_generation env, current_phase := Parse, metrics_pin := oe_pin env\<rparr>) w"

definition resume_after_suspend :: "'w orch_env \<Rightarrow> phase \<Rightarrow> nat \<Rightarrow> transaction \<Rightarrow> 'w \<Rightarrow> 'w run_state option"
  where "resume_after_suspend env resume_phase n t w =
    (let taken = (resume_phase \<in> {Lookup, WaitResponse} \<and> or_default (oe_metrics env) True);
         t1 = (if taken then t\<lparr>suspend_phase_started_at := None\<rparr> else t) in
     run_loop env n (t1\<lparr>current_phase := resume_phase\<rparr>) w)"

definition resume_inline_wait :: "'w orch_env \<Rightarrow> phase \<Rightarrow> nat \<Rightarrow> transaction \<Rightarrow> 'w \<Rightarrow> 'w run_state option"
  where "resume_inline_wait env resume_phase n t w =
    (let t1 = t\<lparr>current_phase := resume_phase\<rparr> in
     case oe_stages env resume_phase of
       None \<Rightarrow> run_until_suspend env n (t1\<lparr>current_phase := next_phase resume_phase\<rparr>) w
     | Some stage \<Rightarrow>
       (case stage t1 w of
          None \<Rightarrow> None
        | Some (Drop, t2, w2) \<Rightarrow> Some (Finished Dropped, t2, w2, n)
        | Some (Suspend p, t2, w2) \<Rightarrow> Some (Suspended p, t2, w2, n)
        | Some (Continue p, t2, w2) \<Rightarrow> run_until_suspend env n (t2\<lparr>current_phase := p\<rparr>) w2))"

partial_function (option) run_inline :: "'w orch_env \<Rightarrow> 'w run_state \<Rightarrow> (run_outcome \<times> transaction \<times> 'w) option"
  where "run_inline env s =
    (case s of (r, t, w, n) \<Rightarrow>
      (case r of
         Finished out \<Rightarrow> Some (out, t, w)
       | Suspended p \<Rightarrow> Option.bind (resume_inline_wait env p n t w) (run_inline env)))"

definition orchestrator_run_all :: "'w orch_env \<Rightarrow> nat \<Rightarrow> transaction \<Rightarrow> 'w \<Rightarrow> (run_outcome \<times> transaction \<times> 'w) option"
  where "orchestrator_run_all env n t w = Option.bind (run_until_suspend env n t w) (run_inline env)"

section \<open>The pipeline\<close>

definition pure_stage :: "(transaction \<Rightarrow> stage_outcome \<times> transaction) \<Rightarrow> 'w stage"
  where "pure_stage f t w = (case f t of (out, t') \<Rightarrow> Some (out, t', w))"

fun with_default_stages :: "dns_codec \<Rightarrow> rules_env \<Rightarrow> phase \<Rightarrow> 'w stage option"
  where
    "with_default_stages dc rules Parse = Some (pure_stage (parse_handle dc))"
  | "with_default_stages dc rules RequestRules = Some (pure_stage (request_rules_handle rules))"
  | "with_default_stages dc rules ResponseRules = Some (pure_stage (response_rules_handle rules))"
  | "with_default_stages dc rules Send = Some (pure_stage (send_handle dc))"
  | "with_default_stages dc rules _ = None"

definition build_orchestrator ::
  "dns_codec \<Rightarrow> rules_env \<Rightarrow> ('l, 'w) lookup_env \<Rightarrow> phase \<Rightarrow> ('l, 'w) lookup_world stage option"
  where "build_orchestrator dc rules lookup = (with_default_stages dc rules)(Lookup \<mapsto> lookup_handle lookup)"

section \<open>The loop ends\<close>

lemma set_rcode_name_keeps [simp]:
  "started_at (set_rcode_name name t) = started_at t" "attempt_count (set_rcode_name name t) = attempt_count t"
  "response_wire (set_rcode_name name t) = response_wire t" "protocol (set_rcode_name name t) = protocol t"
  "client_udp_payload_size (set_rcode_name name t) = client_udp_payload_size t"
  by (simp_all add: set_rcode_name_def)

lemma trace_record_phase_keeps [simp]:
  "started_at (trace_record_phase now ph msg pool backend cache t) = started_at t"
  "attempt_count (trace_record_phase now ph msg pool backend cache t) = attempt_count t"
  "response_wire (trace_record_phase now ph msg pool backend cache t) = response_wire t"
  "protocol (trace_record_phase now ph msg pool backend cache t) = protocol t"
  "client_udp_payload_size (trace_record_phase now ph msg pool backend cache t) = client_udp_payload_size t"
  "txn_rcode (trace_record_phase now ph msg pool backend cache t) = txn_rcode t"
  by (simp_all add: trace_record_phase_def split: option.splits)

lemma observe_keeps [simp]:
  "started_at (observe_after_request_rules env t) = started_at t"
  "attempt_count (observe_after_request_rules env t) = attempt_count t"
  "response_wire (observe_after_request_rules env t) = response_wire t"
  "protocol (observe_after_request_rules env t) = protocol t"
  "client_udp_payload_size (observe_after_request_rules env t) = client_udp_payload_size t"
  by (simp_all add: observe_after_request_rules_def)

lemma finalize_trace_keeps [simp]:
  "started_at (finalize_trace env t) = started_at t" "attempt_count (finalize_trace env t) = attempt_count t"
  "response_wire (finalize_trace env t) = response_wire t" "protocol (finalize_trace env t) = protocol t"
  "client_udp_payload_size (finalize_trace env t) = client_udp_payload_size t" "txn_rcode (finalize_trace env t) = txn_rcode t"
  by (simp_all add: finalize_trace_def)

text \<open>A turn at Send is the last one.\<close>

lemma after_send: "\<exists>r t'. after_stage env n Send out t w = TurnEnd r t' w"
  by (cases out) (simp_all add: after_stage_def finish_run_def)

lemma turn_at_send:
  assumes "current_phase (check_duration env n t) = Send" "loop_turn env n t w = Some turn"
  shows "\<exists>r t' w'. turn = TurnEnd r t' w'"
  using assms after_send [of env n]
  by (cases "oe_stages env Send") (fastforce simp: loop_turn_def finish_run_def Let_def)+

definition stages_return :: "'w orch_env \<Rightarrow> bool"
  where "stages_return env \<longleftrightarrow> (\<forall>ph stage t w. oe_stages env ph = Some stage \<longrightarrow>
    (\<exists>out t' w'. stage t w = Some (out, t', w') \<and> started_at t' = started_at t))"

lemma turn_returns:
  assumes "stages_return env"
  shows "\<exists>turn. loop_turn env n t w = Some turn
    \<and> (case turn of TurnEnd _ _ _ \<Rightarrow> True | TurnNext t' _ \<Rightarrow> started_at t' = started_at t)"
proof -
  let ?t1 = "check_duration env n t"
  have "started_at ?t1 = started_at t" by (simp add: check_duration_def)
  moreover have "\<exists>out t' w'. stage ?t1 w = Some (out, t', w') \<and> started_at t' = started_at ?t1"
    if "oe_stages env (current_phase ?t1) = Some stage" for stage
    using assms that by (simp add: stages_return_def)
  ultimately show ?thesis
    by (cases "oe_stages env (current_phase ?t1)")
      (fastforce simp: loop_turn_def after_stage_def finish_run_def Let_def split: stage_outcome.splits)+
qed

text \<open>C6: The orchestrator always returns.  If every stage returns and leaves the start of the query
  alone, the loop ends at the latest in the first turn whose reading of the clock is past the limit
  on the duration, whatever the stages decide: a rule that retries for ever included.\<close>

theorem run_loop_returns:
  assumes "stages_return env" "\<forall>j \<ge> N. max_duration env < elapsed (oe_clock env j) (started_at t)"
  shows "\<exists>r t' w' m. run_loop env n t w = Some (r, t', w', m) \<and> m \<le> max (N + 2) n + 3"
  using assms(2)
proof (induction "N - n" arbitrary: n t w rule: less_induct)
  case less
  obtain turn where turn: "loop_turn env n t w = Some turn"
    "case turn of TurnEnd _ _ _ \<Rightarrow> True | TurnNext t' _ \<Rightarrow> started_at t' = started_at t"
    using turn_returns [OF assms(1)] by blast
  show ?case
  proof (cases turn)
    case (TurnEnd r t' w')
    then show ?thesis using turn by (subst run_loop.simps) simp
  next
    case (TurnNext t' w')
    have "n < N"
    proof (rule ccontr)
      assume "\<not> n < N"
      then have "current_phase (check_duration env n t) = Send"
        using less.prems by (simp add: check_duration_def too_late_def)
      then show False using turn_at_send [OF _ turn(1)] TurnNext by auto
    qed
    then have "\<exists>r t'' w'' m. run_loop env (n + 3) t' w' = Some (r, t'', w'', m) \<and> m \<le> max (N + 2) (n + 3) + 3"
      using less.prems turn(2) TurnNext by (intro less.hyps) simp_all
    then show ?thesis
      using turn(1) TurnNext \<open>n < N\<close> by (subst run_loop.simps) auto
  qed
qed

section \<open>What holds over a run\<close>

text \<open>A predicate on transactions that every stage keeps, and that does not look at what the loop
  itself changes, holds at the end.\<close>

definition loop_blind :: "(transaction \<Rightarrow> bool) \<Rightarrow> bool"
  where "loop_blind Q \<longleftrightarrow> (\<forall>t. Q t \<longrightarrow> Q (set_rcode_name ''SERVFAIL'' t) \<and> (\<forall>p. Q (t\<lparr>current_phase := p\<rparr>))
    \<and> (\<forall>l. Q (t\<lparr>trace_log := l\<rparr>)) \<and> (\<forall>s. Q (t\<lparr>suspend_phase_started_at := s\<rparr>)))"

definition stages_keep :: "'w orch_env \<Rightarrow> (transaction \<Rightarrow> bool) \<Rightarrow> bool"
  where "stages_keep env Q \<longleftrightarrow> (\<forall>ph stage t w out t' w'. oe_stages env ph = Some stage \<longrightarrow> Q t \<longrightarrow>
    stage t w = Some (out, t', w') \<longrightarrow> Q t')"

lemma loop_blindD:
  assumes "loop_blind Q" "Q t"
  shows "Q (check_duration env n t)" "Q (trace_record_phase now ph msg pool backend cache t)"
    "Q (observe_after_request_rules env t)" "Q (finalize_trace env t)" "Q (t\<lparr>current_phase := p\<rparr>)"
    "Q (t\<lparr>suspend_phase_started_at := s\<rparr>)"
  using assms
  by (auto simp: loop_blind_def check_duration_def trace_record_phase_def observe_after_request_rules_def finalize_trace_def
      split: option.splits)

definition turn_txn :: "'w turn \<Rightarrow> transaction"
  where "turn_txn turn = (case turn of TurnEnd _ t _ \<Rightarrow> t | TurnNext t _ \<Rightarrow> t)"

lemma after_stage_keeps:
  assumes "loop_blind Q" "Q t"
  shows "Q (turn_txn (after_stage env n ph out t w))"
  by (auto simp: after_stage_def finish_run_def turn_txn_def Let_def intro!: loop_blindD [OF assms(1)] assms(2)
      split: stage_outcome.splits)

lemma turn_keeps:
  assumes "loop_blind Q" "stages_keep env Q" "Q t" "loop_turn env n t w = Some turn"
  shows "Q (turn_txn turn)"
proof (cases "oe_stages env (current_phase (check_duration env n t))")
  case None
  then show ?thesis
    using assms(4)
    by (auto simp: loop_turn_def finish_run_def turn_txn_def Let_def intro!: loop_blindD [OF assms(1)] assms(3))
next
  case (Some stage)
  then obtain out t2 w2 where "stage (check_duration env n t) w = Some (out, t2, w2)"
    "turn = after_stage env n (current_phase (check_duration env n t)) out t2 w2"
    using assms(4) by (auto simp: loop_turn_def Let_def)
  moreover have "Q t2"
    using calculation(1) Some assms(2) loop_blindD(1) [OF assms(1,3)] unfolding stages_keep_def by blast
  ultimately show ?thesis using after_stage_keeps [OF assms(1)] by simp
qed

lemma run_loop_induct:
  assumes ret: "run_loop env n t w = Some s"
    and fin: "\<And>n t w r t' w'. loop_turn env n t w = Some (TurnEnd r t' w') \<Longrightarrow> P n t w (r, t', w', n + 3)"
    and nxt: "\<And>n t w t' w' s. loop_turn env n t w = Some (TurnNext t' w') \<Longrightarrow> P (n + 3) t' w' s \<Longrightarrow> P n t w s"
  shows "P n t w s"
proof -
  have "env = env \<longrightarrow> P n t w s"
  proof (rule run_loop.raw_induct [where P = "\<lambda>e n t w s. e = env \<longrightarrow> P n t w s", OF _ ret])
    fix run e n t w s
    assume IH: "\<And>e n t w s. run e n t w = Some s \<Longrightarrow> e = env \<longrightarrow> P n t w s"
      and eq: "(case loop_turn e n t w of None \<Rightarrow> None
        | Some (TurnEnd r t' w') \<Rightarrow> Some (r, t', w', n + 3)
        | Some (TurnNext t' w') \<Rightarrow> run e (n + 3) t' w') = Some s"
    show "e = env \<longrightarrow> P n t w s"
    proof
      assume e: "e = env"
      obtain turn where turn: "loop_turn env n t w = Some turn"
        using eq e by (cases "loop_turn env n t w") simp_all
      show "P n t w s"
      proof (cases turn)
        case (TurnEnd r t' w')
        then show ?thesis using eq e turn fin by auto
      next
        case (TurnNext t' w')
        then have "run env (n + 3) t' w' = Some s" using eq e turn by simp
        then show ?thesis using nxt turn TurnNext IH by blast
      qed
    qed
  qed
  then show ?thesis by simp
qed

lemma run_loop_keeps:
  assumes "loop_blind Q" "stages_keep env Q" "Q t" "run_loop env n t w = Some (r, t', w', m)"
  shows "Q t'"
proof -
  have "Q t \<longrightarrow> Q (fst (snd (r, t', w', m)))"
    using assms(4)
  proof (rule run_loop_induct)
    fix n t w r t' and w' :: 'a
    assume "loop_turn env n t w = Some (TurnEnd r t' w')"
    then show "Q t \<longrightarrow> Q (fst (snd (r, t', w', n + 3)))"
      using turn_keeps [OF assms(1,2)] by (fastforce simp: turn_txn_def)
  next
    fix n t w t' and w' :: 'a and s :: "'a run_state"
    assume "loop_turn env n t w = Some (TurnNext t' w')" "Q t' \<longrightarrow> Q (fst (snd s))"
    then show "Q t \<longrightarrow> Q (fst (snd s))"
      using turn_keeps [OF assms(1,2)] by (fastforce simp: turn_txn_def)
  qed
  then show ?thesis using assms(3) by simp
qed

section \<open>Every answer fits\<close>

lemma send_stage_fits:
  assumes "send_handle dc t = (out, t')"
  shows "out = Continue Send \<and> protocol t' = protocol t \<and> client_udp_payload_size t' = client_udp_payload_size t
    \<and> (\<exists>wire. response_wire t' = Some wire \<and> (protocol t = Udp \<longrightarrow> length wire \<le> udp_limit (client_udp_payload_size t)))"
  using assms send_handle_fits [of t dc]
  by (auto simp: send_handle_def Let_def split: option.splits prod.splits if_splits)

lemma after_stage_world: "after_stage env n ph out t w = TurnEnd r t' w' \<Longrightarrow> w' = w"
  by (cases out) (auto simp: after_stage_def finish_run_def Let_def split: if_splits)

lemma turn_end_fits:
  assumes send: "oe_stages env Send = Some (pure_stage (send_handle dc))"
    and turn: "loop_turn env n t w = Some (TurnEnd r t' w')"
  shows "case (r, t', w', m) of
      (Finished (Response wire), t', w', m) \<Rightarrow> response_wire t' = Some wire
        \<and> (protocol t' = Udp \<longrightarrow> length wire \<le> udp_limit (client_udp_payload_size t'))
    | (Finished Dropped, t', w', m) \<Rightarrow> \<exists>ph stage t1 w1 t2 w2. oe_stages env ph = Some stage \<and> stage t1 w1 = Some (Drop, t2, w2)
    | _ \<Rightarrow> True"
proof -
  let ?t1 = "check_duration env n t"
  obtain stage out t2 where stage: "oe_stages env (current_phase ?t1) = Some stage" "stage ?t1 w = Some (out, t2, w')"
    and last: "after_stage env n (current_phase ?t1) out t2 w' = TurnEnd r t' w'"
  proof (cases "oe_stages env (current_phase ?t1)")
    case None
    then show ?thesis using turn send by (auto simp: loop_turn_def Let_def split: if_splits)
  next
    case (Some stage)
    then obtain out t2 w2 where "stage ?t1 w = Some (out, t2, w2)" "after_stage env n (current_phase ?t1) out t2 w2 = TurnEnd r t' w'"
      using turn by (auto simp: loop_turn_def Let_def)
    then show ?thesis using Some that after_stage_world by metis
  qed
  show ?thesis
  proof (cases out)
    case (Continue p)
    then have ph: "current_phase ?t1 = Send"
      using last by (auto simp: after_stage_def Let_def split: if_splits)
    then have "send_handle dc ?t1 = (out, t2)"
      using stage send by (auto simp: pure_stage_def split: prod.splits)
    from send_stage_fits [OF this] show ?thesis
      using last ph Continue by (auto simp: after_stage_def finish_run_def)
  next
    case Drop
    then have "r = Finished Dropped"
      using last by (auto simp: after_stage_def Let_def)
    then show ?thesis using stage Drop by simp blast
  next
    case (Suspend p)
    then show ?thesis using last by (auto simp: after_stage_def Let_def)
  qed
qed

text \<open>C5: Composed with the Send stage, every answer the orchestrator hands back for a UDP client fits
  the payload size the client announced, whatever the other stages and the clock do.  And a
  transaction is only dropped where a stage dropped it.\<close>

theorem run_responses_fit:
  assumes "oe_stages env Send = Some (pure_stage (send_handle dc))"
    and "run_loop env n t w = Some (Finished out, t', w', m)"
  shows "(case out of
      Response wire \<Rightarrow> response_wire t' = Some wire
        \<and> (protocol t' = Udp \<longrightarrow> length wire \<le> udp_limit (client_udp_payload_size t'))
    | Dropped \<Rightarrow> \<exists>ph stage t1 w1 t2 w2. oe_stages env ph = Some stage \<and> stage t1 w1 = Some (Drop, t2, w2))"
proof -
  define P where "P s \<longleftrightarrow> (case s of
      (Finished (Response wire), t', w', m) \<Rightarrow> response_wire t' = Some wire
        \<and> (protocol t' = Udp \<longrightarrow> length wire \<le> udp_limit (client_udp_payload_size t'))
    | (Finished Dropped, t', w', m) \<Rightarrow> \<exists>ph stage t1 w1 t2 w2. oe_stages env ph = Some stage \<and> stage t1 w1 = Some (Drop, t2, w2)
    | _ \<Rightarrow> True)" for s :: "'a run_state"
  have "P (Finished out, t', w', m)"
    using assms(2)
  proof (rule run_loop_induct)
    fix n t w r t' and w' :: 'a
    assume "loop_turn env n t w = Some (TurnEnd r t' w')"
    then show "P (r, t', w', n + 3)"
      unfolding P_def by (rule turn_end_fits [OF assms(1)])
  qed
  then show ?thesis by (cases out) (auto simp: P_def)
qed

section \<open>Attempts over a run\<close>

definition max_attempts :: "('l, 'w) lookup_env \<Rightarrow> u32"
  where "max_attempts lk = or_default (ls_max_attempts lk) 3"

text \<open>What the inner stages do to the count: Route makes at most one attempt, the others none.\<close>

definition inner_counts :: "('l, 'w) lookup_env \<Rightarrow> bool"
  where "inner_counts lk \<longleftrightarrow>
    (\<forall>t x. unat (attempt_count (fst (snd (ls_route lk t x)))) \<le> unat (attempt_count t) + 1
      \<and> attempt_count (fst (snd (ls_forward lk t x))) = attempt_count t
      \<and> attempt_count (fst (snd (ls_wait lk t x))) = attempt_count t)"

lemma route_handle_counts:
  "unat (attempt_count (snd (route_handle fl health cfg ch gen t))) \<le> unat (attempt_count t) + 1"
proof -
  have "unat (a + 1) \<le> unat a + 1" for a :: u32
    by (simp add: unat_word_ariths(1))
  then show ?thesis
    by (auto simp: route_handle_def route_pool_def take_retry_pool_def record_attempt_def Let_def split: option.splits prod.splits)
qed

lemma run_inner_txn: "run_inner f t w = (out, t', w') \<Longrightarrow> t' = fst (snd (f t (lw_rest w)))"
  by (auto simp: run_inner_def split: prod.splits)

lemma finish_counts:
  assumes "inner_counts lk" "finish_forward_answer lk t w = Some (out, t', w')"
  shows "attempt_count t' = attempt_count t"
proof -
  obtain o1 t1 w1 where r: "run_inner (ls_wait lk) t w = (o1, t1, w1)" by (metis prod_cases3)
  then have "attempt_count t1 = attempt_count t"
    using assms(1) run_inner_txn [OF r] by (simp add: inner_counts_def)
  then show ?thesis
    using assms(2) r by (auto simp: finish_forward_answer_def Let_def trace_nested_keeps(5) split: stage_outcome.splits prod.splits)
qed

lemma after_route_counts:
  assumes "inner_counts lk" "after_route lk t w = Some (out, t', w')"
  shows "attempt_count t' = attempt_count t"
proof -
  obtain o1 t1 w1 where r: "run_inner (ls_forward lk) t w = (o1, t1, w1)" by (metis prod_cases3)
  then have "attempt_count t1 = attempt_count t"
    using assms(1) run_inner_txn [OF r] by (simp add: inner_counts_def)
  then show ?thesis
    using assms(2) r finish_counts [OF assms(1)]
    by (auto simp: after_route_def Let_def trace_nested_keeps(5) split: stage_outcome.splits phase.splits prod.splits)
qed

lemma forward_chain_counts:
  assumes "inner_counts lk" "attempt_count t \<le> max_attempts lk" "run_forward_chain lk t w = Some (out, t', w')"
  shows "attempt_count t' \<le> max_attempts lk"
proof (cases "max_attempts lk \<le> attempt_count t")
  case True
  then show ?thesis
    using assms(2,3) by (auto simp: run_forward_chain_def max_attempts_def Let_def)
next
  case False
  let ?t0 = "t\<lparr>cache_lookup_eligible := False\<rparr>"
  obtain o1 t1 w1 where r: "run_inner (ls_route lk) ?t0 w = (o1, t1, w1)" by (metis prod_cases3)
  then have "unat (attempt_count t1) \<le> unat (attempt_count ?t0) + 1"
    using assms(1) run_inner_txn [OF r] unfolding inner_counts_def by blast
  then have "attempt_count t1 \<le> max_attempts lk"
    using False by (simp add: word_le_nat_alt)
  then show ?thesis
    using assms(3) r False after_route_counts [OF assms(1)]
    by (auto simp: run_forward_chain_def max_attempts_def Let_def trace_nested_keeps(5)
        split: stage_outcome.splits phase.splits prod.splits)
qed

lemma try_cache_counts:
  assumes "try_cache_provider lk c t w = (out, t', w')"
  shows "attempt_count t' = attempt_count t"
proof (cases "lw_cache w = None \<or> \<not> lookup_cache_enabled (ls_lookup lk)")
  case True
  then show ?thesis using assms by (auto simp: try_cache_provider_def split: option.splits)
next
  case False
  then obtain r where r: "lw_cache w = Some r" by auto
  obtain o1 w1 where o1: "lookup_cache lk c t r w = (o1, w1)" by fastforce
  have trace: "attempt_count (fst (trace_nested msg None None (Some c) t w1)) = attempt_count t" for msg
    by (rule trace_nested_keeps(5)) (rule prod.collapse [symmetric])
  show ?thesis
  proof (cases o1)
    case (LookupHit wire name skip)
    then show ?thesis
      using assms False r o1 apply_cache_hit_spec [of lk wire name skip t w1] by (auto simp: try_cache_provider_def)
  qed (use assms False r o1 trace [of "''provider cache miss''"] trace [of "''provider cache bypass''"]
    in \<open>auto simp: try_cache_provider_def split_beta\<close>)
qed

lemma provider_loop_counts:
  assumes "inner_counts lk"
  shows "attempt_count t \<le> max_attempts lk \<Longrightarrow> provider_loop lk ps t w = Some (out, t', w') \<Longrightarrow> attempt_count t' \<le> max_attempts lk"
proof (induction ps arbitrary: t w)
  case (Cons p ps)
  show ?case
  proof (cases p)
    case (ProviderCache c)
    show ?thesis
    proof (cases "cache_lookup_eligible t")
      case False
      obtain t1 w1 where tr: "trace_nested ''provider cache bypass'' None None (Some c) t w = (t1, w1)" by fastforce
      then show ?thesis
        using Cons.IH [of t1 w1] Cons.prems False ProviderCache trace_nested_keeps(5) [OF tr] by simp
    next
      case True
      obtain o1 t1 w1 where tr: "try_cache_provider lk c t w = (o1, t1, w1)" by (metis prod_cases3)
      then show ?thesis
        using Cons.IH [of t1 w1] Cons.prems True ProviderCache try_cache_counts [OF tr] by (cases o1) auto
    qed
  next
    case ProviderForward
    then show ?thesis using Cons.prems forward_chain_counts [OF assms] by simp
  qed
qed auto

lemma lookup_counts:
  assumes "inner_counts lk" "attempt_count t \<le> max_attempts lk" "lookup_handle lk t w = Some (out, t', w')"
  shows "attempt_count t' \<le> max_attempts lk"
proof (cases "lookup_cache_wait t")
  case None
  show ?thesis
  proof (cases "lookup_forward_step_of t = Some StepWait")
    case True
    then show ?thesis
      using None assms(2,3) finish_counts [OF assms(1), of "t\<lparr>lookup_forward_step_of := None\<rparr>" w out t' w']
      by (simp add: lookup_handle_def)
  next
    case False
    show ?thesis
    proof (cases "map_of (lk_profiles (ls_lookup lk)) (or_default (lookup_profile t) DEFAULT_LOOKUP_PROFILE)")
      case none: None
      then show ?thesis using None False assms(2,3) by (auto simp: lookup_handle_def)
    next
      case (Some profile)
      then show ?thesis
        using None False assms(2,3)
          provider_loop_counts [OF assms(1), of "t\<lparr>lookup_profile := Some (lpf_name profile)\<rparr>" "lpf_providers profile" w out t' w']
        by (simp add: lookup_handle_def)
    qed
  qed
next
  case (Some wait)
  let ?t = "t\<lparr>lookup_cache_wait := None\<rparr>"
  have hit: "attempt_count t' = attempt_count t" if "apply_cache_hit lk wire name skip ?t v = (out, t', w')" for wire name skip v
    using apply_cache_hit_spec [of lk wire name skip ?t v] that by auto
  have chain: "attempt_count t' \<le> max_attempts lk"
    if "run_forward_chain lk u v = Some (out, t', w')" "attempt_count u = attempt_count t" for u v
    using forward_chain_counts [OF assms(1) _ that(1)] that(2) assms(2) by simp
  show ?thesis
  proof (cases "lw_cache w")
    case None
    then show ?thesis
      using assms(3) Some chain [of ?t w] by (simp add: lookup_handle_def resume_cache_wait_def)
  next
    case cache: (Some r)
    obtain o1 r1 where o1: "resume_after_wait (ls_cache_env lk) (ref_cache_name wait) (ref_key wait) ?t (lw_clock w (lw_ticks w)) r = (o1, r1)"
      by fastforce
    let ?v = "w\<lparr>lw_ticks := lw_ticks w + 1, lw_cache := Some r1\<rparr>"
    show ?thesis
    proof (cases o1)
      case (LookupHit wire name skip)
      then show ?thesis
        using assms(2,3) Some cache o1 hit [of wire name skip ?v]
        by (simp add: lookup_handle_def resume_cache_wait_def read_clock_def)
    qed (use assms(3) Some cache o1 chain [of "?t\<lparr>lookup_outcome_of := Some Miss, lookup_cache_fill := Some wait\<rparr>" ?v]
      in \<open>simp_all add: lookup_handle_def resume_cache_wait_def read_clock_def\<close>)
  qed
qed

text \<open>C9: The attempts of a query stay within the configured limit over a whole run of the pipeline,
  retries included: Route is asked for a backend at most that many times.  Hypotheses are that the
  rules do not touch the count and the inner stages count as Route, Forward and WaitResponse do.\<close>

theorem run_attempts_bounded:
  assumes "oe_stages env = build_orchestrator dc rules lk" "inner_counts lk"
    and "\<forall>t hook. attempt_count (snd (rules t hook)) = attempt_count t"
    and "attempt_count t \<le> max_attempts lk" "run_loop env n t w = Some (r, t', w', m)"
  shows "attempt_count t' \<le> max_attempts lk"
proof (rule run_loop_keeps [where Q = "\<lambda>t. attempt_count t \<le> max_attempts lk"])
  show "loop_blind (\<lambda>t. attempt_count t \<le> max_attempts lk)"
    by (simp add: loop_blind_def)
  have pure: "attempt_count (snd (parse_handle dc u)) = attempt_count u" "attempt_count (snd (send_handle dc u)) = attempt_count u"
    "attempt_count (snd (request_rules_handle rules u)) = attempt_count u"
    "attempt_count (snd (response_rules_handle rules u)) = attempt_count u" for u
    using assms(3)
    by (auto simp: parse_handle_def parse_drop_with_def apply_parsed_query_def send_handle_def Let_def
        request_rules_handle_def response_rules_handle_def split: sum.splits option.splits prod.splits) (metis snd_conv)+
  show "stages_keep env (\<lambda>t. attempt_count t \<le> max_attempts lk)"
    unfolding stages_keep_def
  proof (intro allI impI)
    fix ph stage t w out t' w'
    assume st: "oe_stages env ph = Some stage" "attempt_count t \<le> max_attempts lk" "stage t w = Some (out, t', w')"
    show "attempt_count t' \<le> max_attempts lk"
    proof (cases "ph = Lookup")
      case True
      then show ?thesis
        using st assms(1) lookup_counts [OF assms(2)] by (auto simp: build_orchestrator_def)
    next
      case False
      then have "\<exists>f. stage = pure_stage f \<and> f \<in> {parse_handle dc, request_rules_handle rules, response_rules_handle rules, send_handle dc}"
        using st(1) assms(1) by (cases ph) (auto simp: build_orchestrator_def)
      then show ?thesis
        using st(2,3) pure [of t] by (auto simp: pure_stage_def split: prod.splits)
    qed
  qed
qed (use assms in auto)

section \<open>Failures that send an earlier answer\<close>

text \<open>Past the limit on the duration the transaction gets the code SERVFAIL; but a TCP client of whose
  query an earlier attempt left an answer is sent that answer.\<close>

lemma late_query_sends_earlier_answer:
  assumes "oe_stages env Send = Some (pure_stage (send_handle dc))" "too_late env n t"
    and "response_wire t = Some wire" "protocol t = Tcp"
  shows "\<exists>t' m. run_loop env n t w = Some (Finished (Response wire), t', w, m) \<and> txn_rcode t' = txn_rcode (set_rcode_name ''SERVFAIL'' t)"
  using assms
  by (subst run_loop.simps) (simp add: loop_turn_def check_duration_def pure_stage_def send_handle_def after_stage_def
      finish_run_def Let_def)

text \<open>So is one whose attempts are used up.\<close>

lemma exhausted_query_sends_earlier_answer:
  assumes "oe_stages env = build_orchestrator dc rules lk" "\<not> too_late env n t" "current_phase t = Lookup"
    and "lookup_cache_wait t = None" "lookup_forward_step_of t = None" "max_attempts lk \<le> attempt_count t"
    and "map_of (lk_profiles (ls_lookup lk)) (or_default (lookup_profile t) DEFAULT_LOOKUP_PROFILE) = Some profile"
      "lpf_providers profile = [ProviderForward]"
    and "response_wire t = Some wire" "protocol t = Tcp"
  shows "\<exists>t' m. run_loop env n t w = Some (Finished (Response wire), t', w, m)"
proof -
  let ?t1 = "set_rcode_name ''SERVFAIL'' (t\<lparr>lookup_profile := Some (lpf_name profile), cache_lookup_eligible := False\<rparr>)"
  have "lookup_handle lk t w = Some (Continue Send, ?t1, w)"
    using assms by (simp add: lookup_handle_def run_forward_chain_def max_attempts_def Let_def)
  then have "\<exists>t2. loop_turn env n t w = Some (TurnNext t2 w) \<and> current_phase t2 = Send \<and> response_wire t2 = Some wire \<and> protocol t2 = Tcp"
    using assms by (simp add: loop_turn_def check_duration_def build_orchestrator_def after_stage_def Let_def)
  then obtain t2 where t2: "loop_turn env n t w = Some (TurnNext t2 w)" "current_phase t2 = Send"
    "response_wire t2 = Some wire" "protocol t2 = Tcp" by blast
  have "\<exists>t' m. run_loop env (n + 3) t2 w = Some (Finished (Response wire), t', w, m)"
    using t2(2-4) assms(1)
    by (subst run_loop.simps) (simp add: loop_turn_def check_duration_def build_orchestrator_def pure_stage_def send_handle_def
        after_stage_def finish_run_def Let_def)
  then show ?thesis using t2(1) by (subst run_loop.simps) simp
qed

section \<open>Resuming inline\<close>

text \<open>A run that is resumed inline starts over at Parse, whatever phase the resumed stage asked for.\<close>

lemma inline_wait_restarts_at_parse:
  assumes "oe_stages env resume_phase = Some stage" "stage (t\<lparr>current_phase := resume_phase\<rparr>) w = Some (Continue p, t2, w2)"
  shows "resume_inline_wait env resume_phase n t w = run_loop env n
    (t2\<lparr>snapshot_generation := oe_generation env, current_phase := Parse, metrics_pin := oe_pin env\<rparr>) w2"
  using assms by (simp add: resume_inline_wait_def run_until_suspend_def)

section \<open>Witnesses\<close>

definition quiet_rules :: rules_env
  where "quiet_rules t hook = ((RuleContinue, None), t)"

definition example_orch :: "(unit, unit) lookup_world orch_env"
  where "example_orch = \<lparr>oe_stages = build_orchestrator plain_codec quiet_rules example_lookup_env, oe_metrics = None, oe_pin = None,
    oe_tracing = False, oe_trace_matches = (\<lambda>_. False), oe_max_duration_ms = None, oe_generation = 0,
    oe_clock = (\<lambda>n. n * 1000000000)\<rparr>"

text \<open>A query that is past its limit.\<close>

definition late_query :: transaction
  where "late_query = example_query\<lparr>attempt_count := 1\<rparr>"

lemma late_run:
  "\<exists>wire t' w' m. run_loop example_orch 9 late_query example_world = Some (Finished (Response wire), t', w', m) \<and> protocol t' = Udp
    \<and> client_udp_payload_size t' = None"
proof -
  have late: "too_late example_orch 9 late_query"
    by (simp add: too_late_def max_duration_def example_orch_def late_query_def example_query_def transaction_new_def
        or_default_def elapsed_def from_millis_def)
  obtain out t1 where s: "send_handle plain_codec (check_duration example_orch 9 late_query) = (out, t1)" by fastforce
  note fit = send_stage_fits [OF s]
  then obtain wire where wire: "response_wire t1 = Some wire" by blast
  have "protocol t1 = Udp" "client_udp_payload_size t1 = None"
    using fit late by (simp_all add: check_duration_def late_query_def example_query_def transaction_new_def)
  then show ?thesis
    using fit late s wire
    by (subst run_loop.simps) (simp add: loop_turn_def example_orch_def build_orchestrator_def pure_stage_def
        check_duration_def after_stage_def finish_run_def Let_def)
qed

theorem run_responses_fit_witness:
  "\<exists>wire t' w' m. run_loop example_orch 9 late_query example_world = Some (Finished (Response wire), t', w', m) \<and> length wire \<le> 512"
proof -
  obtain wire t' w' m where r: "run_loop example_orch 9 late_query example_world = Some (Finished (Response wire), t', w', m)"
    "protocol t' = Udp" "client_udp_payload_size t' = None"
    using late_run by blast
  then show ?thesis
    using run_responses_fit [OF _ r(1), of plain_codec]
    by (auto simp: example_orch_def build_orchestrator_def udp_limit_def)
qed

theorem run_attempts_bounded_witness:
  "\<exists>r t' w' m. run_loop example_orch 9 late_query example_world = Some (r, t', w', m) \<and> attempt_count t' \<le> 3"
proof -
  obtain r t' w' m where r: "run_loop example_orch 9 late_query example_world = Some (r, t', w', m)"
    using late_run by blast
  moreover have "attempt_count t' \<le> max_attempts example_lookup_env"
    by (rule run_attempts_bounded [OF _ _ _ _ r, of plain_codec quiet_rules])
      (simp_all add: example_orch_def inner_counts_def example_lookup_env_def quiet_rules_def max_attempts_def or_default_def late_query_def)
  ultimately show ?thesis
    by (auto simp: max_attempts_def example_lookup_env_def or_default_def)
qed

text \<open>Rules that ask for a retry for ever.\<close>

definition retrying_rules :: rules_env
  where "retrying_rules t hook = ((if hook = HookResponse then RuleRetry else RuleContinue, None), t)"

definition retrying_orch :: "unit orch_env"
  where "retrying_orch = \<lparr>oe_stages = with_default_stages plain_codec retrying_rules, oe_metrics = None, oe_pin = None,
    oe_tracing = False, oe_trace_matches = (\<lambda>_. False), oe_max_duration_ms = None, oe_generation = 0,
    oe_clock = (\<lambda>n. n * 1000000000)\<rparr>"

lemma retrying_stages_return: "stages_return retrying_orch"
  unfolding stages_return_def
proof (intro allI impI)
  fix ph and stage :: "unit stage" and t w
  assume "oe_stages retrying_orch ph = Some stage"
  then have "\<exists>f. stage = pure_stage f \<and> f \<in> {parse_handle plain_codec, request_rules_handle retrying_rules,
      response_rules_handle retrying_rules, send_handle plain_codec}"
    by (cases ph) (auto simp: retrying_orch_def)
  moreover have "started_at (snd (parse_handle plain_codec t)) = started_at t" "started_at (snd (send_handle plain_codec t)) = started_at t"
    "started_at (snd (request_rules_handle retrying_rules t)) = started_at t"
    "started_at (snd (response_rules_handle retrying_rules t)) = started_at t"
    by (auto simp: parse_handle_def parse_drop_with_def apply_parsed_query_def send_handle_def Let_def retrying_rules_def
        request_rules_handle_def response_rules_handle_def split: sum.splits option.splits prod.splits)
  ultimately show "\<exists>out t' w'. stage t w = Some (out, t', w') \<and> started_at t' = started_at t"
    by (auto simp: pure_stage_def split_beta)
qed

theorem run_loop_returns_witness:
  "\<exists>r t' w' m. run_loop retrying_orch 0 (example_query\<lparr>txn_pre_parsed := True, qname := Some ''a.''\<rparr>) () = Some (r, t', w', m) \<and> m \<le> 11"
proof -
  let ?t = "example_query\<lparr>txn_pre_parsed := True, qname := Some ''a.''\<rparr>"
  have "\<forall>j \<ge> 6. max_duration retrying_orch < elapsed (oe_clock retrying_orch j) (started_at ?t)"
    by (simp add: max_duration_def retrying_orch_def example_query_def transaction_new_def or_default_def elapsed_def from_millis_def)
  from run_loop_returns [OF retrying_stages_return this, of 0 "()"] show ?thesis by simp
qed

end
