(* ===== verification/Spec2Isabelle.thy ===== *)
theory Spec2Isabelle
  imports Shared_Store Work_Queue Orchestrator
begin

text \<open>
  A verification development for DNSConduit, a DNS forwarder written in Rust.  File names below are
  under \<open>src/crates\<close>.

  \<^bold>\<open>The program.\<close>  A listener admits a client's datagram through the access lists and gives it a
  preallocated slot with a transaction.  The orchestrator drives the transaction through the phases
  Parse, RequestRules, Lookup, ResponseRules and Send.  Lookup asks the providers of a profile in
  their order: caches, and the forward provider, which selects a backend (Route), sends the query
  (Forward) and takes in the answer (WaitResponse).  Response rules may ask for a retry, which goes
  back to Lookup.  In the sync runtime a worker does all this for one query; in the split I/O
  runtime policy workers take slots off a queue, and the I/O shards match replies and time out.
  A configuration is validated and compiled into a snapshot; health states and cache contents live
  beside the snapshot and are reconciled when it changes.

  \<^bold>\<open>Vocabulary.\<close>
    \<^item> \<open>Prelude\<close>: integers at their width, results, strings, saturating arithmetic, shared lemmas;
    \<^item> \<open>Std_Net\<close>: addresses of the standard library, their parsers and printers;
    \<^item> \<open>Dns_Wire\<close> (\<open>conduit-dns-wire\<close>): the enums of the wire format; parsing a name inverts naming;
    \<^item> \<open>Dns_Message\<close>: the parsed message and the record \<open>dns_codec\<close> of the library that parses it.

  \<^bold>\<open>Transactions and slots.\<close>
    \<^item> \<open>Transaction\<close> (\<open>conduit-core/src/transaction.rs\<close> and the small enums beside it): the record of a query;
    \<^item> \<open>Txn_Store\<close> (\<open>txn_store/mod.rs\<close>, \<open>wire_buf.rs\<close>): buffers, slots and the single-threaded pool, which
      never panics; interface \<open>slot_pool\<close>;
    \<^item> \<open>Shared_Store\<close> (\<open>SharedTxnStore\<close>): the pool of several threads as a step relation over critical
      sections, each labelled with what it does; no slot has two owners, and every section is the
      step of an abstract pool with the same label.  The closures that callers run on a slot are
      assumed to neither free it nor touch a free one;
    \<^item> \<open>Work_Queue\<close> (\<open>runtime/split_io/queue.rs\<close>): the sharded queue is first-in first-out per slot;
      interface \<open>slot_queue\<close>.

  \<^bold>\<open>Configuration.\<close>
    \<^item> \<open>Config\<close> (\<open>conduit-config\<close>: \<open>backend.rs\<close>, \<open>forward.rs\<close>, \<open>health.rs\<close>): what validates compiles;
    \<^item> \<open>Data_Sources\<close> (\<open>conduit-script\<close>: \<open>data_sources.rs\<close>, \<open>cidr.rs\<close>): a table that loads is within the limits of its source;
    \<^item> \<open>Listeners\<close> (\<open>listeners.rs\<close>, \<open>dataplane.rs\<close>, \<open>shutdown.rs\<close>, \<open>logging.rs\<close>, \<open>duration.rs\<close>, \<open>size.rs\<close>,
      \<open>conduit-core/src/acl.rs\<close>, \<open>conduit-dataplane/src/acl_gate.rs\<close>): the access lists; the two tiers
      decide as the full list does, and validated lists never panic;
    \<^item> \<open>Lookup_Config\<close> (\<open>lookup.rs\<close>): profiles and caches that compile are consistent.

  \<^bold>\<open>Policy.\<close>
    \<^item> \<open>Selectors\<close> (\<open>conduit-events/src/selectors.rs\<close>): validation, compilation and matching;
    \<^item> \<open>Rules\<close> (\<open>conduit-core/src/rules/mod.rs\<close>, the rules part of \<open>conduit-config/src/validate.rs\<close>,
      the ids of the scripts in \<open>conduit-script/src/compile.rs\<close>): the outcome of a rule, and where
      validated rules still panic.

  \<^bold>\<open>Upstream.\<close>
    \<^item> \<open>Health\<close> (\<open>health/state.rs\<close>, \<open>control.rs\<close>): the state machine of a backend, operator controls, and
      reloads, which leave the health of a backend that stays as its own events made it;
      interface \<open>tracked_health\<close>;
    \<^item> \<open>Routing\<close> (\<open>routing.rs\<close>, \<open>stages/route.rs\<close>): the weighted pick is proportional, sound and complete,
      and no attempt repeats a backend while another is left;
    \<^item> \<open>Txn_Table\<close> (\<open>forward/txn_table.rs\<close>, \<open>pool_inflight.rs\<close>): outstanding queries and the limit per
      pool; interface \<open>demux_table\<close>;
    \<^item> \<open>Io_Backend\<close> (\<open>egress.rs\<close>, \<open>io_backend.rs\<close>): every forward is resumed exactly once;
    \<^item> \<open>Forward\<close> (\<open>transport.rs\<close>, \<open>wait_stage.rs\<close>, \<open>mode.rs\<close>): both forward modes clean up after themselves.

  \<^bold>\<open>Cache.\<close>
    \<^item> \<open>Cache_Store\<close> (\<open>lookup/cache/entry.rs\<close>, \<open>memory.rs\<close>): the store in memory with capacity, eviction and
      reaper; interface \<open>answer_store\<close>;
    \<^item> \<open>Cache_Serve\<close> (\<open>key.rs\<close>, \<open>serve.rs\<close>, the lifetimes of \<open>memory.rs\<close>): keys are exact, and a fresh entry
      serves live records;
    \<^item> \<open>Flight\<close> (\<open>inflight.rs\<close>): one leader per flight, every waiting query handed out once;
    \<^item> \<open>Cache_Registry\<close> (\<open>registry.rs\<close>, \<open>backend.rs\<close>): look-up, fill and reconciliation; what is filled
      is found, by later queries and by those that waited for it.

  \<^bold>\<open>Pipeline.\<close>
    \<^item> \<open>Stages\<close> (\<open>structural_parse.rs\<close>, \<open>stages/parse.rs\<close>, \<open>stages/send.rs\<close>): Parse and Send;
    \<^item> \<open>Lookup_Stage\<close> (\<open>lookup/stage.rs\<close>): the providers and the forward chain; a hit stays local, and a leader
      that comes back closes its flight;
    \<^item> \<open>Orchestrator\<close> (\<open>conduit-core/src/orchestrator.rs\<close>, \<open>conduit-dataplane/src/runtime/orchestrator.rs\<close>):
      the loop over the phases; it returns, its answers fit, and the attempts stay within their limit.

  \<^bold>\<open>Conventions.\<close>  A method on shared state is a function that returns the new state; an object that is
  shared by reference, such as a gate, is an index into a store.  An error is the left side of a sum
  and a panic is \<open>None\<close>.  Integers keep their width.  Text is its UTF-8 bytes; trimming and changing
  case act on ASCII only, which is less than the source does on other white space and letters.  A hash map is an association list where the code
  iterates over it, and results hold for every order.  Clock readings are natural numbers given as
  arguments or taken from a sequence.  Floating point is over the reals with the rounding as a
  parameter.  A loop that may not end is a partial function with \<open>None\<close> for not returning, and that
  it returns is a theorem: for the insertion into the cache under the invariant of the store, for
  the orchestrator from the limit on the duration.  There is no fuel.

  \<^bold>\<open>Parameters.\<close>  Code outside of the repository: the DNS library, the script engine, the prefix trie
  and the address prefixes of \<open>ipnet\<close>, the hash of the standard library.  The environment: files, sockets and the
  outcomes of sending and receiving, and the other threads while a query blocks on a flight.  Code of
  the repository that is not modelled and only called: the LMDB store, and whether a trace is activated.

  \<^bold>\<open>Theorems that record a flaw.\<close>  Some lemmas state what the code does where it differs from what its
  documentation or its other branches say: \<open>failed_leader_wedges_key\<close>, \<open>unstored_fill_drops_waiters\<close>,
  \<open>exhausted_query_sends_earlier_answer\<close>, \<open>late_query_sends_earlier_answer\<close>, \<open>inline_wait_restarts_at_parse\<close>,
  \<open>rejected_cap_stays\<close>, \<open>ancestor_walk_stops_at_gap\<close>, \<open>timeout_keeps_earlier_answer\<close>, \<open>sync_accepts_any_reply\<close>,
  \<open>sync_udp_source_stuck\<close>, \<open>evict_one_takes_fresh_before_stale\<close>, \<open>error_response_cut_for_tcp\<close>,
  \<open>qname_suffix_bytewise\<close>, \<open>blank_cache_instance_panics\<close>, \<open>parse_si_size_panics\<close>, \<open>default_profile_not_required\<close>,
  \<open>opcode_number_wraps\<close>, \<open>require_1_good_needs_full_rise\<close>, \<open>new_backend_ignores_frozen_scope\<close>.

  \<^bold>\<open>Not modelled.\<close>  Metrics, events and logs, which no modelled decision depends on; the LMDB store; the
  script engine and its host interface; reading YAML files, merging, overlaying and synthesising
  configurations, and the validation outside of the rules and access lists; the configurator thread
  and the control-plane API; sockets, threads and start-up of listeners and runtimes; sending
  probes; the command-line client and the trace viewers.  The weak memory of single atomics is not modelled
  either: an operation on atomics is one step where the code needs no more.  The cache in memory is
  used by one thread at a time; that concurrent insertions may overshoot its cap, as the source
  says, is outside of the model.
\<close>

end
